(* ===== verification/Incan_Prelude.thy ===== *)
theory Incan_Prelude
  imports Main "HOL-Library.Word"
begin

text \<open>
  Shared ground of the development.

  \<^item> Rust scalars.  A Rust \<open>char\<close> is a Unicode scalar value, modelled by its code point
    (\<open>scalar\<close>); a \<open>str\<close> is the list of its scalars (\<open>rstr\<close>).  Byte offsets into a string are
    sums of \<open>len_utf8\<close>.  Bytes are \<open>8 word\<close>.
  \<^item> Machine integers.  A \<open>w\<close>-bit signed integer is an \<open>int\<close> within \<open>in_signed w\<close>, an unsigned
    one a \<open>nat\<close> below \<open>2 ^ w\<close>.  Rust addition on a signed width either panics or wraps when it
    overflows, depending on the build's \<open>overflow-checks\<close>; \<open>overflow_mode\<close> is that setting and
    \<open>add_signed\<close> follows it.
  \<^item> ASCII classification, decimal rendering and decimal parsing of the standard library, as far
    as the modelled sources use them.
  \<^item> The named collections \<open>rust_defs\<close> (definitions unfolded when a proof computes) and
    \<open>width_simps\<close> (facts on integer widths).
\<close>

named_theorems rust_defs "definitions of standard-library operations"
named_theorems width_simps "bounds of machine integers"

section \<open>Characters and strings\<close>

type_synonym scalar = nat
type_synonym rstr = "scalar list"
type_synonym byte = "8 word"

abbreviation ch :: "char \<Rightarrow> scalar" where
  "ch c \<equiv> of_char c"

definition lit :: "string \<Rightarrow> rstr" where
  [simp]: "lit s = map of_char s"

text \<open>A code point is a Rust \<open>char\<close> when it is no surrogate and at most \<open>U+10FFFF\<close>.\<close>

definition valid_scalar :: "scalar \<Rightarrow> bool" where
  "valid_scalar c \<longleftrightarrow> c < 0xD800 \<or> (0xE000 \<le> c \<and> c < 0x110000)"

definition valid_str :: "rstr \<Rightarrow> bool" where
  "valid_str s \<longleftrightarrow> list_all valid_scalar s"

definition len_utf8 :: "scalar \<Rightarrow> nat" where
  "len_utf8 c = (if c < 0x80 then 1 else if c < 0x800 then 2 else if c < 0x10000 then 3 else 4)"

definition str_bytes_len :: "rstr \<Rightarrow> nat" where
  "str_bytes_len s = sum_list (map len_utf8 s)"

lemma len_utf8_pos [simp]: "0 < len_utf8 c"
  by (simp add: len_utf8_def)

lemma len_utf8_ge_1 [simp]: "Suc 0 \<le> len_utf8 c"
  by (simp add: len_utf8_def)

lemma str_bytes_len_simps [simp]:
  "str_bytes_len [] = 0"
  "str_bytes_len (c # s) = len_utf8 c + str_bytes_len s"
  "str_bytes_len (s @ t) = str_bytes_len s + str_bytes_len t"
  by (simp_all add: str_bytes_len_def)

lemma valid_str_simps [simp]:
  "valid_str []"
  "valid_str (c # s) \<longleftrightarrow> valid_scalar c \<and> valid_str s"
  "valid_str (s @ t) \<longleftrightarrow> valid_str s \<and> valid_str t"
  by (auto simp: valid_str_def)

definition is_ascii :: "scalar \<Rightarrow> bool" where
  "is_ascii c \<longleftrightarrow> c < 0x80"

definition is_ascii_digit :: "scalar \<Rightarrow> bool" where
  "is_ascii_digit c \<longleftrightarrow> 48 \<le> c \<and> c \<le> 57"

definition is_ascii_alphabetic :: "scalar \<Rightarrow> bool" where
  "is_ascii_alphabetic c \<longleftrightarrow> (65 \<le> c \<and> c \<le> 90) \<or> (97 \<le> c \<and> c \<le> 122)"

definition is_ascii_alphanumeric :: "scalar \<Rightarrow> bool" where
  "is_ascii_alphanumeric c \<longleftrightarrow> is_ascii_alphabetic c \<or> is_ascii_digit c"

definition to_ascii_lowercase :: "scalar \<Rightarrow> scalar" where
  "to_ascii_lowercase c = (if 65 \<le> c \<and> c \<le> 90 then c + 32 else c)"

definition eq_ignore_ascii_case :: "rstr \<Rightarrow> rstr \<Rightarrow> bool" where
  "eq_ignore_ascii_case s t \<longleftrightarrow> map to_ascii_lowercase s = map to_ascii_lowercase t"

lemmas ascii_defs = is_ascii_def is_ascii_digit_def is_ascii_alphabetic_def
  is_ascii_alphanumeric_def to_ascii_lowercase_def

text \<open>\<open>str::strip_prefix\<close> and \<open>str::strip_suffix\<close>.\<close>

fun strip_prefix :: "'a list \<Rightarrow> 'a list \<Rightarrow> 'a list option" where
  "strip_prefix [] s = Some s"
| "strip_prefix (p # ps) [] = None"
| "strip_prefix (p # ps) (c # s) = (if p = c then strip_prefix ps s else None)"

definition strip_suffix :: "'a list \<Rightarrow> 'a list \<Rightarrow> 'a list option" where
  "strip_suffix p s = map_option rev (strip_prefix (rev p) (rev s))"

lemma strip_prefix_Some_iff: "strip_prefix p s = Some t \<longleftrightarrow> s = p @ t"
  by (induction p s rule: strip_prefix.induct) auto

lemma strip_prefix_append [simp]: "strip_prefix p (p @ t) = Some t"
  by (simp add: strip_prefix_Some_iff)

lemma strip_suffix_Some_iff: "strip_suffix p s = Some t \<longleftrightarrow> s = t @ p"
  unfolding strip_suffix_def
  by (auto simp: strip_prefix_Some_iff) (metis rev_append rev_rev_ident)

lemma strip_suffix_append [simp]: "strip_suffix p (t @ p) = Some t"
  by (simp add: strip_suffix_Some_iff)

section \<open>Machine integers\<close>

definition in_signed :: "nat \<Rightarrow> int \<Rightarrow> bool" where
  "in_signed w x \<longleftrightarrow> - (2 ^ (w - 1)) \<le> x \<and> x < 2 ^ (w - 1)"

definition in_unsigned :: "nat \<Rightarrow> nat \<Rightarrow> bool" where
  "in_unsigned w x \<longleftrightarrow> x < 2 ^ w"

abbreviation in_i64 :: "int \<Rightarrow> bool" where
  "in_i64 \<equiv> in_signed 64"

abbreviation in_i128 :: "int \<Rightarrow> bool" where
  "in_i128 \<equiv> in_signed 128"

text \<open>Two's complement wrap-around at a width.\<close>

definition wrap_signed :: "nat \<Rightarrow> int \<Rightarrow> int" where
  "wrap_signed w x = (x + 2 ^ (w - 1)) mod 2 ^ w - 2 ^ (w - 1)"

datatype overflow_mode = Overflow_panics | Overflow_wraps

definition add_signed :: "overflow_mode \<Rightarrow> nat \<Rightarrow> int \<Rightarrow> int \<Rightarrow> int option" where
  "add_signed md w a b =
     (if in_signed w (a + b) then Some (a + b)
      else case md of Overflow_panics \<Rightarrow> None | Overflow_wraps \<Rightarrow> Some (wrap_signed w (a + b)))"

lemma in_signed_64 [width_simps]:
  "in_signed 64 x \<longleftrightarrow> -9223372036854775808 \<le> x \<and> x < 9223372036854775808"
  by (simp add: in_signed_def)

lemma in_signed_mono: "in_signed v x \<Longrightarrow> v \<le> w \<Longrightarrow> in_signed w x"
proof -
  assume x: "in_signed v x" and vw: "v \<le> w"
  have "(2::int) ^ (v - 1) \<le> 2 ^ (w - 1)"
    using vw by (intro power_increasing) auto
  then show "in_signed w x" using x unfolding in_signed_def by linarith
qed

lemma in_unsigned_mono: "in_unsigned v x \<Longrightarrow> v \<le> w \<Longrightarrow> in_unsigned w x"
  unfolding in_unsigned_def
  by (metis less_le_trans one_le_numeral power_increasing)

lemma two_power_split: "0 < w \<Longrightarrow> (2::int) ^ w = 2 * 2 ^ (w - 1)"
  by (cases w) auto

lemma wrap_signed_in: "0 < w \<Longrightarrow> in_signed w (wrap_signed w x)"
proof -
  assume w: "0 < w"
  let ?h = "(2::int) ^ (w - 1)"
  have "0 \<le> (x + ?h) mod 2 ^ w" and "(x + ?h) mod 2 ^ w < 2 * ?h"
    using two_power_split [OF w] by (metis pos_mod_sign zero_less_numeral zero_less_power,
      metis pos_mod_bound zero_less_numeral zero_less_power)
  then show ?thesis by (simp add: in_signed_def wrap_signed_def)
qed

lemma wrap_signed_id: "0 < w \<Longrightarrow> in_signed w x \<Longrightarrow> wrap_signed w x = x"
  using two_power_split [of w] by (simp add: in_signed_def wrap_signed_def)

lemma add_signed_no_overflow [simp]:
  "in_signed w (a + b) \<Longrightarrow> add_signed md w a b = Some (a + b)"
  by (simp add: add_signed_def)

text \<open>Rust's \<open>/\<close> and \<open>%\<close> on signed integers truncate toward zero.\<close>

definition rust_div :: "int \<Rightarrow> int \<Rightarrow> int" where
  "rust_div a b = sgn a * sgn b * (\<bar>a\<bar> div \<bar>b\<bar>)"

definition rust_rem :: "int \<Rightarrow> int \<Rightarrow> int" where
  "rust_rem a b = a - rust_div a b * b"

lemma rust_rem_sgn: "rust_rem a b = sgn a * (\<bar>a\<bar> mod \<bar>b\<bar>)"
proof -
  have "rust_div a b * b = sgn a * (\<bar>a\<bar> div \<bar>b\<bar> * \<bar>b\<bar>)"
    by (simp add: rust_div_def abs_sgn ac_simps)
  moreover have "a = sgn a * (\<bar>a\<bar> div \<bar>b\<bar> * \<bar>b\<bar> + \<bar>a\<bar> mod \<bar>b\<bar>)"
    by (simp add: sgn_mult_abs)
  then have "a = sgn a * (\<bar>a\<bar> div \<bar>b\<bar> * \<bar>b\<bar>) + sgn a * (\<bar>a\<bar> mod \<bar>b\<bar>)"
    by (simp only: distrib_left)
  ultimately show ?thesis unfolding rust_rem_def by linarith
qed

lemma rust_div_rem: "rust_div a b * b + rust_rem a b = a"
  by (simp add: rust_rem_def)

section \<open>Decimal rendering and parsing\<close>

text \<open>The \<open>Display\<close> rendering of an unsigned integer: its decimal digits, most significant first.\<close>

fun show_nat :: "nat \<Rightarrow> rstr" where
  "show_nat n = (if n < 10 then [48 + n] else show_nat (n div 10) @ [48 + n mod 10])"

declare show_nat.simps [simp del]

definition show_int :: "int \<Rightarrow> rstr" where
  "show_int i = (if i < 0 then 45 # show_nat (nat (- i)) else show_nat (nat i))"

text \<open>The value of a digit string read left to right.\<close>

definition digits_value :: "rstr \<Rightarrow> nat" where
  "digits_value s = foldl (\<lambda>n c. 10 * n + (c - 48)) 0 s"

text \<open>
  \<open>parse\<close> on an integer type accepts an optional sign (\<open>-\<close> for signed types only) and at least
  one digit, and rejects a value outside the type.
\<close>

definition all_digits :: "rstr \<Rightarrow> bool" where
  "all_digits s \<longleftrightarrow> s \<noteq> [] \<and> list_all is_ascii_digit s"

definition parse_unsigned :: "nat \<Rightarrow> rstr \<Rightarrow> nat option" where
  "parse_unsigned w s =
     (let body = (case s of c # t \<Rightarrow> if c = 43 then t else s | [] \<Rightarrow> s)
      in if all_digits body \<and> in_unsigned w (digits_value body)
         then Some (digits_value body) else None)"

definition parse_signed :: "nat \<Rightarrow> rstr \<Rightarrow> int option" where
  "parse_signed w s =
     (let (neg, body) = (case s of c # t \<Rightarrow> if c = 45 then (True, t) else if c = 43 then (False, t) else (False, s)
                                 | [] \<Rightarrow> (False, s));
          v = (if neg then - int (digits_value body) else int (digits_value body))
      in if all_digits body \<and> in_signed w v then Some v else None)"

lemma digits_value_simps [simp]:
  "digits_value [] = 0"
  "digits_value (s @ [c]) = 10 * digits_value s + (c - 48)"
  by (simp_all add: digits_value_def)

lemma digits_value_append: "digits_value (s @ t) = digits_value s * 10 ^ length t + digits_value t"
proof (induction t rule: rev_induct)
  case Nil
  show ?case by simp
next
  case (snoc c t)
  have "digits_value (s @ t @ [c]) = 10 * digits_value (s @ t) + (c - 48)"
    using digits_value_simps(2) [of "s @ t" c] by simp
  then show ?case using snoc.IH by (simp add: algebra_simps)
qed

lemma digits_value_bound: "list_all is_ascii_digit s \<Longrightarrow> digits_value s < 10 ^ length s"
proof (induction s rule: rev_induct)
  case (snoc c s)
  then have "digits_value s < 10 ^ length s" and "c - 48 \<le> 9"
    by (auto simp: is_ascii_digit_def)
  then show ?case by simp
qed simp

lemma digits_value_zeros: "digits_value (replicate k 48 @ s) = digits_value s"
proof -
  have "digits_value (replicate k 48) = 0"
  proof (induction k)
    case (Suc k)
    have "digits_value (replicate (Suc k) 48) = digits_value (replicate k 48 @ [48])"
      by (simp add: replicate_append_same)
    with Suc.IH show ?case by simp
  qed simp
  then show ?thesis by (simp add: digits_value_append)
qed

lemma show_nat_nonempty [simp]: "show_nat n \<noteq> []"
  by (subst show_nat.simps) simp

lemma show_nat_digits: "list_all is_ascii_digit (show_nat n)"
proof (induction n rule: show_nat.induct)
  case (1 n)
  have "n mod 10 \<le> 9" by presburger
  with "1.IH" show ?case by (subst show_nat.simps) (simp add: is_ascii_digit_def [of "_ + _"])
qed

lemma all_digits_show_nat [simp]: "all_digits (show_nat n)"
  by (simp add: all_digits_def show_nat_digits)

lemma digits_value_show_nat [simp]: "digits_value (show_nat n) = n"
proof (induction n rule: show_nat.induct)
  case (1 n)
  show ?case
  proof (cases "n < 10")
    case True
    then show ?thesis
      using digits_value_simps(2) [of "[]" "48 + n"] by (subst show_nat.simps) simp
  next
    case False
    then show ?thesis using "1.IH" by (subst show_nat.simps) simp
  qed
qed

lemma length_show_nat_le: "0 < k \<Longrightarrow> length (show_nat n) \<le> k \<longleftrightarrow> n < 10 ^ k"
proof (induction n arbitrary: k rule: show_nat.induct)
  case (1 n)
  show ?case
  proof (cases "n < 10")
    case True
    have "(10::nat) \<le> 10 ^ k" using "1.prems" by (cases k) auto
    with True "1.prems" show ?thesis by (subst show_nat.simps) simp
  next
    case False
    show ?thesis
    proof (cases "k = 1")
      case True
      have "show_nat (n div 10) \<noteq> []" by simp
      then have "0 < length (show_nat (n div 10))" by blast
      with True False show ?thesis by (subst show_nat.simps) simp
    next
      case False
      with "1.prems" obtain j where k: "k = Suc j" and j: "0 < j" by (cases k) auto
      have "length (show_nat (n div 10)) \<le> j \<longleftrightarrow> n div 10 < 10 ^ j"
        using "1.IH" \<open>\<not> n < 10\<close> j by blast
      also have "\<dots> \<longleftrightarrow> n < 10 ^ k"
        by (simp add: k less_mult_imp_div_less div_less_iff_less_mult mult.commute)
      finally show ?thesis using \<open>\<not> n < 10\<close> by (subst show_nat.simps) (simp add: k)
    qed
  qed
qed

lemma parse_unsigned_show_nat: "in_unsigned w n \<Longrightarrow> parse_unsigned w (show_nat n) = Some n"
proof -
  assume n: "in_unsigned w n"
  obtain c t where s: "show_nat n = c # t" by (cases "show_nat n") auto
  have "is_ascii_digit c" using show_nat_digits [of n] s by simp
  then have "c \<noteq> 43" by (simp add: is_ascii_digit_def)
  then have "(case show_nat n of c # t \<Rightarrow> if c = 43 then t else show_nat n | [] \<Rightarrow> show_nat n)
      = show_nat n"
    by (simp add: s)
  with n show ?thesis
    unfolding parse_unsigned_def Let_def by simp
qed

lemma parse_signed_digits:
  "all_digits s \<Longrightarrow> parse_signed w s =
     (if in_signed w (int (digits_value s)) then Some (int (digits_value s)) else None)"
  by (cases s) (auto simp: parse_signed_def all_digits_def is_ascii_digit_def)

lemma parse_signed_neg_digits:
  "all_digits s \<Longrightarrow> parse_signed w (45 # s) =
     (if in_signed w (- int (digits_value s)) then Some (- int (digits_value s)) else None)"
  by (simp add: parse_signed_def)

lemma parse_signed_show_int: "in_signed w i \<Longrightarrow> parse_signed w (show_int i) = Some i"
  by (simp add: show_int_def parse_signed_digits parse_signed_neg_digits)

section \<open>Generic lemmas\<close>

lemma find_None_iff_all: "find P xs = None \<longleftrightarrow> list_all (\<lambda>x. \<not> P x) xs"
  by (auto simp: find_None_iff list_all_iff)

lemma find_SomeD: "find P xs = Some x \<Longrightarrow> P x \<and> x \<in> set xs"
  by (auto simp: find_Some_iff)

lemma take_append_exact: "length xs = n \<Longrightarrow> take n (xs @ ys) = xs"
  by simp

lemma drop_append_exact: "length xs = n \<Longrightarrow> drop n (xs @ ys) = ys"
  by simp

end
