(* ===== verification/Incan_Errors.thy ===== *)
theory Incan_Errors
  imports Incan_Prelude
begin

text \<open>
  The runtime's exceptions (\<open>kernel/incan_lang/src/errors.rs\<close>, \<open>lang/errors.rs\<close> and
  \<open>stdlib/core/rust/src/errors.rs\<close>).  The semantic core builds an \<open>IncanError\<close> value; the runtime
  raises it by panicking with its rendered text.  A fallible operation of the model returns
  \<open>panic + 'a\<close>: \<open>Inl (Raise e)\<close> for a raised error, \<open>Inl (RaiseKey k)\<close> for the missing dictionary
  key, and \<open>Inl (RustPanic m)\<close> where Rust itself panics (arithmetic overflow under overflow
  checks, a division by zero the caller failed to exclude).
\<close>

datatype ErrorKind =
  AssertionError | ValueError | TypeError | ZeroDivisionError | IndexError | KeyError | JsonDecodeError

datatype ZeroDivisionOperation =
  IntegerTrueDivision | IntegerFloorDivisionOrModulo | FloatTrueDivision | FloatFloorDivision | FloatModulo

fun zero_division_message :: "ZeroDivisionOperation \<Rightarrow> rstr" where
  "zero_division_message IntegerTrueDivision = lit ''division by zero''"
| "zero_division_message IntegerFloorDivisionOrModulo = lit ''integer division or modulo by zero''"
| "zero_division_message FloatTrueDivision = lit ''float division by zero''"
| "zero_division_message FloatFloorDivision = lit ''float floor division by zero''"
| "zero_division_message FloatModulo = lit ''float modulo''"

datatype ErrorArgs =
    Static rstr
  | Message rstr
  | IndexOutOfRange int nat rstr
  | CannotConvertToInt rstr
  | CannotConvertToFloat rstr
  | NonFiniteExactFloat rstr
  | JsonNotSerializable rstr

record IncanError =
  err_kind :: ErrorKind
  err_args :: ErrorArgs

definition new_error :: "ErrorKind \<Rightarrow> ErrorArgs \<Rightarrow> IncanError" where
  "new_error k a = \<lparr>err_kind = k, err_args = a\<rparr>"

definition string_index_out_of_range :: IncanError where
  "string_index_out_of_range = new_error IndexError (Static (lit ''string index out of range''))"

definition list_pop_empty :: IncanError where
  "list_pop_empty = new_error IndexError (Static (lit ''pop from empty list''))"

definition slice_step_zero :: IncanError where
  "slice_step_zero = new_error ValueError (Static (lit ''slice step cannot be zero''))"

definition zero_division :: "ZeroDivisionOperation \<Rightarrow> IncanError" where
  "zero_division op = new_error ZeroDivisionError (Static (zero_division_message op))"

definition range_step_zero :: IncanError where
  "range_step_zero = new_error ValueError (Static (lit ''range() arg 3 must not be zero''))"

definition list_value_not_found :: IncanError where
  "list_value_not_found = new_error ValueError (Static (lit ''value not found in list''))"

definition index_out_of_range_for :: "rstr \<Rightarrow> int \<Rightarrow> nat \<Rightarrow> IncanError" where
  "index_out_of_range_for container index len = new_error IndexError (IndexOutOfRange index len container)"

definition cannot_convert_to_int :: "rstr \<Rightarrow> IncanError" where
  "cannot_convert_to_int inp = new_error ValueError (CannotConvertToInt inp)"

definition with_message :: "ErrorKind \<Rightarrow> rstr \<Rightarrow> IncanError" where
  "with_message k m = new_error k (Message m)"

text \<open>\<open>lang::errors::as_str\<close> and the \<open>Display\<close> implementation.\<close>

fun error_kind_str :: "ErrorKind \<Rightarrow> rstr" where
  "error_kind_str AssertionError = lit ''AssertionError''"
| "error_kind_str ValueError = lit ''ValueError''"
| "error_kind_str TypeError = lit ''TypeError''"
| "error_kind_str ZeroDivisionError = lit ''ZeroDivisionError''"
| "error_kind_str IndexError = lit ''IndexError''"
| "error_kind_str KeyError = lit ''KeyError''"
| "error_kind_str JsonDecodeError = lit ''JSONDecodeError''"

fun error_args_body :: "ErrorArgs \<Rightarrow> rstr" where
  "error_args_body (Static m) = m"
| "error_args_body (Message m) = m"
| "error_args_body (IndexOutOfRange index len container) =
     lit ''index '' @ show_int index @ lit '' out of range for '' @ container
     @ lit '' of length '' @ show_nat len"
| "error_args_body (CannotConvertToInt inp) = lit ''cannot convert '' @ [39] @ inp @ [39] @ lit '' to int''"
| "error_args_body (CannotConvertToFloat inp) = lit ''cannot convert '' @ [39] @ inp @ [39] @ lit '' to float''"
| "error_args_body (NonFiniteExactFloat target) =
     lit ''non-finite float cannot initialize exact '' @ target"
| "error_args_body (JsonNotSerializable type_name) =
     lit ''Object of type '' @ type_name @ lit '' is not JSON serializable''"

definition display_error :: "IncanError \<Rightarrow> rstr" where
  "display_error e = error_kind_str (err_kind e) @ lit '': '' @ error_args_body (err_args e)"

definition display_key_not_found :: "rstr \<Rightarrow> rstr" where
  "display_key_not_found key = error_kind_str KeyError @ lit '': '' @ [39] @ key @ [39] @ lit '' not found in dict''"

datatype StringAccessError = StringIndexOutOfRange | SliceStepZero

fun from_string_access_error :: "StringAccessError \<Rightarrow> IncanError" where
  "from_string_access_error StringIndexOutOfRange = string_index_out_of_range"
| "from_string_access_error SliceStepZero = slice_step_zero"

datatype panic = Raise IncanError | RaiseKey rstr | RustPanic rstr

type_synonym 'a outcome = "panic + 'a"

definition raise_value_error :: "rstr \<Rightarrow> 'a outcome" where
  "raise_value_error m = Inl (Raise (with_message ValueError m))"

definition raise_zero_division :: "ZeroDivisionOperation \<Rightarrow> 'a outcome" where
  "raise_zero_division op = Inl (Raise (zero_division op))"

definition raise_error :: "IncanError \<Rightarrow> 'a outcome" where
  "raise_error e = Inl (Raise e)"

definition panic_text :: "panic \<Rightarrow> rstr" where
  "panic_text p = (case p of Raise e \<Rightarrow> display_error e | RaiseKey k \<Rightarrow> display_key_not_found k
                           | RustPanic m \<Rightarrow> m)"

lemmas raise_defs = raise_value_error_def raise_zero_division_def raise_error_def

lemmas error_value_defs = new_error_def string_index_out_of_range_def list_pop_empty_def
  slice_step_zero_def zero_division_def range_step_zero_def list_value_not_found_def
  index_out_of_range_for_def cannot_convert_to_int_def with_message_def

text \<open>The rendered prefix determines the kind: no two kinds share a spelling.\<close>

lemma error_kind_str_inj: "error_kind_str k = error_kind_str k' \<longleftrightarrow> k = k'"
  by (cases k; cases k'; simp)

lemma error_kind_str_no_colon: "58 \<notin> set (error_kind_str k)"
  by (cases k) simp_all

lemma prefix_before_colon:
  "58 \<notin> set a \<Longrightarrow> 58 \<notin> set b \<Longrightarrow> a @ 58 # x = b @ 58 # y \<Longrightarrow> a = b \<and> x = y"
proof (induction a arbitrary: b)
  case Nil
  then show ?case by (cases b) auto
next
  case (Cons c a)
  then show ?case by (cases b) auto
qed

lemma display_error_kind_unique:
  "display_error e = display_error e' \<Longrightarrow> err_kind e = err_kind e'"
proof -
  assume "display_error e = display_error e'"
  then have "error_kind_str (err_kind e) @ 58 # (32 # error_args_body (err_args e))
      = error_kind_str (err_kind e') @ 58 # (32 # error_args_body (err_args e'))"
    by (simp add: display_error_def)
  then have "error_kind_str (err_kind e) = error_kind_str (err_kind e')"
    using prefix_before_colon error_kind_str_no_colon by blast
  then show ?thesis by (simp add: error_kind_str_inj)
qed

end
