(* ===== verification/Integer_Arithmetic.thy ===== *)
theory Integer_Arithmetic
  imports Incan_Errors
begin

unbundle bit_operations_syntax

text \<open>
  Integer semantics of generated code: the numeric policy of \<open>kernel/incan_lang/src/lib.rs\<close> and
  the integer helpers of \<open>stdlib/core/rust/src/num.rs\<close> (floor division and modulo at every width,
  binary gcd, lcm, checked and saturating resizes).  Values are \<open>int\<close> or \<open>nat\<close> together with
  the width they are carried at; Rust's truncating \<open>/\<close> and \<open>%\<close> are \<open>rust_div\<close> and \<open>rust_rem\<close>.
\<close>

section \<open>Numeric policy\<close>

datatype NumericTy = IntTy | FloatTy

datatype NumericOp = AddOp | SubOp | MulOp | DivOp | FloorDivOp | ModOp | PowOp
  | EqOp | NotEqOp | LtOp | LtEqOp | GtOp | GtEqOp

datatype PowExponentKind = NonNegativeIntLiteral | NegativeIntLiteral | VariableExponent | FloatExponent

definition from_literal_info :: "bool \<Rightarrow> int option \<Rightarrow> PowExponentKind" where
  "from_literal_info rhs_is_float rhs_int_literal =
     (if rhs_is_float then FloatExponent
      else case rhs_int_literal of
             Some v \<Rightarrow> if 0 \<le> v then NonNegativeIntLiteral else NegativeIntLiteral
           | None \<Rightarrow> VariableExponent)"

fun result_numeric_type :: "NumericOp \<Rightarrow> NumericTy \<Rightarrow> NumericTy \<Rightarrow> PowExponentKind option \<Rightarrow> NumericTy" where
  "result_numeric_type DivOp lhs rhs k = FloatTy"
| "result_numeric_type PowOp lhs rhs k =
     (if lhs = IntTy \<and> rhs = IntTy
      then (case k of Some NonNegativeIntLiteral \<Rightarrow> IntTy | _ \<Rightarrow> FloatTy)
      else FloatTy)"
| "result_numeric_type op lhs rhs k = (if lhs = FloatTy \<or> rhs = FloatTy then FloatTy else IntTy)"

definition needs_float_promotion ::
  "NumericOp \<Rightarrow> NumericTy \<Rightarrow> NumericTy \<Rightarrow> PowExponentKind option \<Rightarrow> bool \<times> bool" where
  "needs_float_promotion op lhs rhs k =
     (if result_numeric_type op lhs rhs k = FloatTy then (lhs = IntTy, rhs = IntTy) else (False, False))"

definition promote :: "bool \<Rightarrow> NumericTy \<Rightarrow> NumericTy" where
  "promote flag t = (if flag then FloatTy else t)"

lemma result_int_operands: "result_numeric_type op l r k = IntTy \<Longrightarrow> l = IntTy \<and> r = IntTy"
  by (cases l; cases r; cases op) (auto split: option.splits PowExponentKind.splits)

section \<open>Floor division and modulo\<close>

definition i64_min :: int where "i64_min = -9223372036854775808"
definition i64_max :: int where "i64_max = 9223372036854775807"

text \<open>
  \<open>python_floor_div_i64\<close>: Rust's \<open>/\<close> panics on a zero divisor and on \<open>i64::MIN / -1\<close>, which the
  callers exclude.
\<close>

definition python_floor_div_i64 :: "int \<Rightarrow> int \<Rightarrow> int outcome" where
  "python_floor_div_i64 dividend divisor =
     (if divisor = 0 \<or> (dividend = i64_min \<and> divisor = -1)
      then Inl (RustPanic (lit ''attempt to divide with overflow or by zero''))
      else let quotient = rust_div dividend divisor;
               remainder = rust_rem dividend divisor
           in Inr (if remainder = 0 then quotient
                   else if 0 < divisor then (if remainder < 0 then quotient - 1 else quotient)
                   else if 0 < remainder then quotient - 1
                   else quotient))"

definition python_mod_i64 :: "int \<Rightarrow> int \<Rightarrow> int outcome" where
  "python_mod_i64 dividend divisor =
     (if dividend = i64_min \<and> divisor = -1 then Inr 0
      else if divisor = 0
      then Inl (RustPanic (lit ''attempt to calculate the remainder with a divisor of zero''))
      else let remainder = rust_rem dividend divisor
           in Inr (if (0 < remainder \<and> divisor < 0) \<or> (remainder < 0 \<and> 0 < divisor)
                   then remainder + divisor else remainder))"

definition checked_python_floor_div_i64 :: "int \<Rightarrow> int \<Rightarrow> int outcome" where
  "checked_python_floor_div_i64 dividend divisor =
     (if divisor = 0 then raise_zero_division IntegerFloorDivisionOrModulo
      else if dividend = i64_min \<and> divisor = -1
      then raise_value_error (lit ''integer floor division result overflows Incan int'')
      else python_floor_div_i64 dividend divisor)"

definition py_floor_div_i64 :: "int \<Rightarrow> int \<Rightarrow> int outcome" where
  "py_floor_div_i64 a b = checked_python_floor_div_i64 a b"

definition py_mod_i64 :: "int \<Rightarrow> int \<Rightarrow> int outcome" where
  "py_mod_i64 a b =
     (if b = 0 then raise_zero_division IntegerFloorDivisionOrModulo else python_mod_i64 a b)"

definition py_floor_div_unsigned :: "nat \<Rightarrow> nat \<Rightarrow> nat outcome" where
  "py_floor_div_unsigned lhs rhs =
     (if rhs = 0 then raise_zero_division IntegerFloorDivisionOrModulo else Inr (lhs div rhs))"

definition py_mod_unsigned :: "nat \<Rightarrow> nat \<Rightarrow> nat outcome" where
  "py_mod_unsigned lhs rhs =
     (if rhs = 0 then raise_zero_division IntegerFloorDivisionOrModulo else Inr (lhs mod rhs))"

text \<open>
  The constants a signed carrier supplies (\<open>trait IncanSignedInteger\<close>): its minimum and the name
  used in the overflow message, here per width.
\<close>

definition signed_min :: "nat \<Rightarrow> int" where
  "signed_min w = - (2 ^ (w - 1))"

definition py_floor_div_signed :: "nat \<Rightarrow> rstr \<Rightarrow> int \<Rightarrow> int \<Rightarrow> int outcome" where
  "py_floor_div_signed w name lhs rhs =
     (if rhs = 0 then raise_zero_division IntegerFloorDivisionOrModulo
      else if lhs = signed_min w \<and> rhs = -1
      then raise_value_error (lit ''integer floor division result overflows '' @ name)
      else let quotient = rust_div lhs rhs; remainder = rust_rem lhs rhs
           in Inr (if remainder \<noteq> 0 \<and> (remainder < 0) \<noteq> (rhs < 0) then quotient - 1 else quotient))"

definition py_mod_signed :: "int \<Rightarrow> int \<Rightarrow> int outcome" where
  "py_mod_signed lhs rhs =
     (if rhs = 0 then raise_zero_division IntegerFloorDivisionOrModulo
      else if rhs = -1 then Inr 0
      else let remainder = rust_rem lhs rhs
           in Inr (if remainder \<noteq> 0 \<and> (remainder < 0) \<noteq> (rhs < 0) then remainder + rhs else remainder))"

text \<open>
  Truncated and floored division: they agree when the remainder is zero or has the divisor's sign,
  and otherwise the floored quotient is one less and the floored remainder one divisor more.
\<close>

lemma rust_rem_bound: "b \<noteq> 0 \<Longrightarrow> \<bar>rust_rem a b\<bar> < \<bar>b\<bar>"
  by (simp add: rust_rem_sgn abs_mult sgn_if)

lemma floor_div_mod_unique:
  fixes q r b :: int
  assumes "a = q * b + r" and "b \<noteq> 0" and "r = 0 \<or> sgn r = sgn b" and "\<bar>r\<bar> < \<bar>b\<bar>"
  shows "a div b = q \<and> a mod b = r"
proof -
  have "(0 < b \<and> 0 \<le> r \<and> r < b) \<or> (b < 0 \<and> r \<le> 0 \<and> b < r)"
    using assms(2-4) by (auto simp: sgn_if split: if_splits)
  then have "r div b = 0 \<and> r mod b = r"
    by (auto simp: div_pos_pos_trivial div_neg_neg_trivial mod_pos_pos_trivial mod_neg_neg_trivial)
  then show ?thesis using assms(1,2) by simp
qed

lemma floored_from_truncated:
  fixes a b :: int
  assumes b: "b \<noteq> 0"
  defines "q \<equiv> rust_div a b" and "r \<equiv> rust_rem a b"
  shows "a div b = (if r \<noteq> 0 \<and> (r < 0) \<noteq> (b < 0) then q - 1 else q)"
    and "a mod b = (if r \<noteq> 0 \<and> (r < 0) \<noteq> (b < 0) then r + b else r)"
proof -
  have eq: "a = q * b + r" using rust_div_rem [of a b] by (simp add: q_def r_def)
  have lt: "\<bar>r\<bar> < \<bar>b\<bar>" using rust_rem_bound [OF b] by (simp add: r_def)
  have "a div b = (if r \<noteq> 0 \<and> (r < 0) \<noteq> (b < 0) then q - 1 else q)
      \<and> a mod b = (if r \<noteq> 0 \<and> (r < 0) \<noteq> (b < 0) then r + b else r)"
  proof (cases "r \<noteq> 0 \<and> (r < 0) \<noteq> (b < 0)")
    case True
    have "a div b = q - 1 \<and> a mod b = r + b"
      by (rule floor_div_mod_unique)
        (use eq lt b True in \<open>auto simp: algebra_simps sgn_if split: if_splits\<close>)
    with True show ?thesis by simp
  next
    case False
    have "a div b = q \<and> a mod b = r"
      by (rule floor_div_mod_unique) (use eq lt b False in \<open>auto simp: sgn_if split: if_splits\<close>)
    with False show ?thesis by auto
  qed
  then show "a div b = (if r \<noteq> 0 \<and> (r < 0) \<noteq> (b < 0) then q - 1 else q)"
    and "a mod b = (if r \<noteq> 0 \<and> (r < 0) \<noteq> (b < 0) then r + b else r)"
    by blast+
qed

lemma div_pos_range:
  fixes a c m :: int
  assumes "0 < c" and "0 \<le> m" and "- m \<le> a"
  shows "- m \<le> a div c"
proof -
  have "- m * c \<le> a"
    using mult_left_mono [of 1 c m] assms by simp
  then have "(- m * c) div c \<le> a div c"
    using assms(1) by (rule zdiv_mono1)
  moreover have "(- m * c) div c = - m"
    using assms(1) by (subst nonzero_mult_div_cancel_right) auto
  ultimately show ?thesis by simp
qed

lemma floor_div_in_signed:
  fixes a b :: int
  assumes w: "0 < w" and a: "in_signed w a" and b: "b \<noteq> 0" and ok: "\<not> (a = signed_min w \<and> b = -1)"
  shows "in_signed w (a div b)"
proof -
  let ?m = "(2::int) ^ (w - 1)"
  have m: "0 < ?m" by simp
  have lo: "- ?m \<le> a" and hi: "a < ?m" using a by (auto simp: in_signed_def)
  consider "0 < b" | "b = -1" | "b \<le> -2" using b by linarith
  then show ?thesis
  proof cases
    case 1
    have "- ?m \<le> a div b" using 1 m lo by (intro div_pos_range) auto
    moreover have "a div b < ?m"
    proof (cases "0 \<le> a")
      case True
      with 1 have "a div b \<le> a div 1" by (intro zdiv_mono2) auto
      with hi show ?thesis by simp
    next
      case False
      with 1 have "a div b < 0" by (intro div_neg_pos_less0) auto
      with m show ?thesis by linarith
    qed
    ultimately show ?thesis by (simp add: in_signed_def)
  next
    case 2
    with ok lo have "- ?m < a" by (auto simp: signed_min_def)
    with 2 hi show ?thesis by (auto simp: in_signed_def)
  next
    case 3
    then have c: "2 \<le> - b" by simp
    have eq: "a div b = (- a) div (- b)" by simp
    have "- ?m \<le> (- a) div (- b)" using c hi m by (intro div_pos_range) auto
    moreover have "(- a) div (- b) \<le> ?m div (- b)" using c lo by (intro zdiv_mono1) auto
    moreover have "?m div (- b) < ?m" using c m by (intro int_div_less_self) auto
    ultimately show ?thesis unfolding in_signed_def eq by linarith
  qed
qed

lemma signed_min_div_overflows: "0 < w \<Longrightarrow> \<not> in_signed w (signed_min w div -1)"
  by (simp add: in_signed_def signed_min_def)

lemma mod_bounds:
  fixes a b :: int
  assumes "b \<noteq> 0"
  obtains "0 < b" "0 \<le> a mod b" "a mod b < b" | "b < 0" "b < a mod b" "a mod b \<le> 0"
  using assms pos_mod_sign [of b a] pos_mod_bound [of b a] neg_mod_sign [of b a] neg_mod_bound [of b a]
  by (meson linorder_neqE_linordered_idom)

lemma rust_rem_minus_one [simp]: "rust_rem a (-1) = 0"
  by (simp add: rust_rem_sgn)

section \<open>The contract of Python division\<close>

text \<open>
  What generated code relies on: on a carrier of representable values, floor division and modulo
  fail exactly on a zero divisor and on an unrepresentable quotient, and otherwise return the
  floored quotient and the remainder that goes with it.
\<close>

locale python_division =
  fixes carrier :: "int \<Rightarrow> bool"
    and fdiv :: "int \<Rightarrow> int \<Rightarrow> int outcome"
    and fmod :: "int \<Rightarrow> int \<Rightarrow> int outcome"
  assumes fdiv_zero: "fdiv a 0 = raise_zero_division IntegerFloorDivisionOrModulo"
    and fmod_zero: "fmod a 0 = raise_zero_division IntegerFloorDivisionOrModulo"
    and fdiv_ok: "carrier a \<Longrightarrow> carrier b \<Longrightarrow> b \<noteq> 0 \<Longrightarrow> carrier (a div b) \<Longrightarrow> fdiv a b = Inr (a div b)"
    and fdiv_overflow: "carrier a \<Longrightarrow> carrier b \<Longrightarrow> b \<noteq> 0 \<Longrightarrow> \<not> carrier (a div b) \<Longrightarrow>
      \<exists>m. fdiv a b = Inl (Raise (with_message ValueError m))"
    and fmod_ok: "carrier a \<Longrightarrow> carrier b \<Longrightarrow> b \<noteq> 0 \<Longrightarrow> fmod a b = Inr (a mod b)"
    and mod_closed: "carrier a \<Longrightarrow> carrier b \<Longrightarrow> b \<noteq> 0 \<Longrightarrow> carrier (a mod b)"
begin

lemma fdiv_InrD:
  assumes "carrier a" "carrier b" "fdiv a b = Inr q"
  shows "b \<noteq> 0 \<and> q = a div b \<and> carrier q"
proof -
  have b: "b \<noteq> 0" using assms(3) fdiv_zero [of a] by (auto simp: raise_defs)
  moreover have c: "carrier (a div b)"
    using assms fdiv_overflow [of a b] b by fastforce
  ultimately show ?thesis using fdiv_ok [of a b] assms by simp
qed

lemma quotient_remainder:
  assumes "carrier a" "carrier b" "fdiv a b = Inr q" "fmod a b = Inr r"
  shows "a = q * b + r" and "r = 0 \<or> sgn r = sgn b" and "\<bar>r\<bar> < \<bar>b\<bar>" and "carrier q \<and> carrier r"
proof -
  from fdiv_InrD [OF assms(1-3)] have b: "b \<noteq> 0" and q: "q = a div b" "carrier q" by auto
  with fmod_ok assms have r: "r = a mod b" by simp
  show "a = q * b + r" by (simp add: q r)
  show "r = 0 \<or> sgn r = sgn b" "\<bar>r\<bar> < \<bar>b\<bar>"
    by (rule mod_bounds [OF b, of a]; simp add: r sgn_if abs_if)+
  have "carrier (a mod b)" using mod_closed assms(1,2) b .
  then show "carrier q \<and> carrier r" using q(2) by (simp add: r)
qed

end

lemma mod_in_signed:
  fixes a b :: int
  assumes "in_signed w b" and "b \<noteq> 0"
  shows "in_signed w (a mod b)"
proof -
  have "0 < (2::int) ^ (w - 1)" by simp
  then show ?thesis
    using assms(1) unfolding in_signed_def by (rule_tac mod_bounds [OF assms(2), of a]) linarith+
qed

lemma signed_quotient_overflow_iff:
  fixes a b :: int
  assumes "0 < w" and "in_signed w a" and "b \<noteq> 0"
  shows "in_signed w (a div b) \<longleftrightarrow> \<not> (a = signed_min w \<and> b = -1)"
  using assms floor_div_in_signed signed_min_div_overflows by blast

lemma py_floor_div_signed_value:
  "b \<noteq> 0 \<Longrightarrow> \<not> (a = signed_min w \<and> b = -1) \<Longrightarrow> py_floor_div_signed w name a b = Inr (a div b)"
  by (auto simp: py_floor_div_signed_def Let_def floored_from_truncated(1))

lemma py_mod_signed_value: "b \<noteq> 0 \<Longrightarrow> py_mod_signed a b = Inr (a mod b)"
  by (auto simp: py_mod_signed_def Let_def floored_from_truncated(2))

lemma python_division_signed:
  assumes "0 < w"
  shows "python_division (in_signed w) (py_floor_div_signed w name) py_mod_signed"
proof (unfold_locales, goal_cases)
  case (3 a b)
  then show ?case using assms by (simp add: py_floor_div_signed_value signed_quotient_overflow_iff)
next
  case (4 a b)
  then have "a = signed_min w \<and> b = -1" using signed_quotient_overflow_iff assms by blast
  then show ?case by (auto simp: py_floor_div_signed_def raise_defs)
next
  case (5 a b)
  then show ?case by (simp add: py_mod_signed_value)
qed (simp_all add: py_floor_div_signed_def py_mod_signed_def mod_in_signed)

lemma i64_min_signed: "i64_min = signed_min 64"
  by (simp add: i64_min_def signed_min_def)

lemma py_floor_div_i64_value:
  "b \<noteq> 0 \<Longrightarrow> \<not> (a = i64_min \<and> b = -1) \<Longrightarrow> py_floor_div_i64 a b = Inr (a div b)"
  unfolding py_floor_div_i64_def checked_python_floor_div_i64_def python_floor_div_i64_def Let_def
  by (auto simp: floored_from_truncated(1))

lemma py_mod_i64_value: "b \<noteq> 0 \<Longrightarrow> py_mod_i64 a b = Inr (a mod b)"
  unfolding py_mod_i64_def python_mod_i64_def Let_def
  by (auto simp: floored_from_truncated(2))

interpretation i64_div: python_division in_i64 py_floor_div_i64 py_mod_i64
proof (unfold_locales, goal_cases)
  case (3 a b)
  then show ?case
    using signed_quotient_overflow_iff [of 64 a b] by (simp add: py_floor_div_i64_value i64_min_signed)
next
  case (4 a b)
  then have "a = i64_min \<and> b = -1"
    using signed_quotient_overflow_iff [of 64 a b] by (simp add: i64_min_signed)
  then show ?case
    by (auto simp: py_floor_div_i64_def checked_python_floor_div_i64_def raise_defs)
next
  case (5 a b)
  then show ?case by (simp add: py_mod_i64_value)
qed (simp_all add: py_floor_div_i64_def checked_python_floor_div_i64_def py_mod_i64_def mod_in_signed)

interpretation i8_div: python_division "in_signed 8" "py_floor_div_signed 8 (lit ''i8'')" py_mod_signed
  by (rule python_division_signed) simp

interpretation i16_div: python_division "in_signed 16" "py_floor_div_signed 16 (lit ''i16'')" py_mod_signed
  by (rule python_division_signed) simp

interpretation i32_div: python_division "in_signed 32" "py_floor_div_signed 32 (lit ''i32'')" py_mod_signed
  by (rule python_division_signed) simp

interpretation i128_div: python_division in_i128 "py_floor_div_signed 128 (lit ''i128'')" py_mod_signed
  by (rule python_division_signed) simp

section \<open>Greatest common divisor and lowest common multiple\<close>

text \<open>\<open>u64::trailing_zeros\<close>; it is 64 on zero.\<close>

fun trailing_zeros :: "nat \<Rightarrow> nat" where
  "trailing_zeros n = (if n = 0 then 64 else if odd n then 0 else Suc (trailing_zeros (n div 2)))"

declare trailing_zeros.simps [simp del]

definition shr_tz :: "nat \<Rightarrow> nat" where
  "shr_tz n = n div 2 ^ trailing_zeros n"

text \<open>
  The subtraction loop of \<open>gcd_u64_impl\<close>.  It is a partial function: the loop would not end on a
  zero operand, so that it returns is part of what is proved.
\<close>

partial_function (option) gcd_loop :: "nat \<Rightarrow> nat \<Rightarrow> nat option" where
  "gcd_loop m n =
     (if m = n then Some m
      else if n < m then gcd_loop (shr_tz (m - n)) n
      else gcd_loop m (shr_tz (n - m)))"

definition gcd_u64_impl :: "nat \<Rightarrow> nat \<Rightarrow> nat option" where
  "gcd_u64_impl m n =
     (if m = 0 \<or> n = 0 then Some (m OR n)
      else let shift = trailing_zeros (m OR n)
           in map_option (\<lambda>g. (g * 2 ^ shift) mod 2 ^ 64) (gcd_loop (shr_tz m) (shr_tz n)))"

definition non_negative_i64_or_overflow :: "nat \<Rightarrow> rstr \<Rightarrow> int outcome" where
  "non_negative_i64_or_overflow v fn_name =
     (if in_i64 (int v) then Inr (int v)
      else raise_value_error (fn_name @ lit '' result overflows Incan int''))"

text \<open>\<open>i64::unsigned_abs\<close>.\<close>

definition unsigned_abs :: "int \<Rightarrow> nat" where
  "unsigned_abs a = nat \<bar>a\<bar>"

text \<open>\<open>None\<close> stands for a loop that does not return.\<close>

definition gcd_i64 :: "int \<Rightarrow> int \<Rightarrow> int outcome option" where
  "gcd_i64 a b =
     map_option (\<lambda>g. non_negative_i64_or_overflow g (lit ''math.gcd''))
       (gcd_u64_impl (unsigned_abs a) (unsigned_abs b))"

definition lcm_i64 :: "int \<Rightarrow> int \<Rightarrow> int outcome option" where
  "lcm_i64 a b =
     (if a = 0 \<or> b = 0 then Some (Inr 0)
      else map_option (\<lambda>g.
             let p = unsigned_abs a div g * unsigned_abs b
             in if in_unsigned 64 p then non_negative_i64_or_overflow p (lit ''math.lcm'')
                else raise_value_error (lit ''math.lcm result overflows Incan int''))
           (gcd_u64_impl (unsigned_abs a) (unsigned_abs b)))"

lemma shr_tz_decomp: "0 < n \<Longrightarrow> n = 2 ^ trailing_zeros n * shr_tz n \<and> odd (shr_tz n)"
proof (induction n rule: trailing_zeros.induct)
  case (1 n)
  show ?case
  proof (cases "odd n")
    case True
    with "1.prems" show ?thesis by (simp add: shr_tz_def trailing_zeros.simps [of n])
  next
    case False
    let ?h = "n div 2"
    have n: "n = 2 * ?h" and pos: "0 < ?h" using False "1.prems" by auto
    have ih: "?h = 2 ^ trailing_zeros ?h * shr_tz ?h \<and> odd (shr_tz ?h)"
      using "1.IH" False "1.prems" pos by simp
    have tz: "trailing_zeros n = Suc (trailing_zeros ?h)"
      using False "1.prems" by (simp add: trailing_zeros.simps [of n])
    have "shr_tz n = shr_tz ?h" by (simp add: shr_tz_def tz div_mult2_eq)
    with ih n tz show ?thesis by (metis mult.assoc power_Suc)
  qed
qed

lemma shr_tz_pos: "0 < n \<Longrightarrow> 0 < shr_tz n"
  using shr_tz_decomp [of n] odd_pos by blast

lemma shr_tz_le: "shr_tz n \<le> n"
  by (simp add: shr_tz_def)

lemma gcd_shr_tz_odd: "0 < d \<Longrightarrow> odd n \<Longrightarrow> gcd (shr_tz d) n = gcd d n"
proof -
  assume d: "0 < d" and n: "odd n"
  have "coprime (2 ^ trailing_zeros d) n" using n by simp
  then have "gcd (2 ^ trailing_zeros d * shr_tz d) n = gcd (shr_tz d) n"
    by (simp add: gcd_mult_left_left_cancel coprime_commute)
  then show ?thesis using shr_tz_decomp [OF d] by simp
qed

lemma gcd_loop_returns: "odd m \<Longrightarrow> odd n \<Longrightarrow> gcd_loop m n = Some (gcd m n)"
proof (induction "m + n" arbitrary: m n rule: less_induct)
  case less
  consider "m = n" | "n < m" | "m < n" by linarith
  then show ?case
  proof cases
    case 1
    then show ?thesis by (simp add: gcd_loop.simps)
  next
    case 2
    let ?d = "shr_tz (m - n)"
    have d: "odd ?d" "?d \<le> m - n" using 2 shr_tz_decomp [of "m - n"] shr_tz_le by auto
    have "0 < n" using less.prems(2) by (rule odd_pos)
    then have "gcd_loop ?d n = Some (gcd ?d n)" using d less.prems 2 by (intro less.hyps) auto
    moreover have "gcd ?d n = gcd m n"
      using gcd_shr_tz_odd [of "m - n" n] 2 less.prems gcd_diff1_nat [of n m] by simp
    ultimately show ?thesis using 2 by (simp add: gcd_loop.simps [of m n])
  next
    case 3
    let ?d = "shr_tz (n - m)"
    have d: "odd ?d" "?d \<le> n - m" using 3 shr_tz_decomp [of "n - m"] shr_tz_le by auto
    have "0 < m" using less.prems(1) by (rule odd_pos)
    then have "gcd_loop m ?d = Some (gcd m ?d)" using d less.prems 3 by (intro less.hyps) auto
    moreover have "gcd m ?d = gcd m n"
      using gcd_shr_tz_odd [of "n - m" m] 3 less.prems gcd_diff1_nat [of m n]
      by (simp add: gcd.commute)
    ultimately show ?thesis using 3 by (simp add: gcd_loop.simps [of m n])
  qed
qed

lemma trailing_zeros_or:
  "0 < m \<Longrightarrow> 0 < n \<Longrightarrow> trailing_zeros (m OR n) = min (trailing_zeros m) (trailing_zeros n)"
proof (induction m arbitrary: n rule: trailing_zeros.induct)
  case (1 m)
  have parity: "even (m OR n) \<longleftrightarrow> even m \<and> even n" by (simp add: even_or_iff)
  have nz: "m OR n \<noteq> 0" using "1.prems" by (simp add: or_eq_0_iff)
  show ?case
  proof (cases "odd m \<or> odd n")
    case True
    then show ?thesis using parity nz "1.prems"
      by (auto simp: trailing_zeros.simps [of "m OR n"] trailing_zeros.simps [of m] trailing_zeros.simps [of n])
  next
    case False
    then have half: "0 < m div 2" "0 < n div 2" using "1.prems" by (auto elim!: evenE)
    have "trailing_zeros (m OR n) = Suc (trailing_zeros ((m OR n) div 2))"
      using False parity nz by (simp add: trailing_zeros.simps [of "m OR n"])
    also have "(m OR n) div 2 = (m div 2) OR (n div 2)"
      using drop_bit_or [of 1 m n] by (simp only: drop_bit_eq_div power_one_right)
    also have "trailing_zeros \<dots> = min (trailing_zeros (m div 2)) (trailing_zeros (n div 2))"
      using "1.IH" False "1.prems"(1) half by simp
    finally show ?thesis using False "1.prems"
      by (simp add: trailing_zeros.simps [of m] trailing_zeros.simps [of n])
  qed
qed

lemma gcd_powers_of_two:
  fixes u v :: nat
  assumes "odd u" "odd v"
  shows "gcd (2 ^ i * u) (2 ^ j * v) = 2 ^ min i j * gcd u v"
proof -
  have aux: "gcd (2 ^ i * u) (2 ^ j * v) = 2 ^ i * gcd u v" if "i \<le> j" "odd u" for i j and u v :: nat
  proof -
    have "2 ^ j = (2::nat) ^ i * 2 ^ (j - i)" using that(1) by (simp flip: power_add)
    then have "gcd (2 ^ i * u) (2 ^ j * v) = gcd (2 ^ i * u) (2 ^ i * (2 ^ (j - i) * v))"
      by (simp add: mult.assoc)
    also have "\<dots> = 2 ^ i * gcd u (2 ^ (j - i) * v)" by (rule gcd_mult_distrib_nat [symmetric])
    also have "gcd u (2 ^ (j - i) * v) = gcd u v"
      using that(2) by (intro gcd_mult_right_left_cancel) simp
    finally show ?thesis .
  qed
  show ?thesis
  proof (cases "i \<le> j")
    case True
    with aux assms show ?thesis by (simp add: min_absorb1)
  next
    case False
    with aux [of j i v u] assms show ?thesis by (simp add: min_absorb2 gcd.commute)
  qed
qed

lemma gcd_u64_impl_correct:
  assumes "m < 2 ^ 64" "n < 2 ^ 64"
  shows "gcd_u64_impl m n = Some (gcd m n)"
proof (cases "m = 0 \<or> n = 0")
  case True
  then show ?thesis by (auto simp: gcd_u64_impl_def)
next
  case False
  let ?g = "gcd (shr_tz m) (shr_tz n)" and ?s = "trailing_zeros (m OR n)"
  have m: "m = 2 ^ trailing_zeros m * shr_tz m" "odd (shr_tz m)"
    and n: "n = 2 ^ trailing_zeros n * shr_tz n" "odd (shr_tz n)"
    using False shr_tz_decomp by auto
  have "gcd m n = gcd (2 ^ trailing_zeros m * shr_tz m) (2 ^ trailing_zeros n * shr_tz n)"
    using m(1) n(1) by simp
  also have "\<dots> = 2 ^ ?s * ?g"
    using False m(2) n(2) by (simp add: gcd_powers_of_two trailing_zeros_or)
  finally have g: "?g * 2 ^ ?s = gcd m n" by simp
  have "gcd m n < 2 ^ 64"
    using False assms(1) by (metis gcd_le1_nat le_less_trans)
  with g m(2) n(2) False show ?thesis
    by (simp add: gcd_u64_impl_def gcd_loop_returns Let_def)
qed

lemma unsigned_abs_bound: "in_i64 a \<Longrightarrow> unsigned_abs a < 2 ^ 64"
  by (auto simp: unsigned_abs_def in_signed_64 nat_less_iff)

lemma gcd_u64_impl_abs [simp]:
  "in_i64 a \<Longrightarrow> in_i64 b \<Longrightarrow>
    gcd_u64_impl (unsigned_abs a) (unsigned_abs b) = Some (gcd (unsigned_abs a) (unsigned_abs b))"
  by (intro gcd_u64_impl_correct unsigned_abs_bound)

lemma int_gcd_unsigned_abs: "int (gcd (unsigned_abs a) (unsigned_abs b)) = gcd a b"
  by (simp only: unsigned_abs_def gcd_int_def)

lemma int_lcm_unsigned_abs: "int (lcm (unsigned_abs a) (unsigned_abs b)) = lcm a b"
  by (simp only: unsigned_abs_def lcm_int_def)

section \<open>Integer resizes\<close>

text \<open>
  The four families of \<open>incan_saturating_resize\<close> implementations, by signedness of source and
  target; the target width is a parameter where the macros list the target types.  A final \<open>as\<close>
  cast keeps the low bits of the target width.
\<close>

definition max_signed :: "nat \<Rightarrow> int" where "max_signed w = 2 ^ (w - 1) - 1"
definition max_unsigned :: "nat \<Rightarrow> int" where "max_unsigned w = 2 ^ w - 1"

definition clamp :: "int \<Rightarrow> int \<Rightarrow> int \<Rightarrow> int" where
  "clamp lo hi x = (if x < lo then lo else if hi < x then hi else x)"

definition saturating_signed_to_signed :: "nat \<Rightarrow> int \<Rightarrow> int" where
  "saturating_signed_to_signed w x = wrap_signed w (clamp (signed_min w) (max_signed w) x)"

definition saturating_signed_to_unsigned :: "nat \<Rightarrow> int \<Rightarrow> int" where
  "saturating_signed_to_unsigned w x = (if x \<le> 0 then 0 else min x (max_unsigned w) mod 2 ^ w)"

definition saturating_unsigned_to_signed :: "nat \<Rightarrow> int \<Rightarrow> int" where
  "saturating_unsigned_to_signed w x = wrap_signed w (min x (max_signed w))"

definition saturating_unsigned_to_unsigned :: "nat \<Rightarrow> int \<Rightarrow> int" where
  "saturating_unsigned_to_unsigned w x = min x (max_unsigned w) mod 2 ^ w"

text \<open>\<open>try_resize\<close>: the target's \<open>TryFrom\<close>, which succeeds exactly on representable values.\<close>

definition fits :: "bool \<Rightarrow> nat \<Rightarrow> int \<Rightarrow> bool" where
  "fits sg w x = (if sg then in_signed w x else 0 \<le> x \<and> x < 2 ^ w)"

definition try_resize :: "bool \<Rightarrow> nat \<Rightarrow> int \<Rightarrow> int option" where
  "try_resize sg w x = (if fits sg w x then Some x else None)"

definition saturating_resize :: "bool \<Rightarrow> bool \<Rightarrow> nat \<Rightarrow> int \<Rightarrow> int" where
  "saturating_resize src_signed dst_signed w x =
     (if src_signed
      then if dst_signed then saturating_signed_to_signed w x else saturating_signed_to_unsigned w x
      else if dst_signed then saturating_unsigned_to_signed w x else saturating_unsigned_to_unsigned w x)"

definition type_min :: "bool \<Rightarrow> nat \<Rightarrow> int" where
  "type_min sg w = (if sg then signed_min w else 0)"

definition type_max :: "bool \<Rightarrow> nat \<Rightarrow> int" where
  "type_max sg w = (if sg then max_signed w else max_unsigned w)"

lemma fits_iff: "fits sg w x \<longleftrightarrow> type_min sg w \<le> x \<and> x \<le> type_max sg w"
  by (auto simp: fits_def type_min_def type_max_def in_signed_def signed_min_def max_signed_def max_unsigned_def)

lemma wrap_signed_clamped:
  "0 < w \<Longrightarrow> signed_min w \<le> x \<Longrightarrow> x \<le> max_signed w \<Longrightarrow> wrap_signed w x = x"
  by (intro wrap_signed_id) (auto simp: in_signed_def signed_min_def max_signed_def)

lemma min_le_max_signed: "signed_min w \<le> max_signed w" "signed_min w \<le> 0" "0 \<le> max_signed w"
  using zero_less_power [of "2::int" "w - 1"] by (auto simp: signed_min_def max_signed_def)

lemma max_unsigned_nonneg: "0 \<le> max_unsigned w"
  by (simp add: max_unsigned_def)

lemma saturating_resize_clamp:
  assumes "0 < w" and "src_signed \<or> 0 \<le> x"
  shows "saturating_resize src_signed dst_signed w x = clamp (type_min dst_signed w) (type_max dst_signed w) x"
proof -
  note mins = min_le_max_signed [of w] max_unsigned_nonneg [of w]
  have m: "z mod 2 ^ w = z" if "0 \<le> z" "z \<le> max_unsigned w" for z :: int
    using that by (simp add: max_unsigned_def)
  show ?thesis
  proof (cases dst_signed)
    case True
    have "wrap_signed w (clamp (signed_min w) (max_signed w) x) = clamp (signed_min w) (max_signed w) x"
      using assms(1) mins by (intro wrap_signed_clamped) (auto simp: clamp_def)
    moreover have "wrap_signed w (min x (max_signed w)) = clamp (signed_min w) (max_signed w) x" if "0 \<le> x"
      using that assms(1) mins
      by (subst wrap_signed_clamped) (auto simp: clamp_def min_def)
    ultimately show ?thesis
      using True assms(2)
      by (auto simp: saturating_resize_def saturating_signed_to_signed_def saturating_unsigned_to_signed_def
          type_min_def type_max_def)
  next
    case False
    have "min x (max_unsigned w) mod 2 ^ w = clamp 0 (max_unsigned w) x" if "0 \<le> x"
      using that mins by (subst m) (auto simp: clamp_def min_def)
    then show ?thesis
      using False assms(2) mins
      by (auto simp: saturating_resize_def saturating_signed_to_unsigned_def saturating_unsigned_to_unsigned_def
          type_min_def type_max_def clamp_def)
  qed
qed

section \<open>Properties\<close>

text \<open>C15: Floor division and modulo on \<open>int\<close> (the \<open>i64\<close> carrier) implement Python's \<open>//\<close> and \<open>%\<close> on
  every pair of representable operands: a zero divisor raises the integer \<open>ZeroDivisionError\<close>, an
  unrepresentable quotient raises the \<open>ValueError\<close> of the overflow guard (never a Rust panic), and every
  other pair returns the quotient rounded toward negative infinity and the matching remainder.\<close>

theorem py_division_i64_spec:
  assumes "in_i64 a" and "in_i64 b"
  shows "py_floor_div_i64 a b =
      (if b = 0 then Inl (Raise (zero_division IntegerFloorDivisionOrModulo))
       else if in_i64 (a div b) then Inr (a div b)
       else Inl (Raise (with_message ValueError (lit ''integer floor division result overflows Incan int''))))
    \<and> py_mod_i64 a b =
      (if b = 0 then Inl (Raise (zero_division IntegerFloorDivisionOrModulo)) else Inr (a mod b))"
proof (cases "b = 0")
  case True
  then show ?thesis
    using i64_div.fdiv_zero [of a] i64_div.fmod_zero [of a] by (simp add: raise_defs)
next
  case False
  have "py_floor_div_i64 a b =
      Inl (Raise (with_message ValueError (lit ''integer floor division result overflows Incan int'')))"
    if "\<not> in_i64 (a div b)"
  proof -
    have "a = i64_min \<and> b = -1"
      using that signed_quotient_overflow_iff [of 64 a b] assms False by (simp add: i64_min_signed)
    then show ?thesis
      by (simp add: py_floor_div_i64_def checked_python_floor_div_i64_def raise_defs)
  qed
  then show ?thesis
    using False i64_div.fdiv_ok [OF assms False] i64_div.fmod_ok [OF assms False] by auto
qed

theorem py_division_i64_spec_witness:
  "in_i64 (-7) \<and> in_i64 2 \<and> py_floor_div_i64 (-7) 2 = Inr (-4) \<and> py_mod_i64 (-7) 2 = Inr 1"
  using py_division_i64_spec [of "-7" 2] by (simp add: in_signed_64)

text \<open>At every signed width the exact-width \<open>//\<close> and \<open>%\<close> satisfy the documented identity
  \<open>a == (a // b) * b + a % b\<close>, the remainder is zero or has the divisor's sign and is smaller in
  magnitude, and both results fit the carrier.\<close>

theorem signed_division_identity:
  assumes "0 < w" and "in_signed w a" and "in_signed w b"
    and "py_floor_div_signed w name a b = Inr q" and "py_mod_signed a b = Inr r"
  shows "a = q * b + r \<and> (r = 0 \<or> sgn r = sgn b) \<and> \<bar>r\<bar> < \<bar>b\<bar> \<and> in_signed w q \<and> in_signed w r"
  using python_division.quotient_remainder [OF python_division_signed [OF assms(1)] assms(2-5)] by blast

theorem signed_division_identity_witness:
  "py_floor_div_signed 8 (lit ''i8'') (-128) 3 = Inr (-43) \<and> py_mod_signed (-128) 3 = Inr 1
    \<and> (-128::int) = (-43) * 3 + 1 \<and> in_signed 8 (-43)"
proof -
  have d: "py_floor_div_signed 8 (lit ''i8'') (-128) 3 = Inr (-43)"
    by (simp add: py_floor_div_signed_def signed_min_def rust_div_def rust_rem_def)
  have m: "py_mod_signed (-128) 3 = Inr 1"
    by (simp add: py_mod_signed_def rust_div_def rust_rem_def)
  show ?thesis
    using signed_division_identity [of 8 "-128" 3, OF _ _ _ d m] d m by (simp add: in_signed_def)
qed

text \<open>C25: The binary (subtract and shift) gcd returns on every pair of \<open>i64\<close> operands, and its result is
  the mathematical greatest common divisor, or the overflow \<open>ValueError\<close> exactly when that divisor does
  not fit \<open>i64\<close>.\<close>

theorem gcd_i64_correct:
  assumes "in_i64 a" and "in_i64 b"
  shows "gcd_i64 a b =
    Some (if in_i64 (gcd a b) then Inr (gcd a b)
          else Inl (Raise (with_message ValueError (lit ''math.gcd result overflows Incan int''))))"
  using assms
  by (simp add: gcd_i64_def non_negative_i64_or_overflow_def int_gcd_unsigned_abs raise_defs)

theorem gcd_i64_correct_witness:
  "gcd_i64 (-54) 24 = Some (Inr 6)
    \<and> gcd_i64 (-9223372036854775808) 0 =
        Some (Inl (Raise (with_message ValueError (lit ''math.gcd result overflows Incan int''))))"
proof -
  have "gcd (54::int) 24 = 6" by code_simp
  then show ?thesis
    using gcd_i64_correct [of "-54" 24] gcd_i64_correct [of "-9223372036854775808" 0]
    by (simp add: in_signed_64)
qed

text \<open>\<open>lcm_i64\<close> returns the mathematical lowest common multiple when it fits \<open>i64\<close> and raises the
  overflow \<open>ValueError\<close> otherwise; the intermediate \<open>u64\<close> product never wraps.\<close>

theorem lcm_i64_correct:
  assumes "in_i64 a" and "in_i64 b"
  shows "lcm_i64 a b =
    Some (if in_i64 (lcm a b) then Inr (lcm a b)
          else Inl (Raise (with_message ValueError (lit ''math.lcm result overflows Incan int''))))"
proof (cases "a = 0 \<or> b = 0")
  case True
  then show ?thesis by (auto simp: lcm_i64_def in_signed_64)
next
  case False
  let ?u = "unsigned_abs a" and ?v = "unsigned_abs b"
  have "?u div gcd ?u ?v * ?v = lcm ?u ?v"
    by (simp add: lcm_nat_def div_mult_swap mult.commute)
  moreover have "in_unsigned 64 n" if "in_i64 (int n)" for n
    using that by (simp add: in_unsigned_def in_signed_64)
  ultimately show ?thesis
    using assms False int_lcm_unsigned_abs [of a b]
    by (auto simp: lcm_i64_def non_negative_i64_or_overflow_def raise_defs Let_def simp del: of_nat_mult)
qed

theorem lcm_i64_correct_witness: "lcm_i64 (-6) 8 = Some (Inr 24)"
proof -
  have "lcm (6::int) 8 = 24" by code_simp
  then show ?thesis using lcm_i64_correct [of "-6" 8] by (simp add: in_signed_64)
qed

text \<open>C37: A saturating resize stays inside the target type, agrees with the checked resize whenever that
  succeeds, and otherwise returns the representable value nearest to its input, for all four
  signedness combinations and every target width.\<close>

theorem saturating_resize_nearest:
  assumes "0 < w" and "src_signed \<or> 0 \<le> x"
  shows "fits dst_signed w (saturating_resize src_signed dst_signed w x)
    \<and> (\<forall>v. try_resize dst_signed w x = Some v \<longrightarrow> saturating_resize src_signed dst_signed w x = v)
    \<and> (\<forall>y. fits dst_signed w y \<longrightarrow>
          \<bar>saturating_resize src_signed dst_signed w x - x\<bar> \<le> \<bar>y - x\<bar>)"
proof -
  have "type_min dst_signed w \<le> type_max dst_signed w"
    using min_le_max_signed [of w] max_unsigned_nonneg [of w] by (simp add: type_min_def type_max_def)
  then show ?thesis
    unfolding saturating_resize_clamp [OF assms]
    by (auto simp: try_resize_def fits_iff clamp_def)
qed

theorem saturating_resize_nearest_witness:
  "saturating_resize True True 8 240 = 127 \<and> fits True 8 (saturating_resize True True 8 240)
    \<and> saturating_resize True False 8 (-1) = 0 \<and> fits False 8 (saturating_resize True False 8 (-1))"
  using saturating_resize_nearest [of 8 True 240 True] saturating_resize_nearest [of 8 True "-1" False]
  by (simp add: saturating_resize_def saturating_signed_to_signed_def saturating_signed_to_unsigned_def
      clamp_def signed_min_def max_signed_def wrap_signed_def)

text \<open>The promotion flags are consistent with the result category: after promoting the flagged
  operands both sides of a numeric operation have exactly the operation's result category, and an integer
  result is computed on unpromoted integers.\<close>

theorem promotion_matches_result:
  "promote (fst (needs_float_promotion op lhs rhs k)) lhs = result_numeric_type op lhs rhs k
    \<and> promote (snd (needs_float_promotion op lhs rhs k)) rhs = result_numeric_type op lhs rhs k"
proof (cases "result_numeric_type op lhs rhs k")
  case IntTy
  then show ?thesis using result_int_operands [of op lhs rhs k] by (simp add: needs_float_promotion_def promote_def)
next
  case FloatTy
  then show ?thesis by (cases lhs; cases rhs; simp add: needs_float_promotion_def promote_def)
qed

end
