(* ===== verification/Numeric_Types.thy ===== *)
theory Numeric_Types
  imports Incan_Prelude
begin

text \<open>
  The numeric type vocabulary (\<open>kernel/incan_lang/src/lang/types/numerics.rs\<close>) and the widening
  policy over it (\<open>kernel/incan_lang/src/numeric_values.rs\<close>).  The registry is the source's table,
  entry by entry; of each entry the spelling, family, width and provenance fields are kept, the
  prose fields (description, stability, examples) are not.  The bounds of \<open>isize\<close> and \<open>usize\<close> are
  those of the host, whose pointer width is a parameter.
\<close>

section \<open>Vocabulary\<close>

datatype NumericTypeId = I8 | I16 | I32 | I64 | I128 | U8 | U16 | U32 | U64 | U128
  | F32 | F64 | ISize | USize | BoolId

datatype NumericFamily = SignedInteger | UnsignedInteger | BinaryFloat | BoolFamily

datatype IntegerHelperFamily = CheckedHelper | WrappingHelper | SaturatingHelper

datatype IntegerHelperOperation = HelperAdd | HelperSub | HelperMul | HelperPow

record IntegerHelperInfo =
  helper_canonical :: rstr
  helper_family :: IntegerHelperFamily
  helper_operation :: IntegerHelperOperation
  supported_numeric_families :: "NumericFamily list"

record NumericTypeInfo =
  num_id :: NumericTypeId
  num_canonical :: rstr
  num_aliases :: "rstr list"
  num_family :: NumericFamily
  num_bit_width :: "nat option"
  num_rfc :: nat
  num_since :: "nat \<times> nat"

datatype DecimalTypeConstructorId = DecimalCtor | Decimal128Ctor

record DecimalTypeConstructorInfo =
  dec_id :: DecimalTypeConstructorId
  dec_canonical :: rstr
  dec_aliases :: "rstr list"
  dec_max_precision :: nat
  dec_storage_bits :: nat

definition num_info ::
  "NumericTypeId \<Rightarrow> rstr \<Rightarrow> rstr list \<Rightarrow> NumericFamily \<Rightarrow> nat option \<Rightarrow> NumericTypeInfo" where
  "num_info i canonical aliases family width =
     \<lparr>num_id = i, num_canonical = canonical, num_aliases = aliases, num_family = family,
      num_bit_width = width, num_rfc = 9, num_since = (0, 3)\<rparr>"

definition legacy_info ::
  "NumericTypeId \<Rightarrow> rstr \<Rightarrow> rstr list \<Rightarrow> NumericFamily \<Rightarrow> nat option \<Rightarrow> nat \<Rightarrow> nat \<times> nat \<Rightarrow> NumericTypeInfo" where
  "legacy_info i canonical aliases family width rfc since =
     \<lparr>num_id = i, num_canonical = canonical, num_aliases = aliases, num_family = family,
      num_bit_width = width, num_rfc = rfc, num_since = since\<rparr>"

definition NUMERIC_TYPES :: "NumericTypeInfo list" where
  "NUMERIC_TYPES =
    [num_info I8 (lit ''i8'') [] SignedInteger (Some 8),
     num_info I16 (lit ''i16'') [lit ''short'', lit ''smallint''] SignedInteger (Some 16),
     num_info I32 (lit ''i32'') [lit ''integer''] SignedInteger (Some 32),
     num_info I64 (lit ''i64'') [lit ''int'', lit ''bigint'', lit ''long''] SignedInteger (Some 64),
     num_info I128 (lit ''i128'') [lit ''hugeint''] SignedInteger (Some 128),
     num_info U8 (lit ''u8'') [lit ''byte''] UnsignedInteger (Some 8),
     num_info U16 (lit ''u16'') [] UnsignedInteger (Some 16),
     num_info U32 (lit ''u32'') [] UnsignedInteger (Some 32),
     num_info U64 (lit ''u64'') [] UnsignedInteger (Some 64),
     num_info U128 (lit ''u128'') [] UnsignedInteger (Some 128),
     num_info F32 (lit ''f32'') [lit ''real'', lit ''fp32''] BinaryFloat (Some 32),
     num_info F64 (lit ''f64'') [lit ''float'', lit ''double'', lit ''fp64''] BinaryFloat (Some 64),
     num_info ISize (lit ''isize'') [] SignedInteger None,
     num_info USize (lit ''usize'') [] UnsignedInteger None,
     legacy_info BoolId (lit ''bool'') [] BoolFamily None 0 (0, 1)]"

definition decimal_constructor ::
  "DecimalTypeConstructorId \<Rightarrow> rstr \<Rightarrow> rstr list \<Rightarrow> nat \<Rightarrow> nat \<Rightarrow> DecimalTypeConstructorInfo" where
  "decimal_constructor i canonical aliases max_precision storage_bits =
     \<lparr>dec_id = i, dec_canonical = canonical, dec_aliases = aliases,
      dec_max_precision = max_precision, dec_storage_bits = storage_bits\<rparr>"

definition DECIMAL_TYPE_CONSTRUCTORS :: "DecimalTypeConstructorInfo list" where
  "DECIMAL_TYPE_CONSTRUCTORS =
    [decimal_constructor DecimalCtor (lit ''decimal'') [lit ''numeric''] 38 128,
     decimal_constructor Decimal128Ctor (lit ''decimal128'') [] 38 128]"

definition INTEGER_FAMILIES :: "NumericFamily list" where
  "INTEGER_FAMILIES = [SignedInteger, UnsignedInteger]"

definition integer_helper ::
  "rstr \<Rightarrow> IntegerHelperFamily \<Rightarrow> IntegerHelperOperation \<Rightarrow> IntegerHelperInfo" where
  "integer_helper canonical family operation =
     \<lparr>helper_canonical = canonical, helper_family = family, helper_operation = operation,
      supported_numeric_families = INTEGER_FAMILIES\<rparr>"

definition INTEGER_HELPERS :: "IntegerHelperInfo list" where
  "INTEGER_HELPERS =
    [integer_helper (lit ''checked_add'') CheckedHelper HelperAdd,
     integer_helper (lit ''checked_sub'') CheckedHelper HelperSub,
     integer_helper (lit ''checked_mul'') CheckedHelper HelperMul,
     integer_helper (lit ''checked_pow'') CheckedHelper HelperPow,
     integer_helper (lit ''wrapping_add'') WrappingHelper HelperAdd,
     integer_helper (lit ''wrapping_sub'') WrappingHelper HelperSub,
     integer_helper (lit ''wrapping_mul'') WrappingHelper HelperMul,
     integer_helper (lit ''wrapping_pow'') WrappingHelper HelperPow,
     integer_helper (lit ''saturating_add'') SaturatingHelper HelperAdd,
     integer_helper (lit ''saturating_sub'') SaturatingHelper HelperSub,
     integer_helper (lit ''saturating_mul'') SaturatingHelper HelperMul,
     integer_helper (lit ''saturating_pow'') SaturatingHelper HelperPow]"

definition numeric_from_str :: "rstr \<Rightarrow> NumericTypeId option" where
  "numeric_from_str name =
     (case find (\<lambda>t. eq_ignore_ascii_case (num_canonical t) name) NUMERIC_TYPES of
        Some t \<Rightarrow> Some (num_id t)
      | None \<Rightarrow> map_option num_id
          (find (\<lambda>t. list_ex (\<lambda>a. eq_ignore_ascii_case a name) (num_aliases t)) NUMERIC_TYPES))"

definition decimal_constructor_from_str :: "rstr \<Rightarrow> DecimalTypeConstructorId option" where
  "decimal_constructor_from_str name =
     (case find (\<lambda>t. eq_ignore_ascii_case (dec_canonical t) name) DECIMAL_TYPE_CONSTRUCTORS of
        Some t \<Rightarrow> Some (dec_id t)
      | None \<Rightarrow> map_option dec_id
          (find (\<lambda>t. list_ex (\<lambda>a. eq_ignore_ascii_case a name) (dec_aliases t)) DECIMAL_TYPE_CONSTRUCTORS))"

fun numeric_index :: "NumericTypeId \<Rightarrow> nat" where
  "numeric_index I8 = 0" | "numeric_index I16 = 1" | "numeric_index I32 = 2" | "numeric_index I64 = 3"
| "numeric_index I128 = 4" | "numeric_index U8 = 5" | "numeric_index U16 = 6" | "numeric_index U32 = 7"
| "numeric_index U64 = 8" | "numeric_index U128 = 9" | "numeric_index F32 = 10" | "numeric_index F64 = 11"
| "numeric_index ISize = 12" | "numeric_index USize = 13" | "numeric_index BoolId = 14"

definition numeric_info_for :: "NumericTypeId \<Rightarrow> NumericTypeInfo" where
  "numeric_info_for i = NUMERIC_TYPES ! numeric_index i"

definition numeric_as_str :: "NumericTypeId \<Rightarrow> rstr" where
  "numeric_as_str i = num_canonical (numeric_info_for i)"

definition is_integer :: "NumericTypeId \<Rightarrow> bool" where
  "is_integer i \<longleftrightarrow> num_family (numeric_info_for i) \<in> {SignedInteger, UnsignedInteger}"

definition is_binary_float :: "NumericTypeId \<Rightarrow> bool" where
  "is_binary_float i \<longleftrightarrow> num_family (numeric_info_for i) = BinaryFloat"

definition integer_helper_from_str :: "rstr \<Rightarrow> IntegerHelperInfo option" where
  "integer_helper_from_str name = find (\<lambda>h. helper_canonical h = name) INTEGER_HELPERS"

definition supports_integer_helper :: "NumericTypeId \<Rightarrow> IntegerHelperInfo \<Rightarrow> bool" where
  "supports_integer_helper i h \<longleftrightarrow> num_family (numeric_info_for i) \<in> set (supported_numeric_families h)"

section \<open>Bounds and widening\<close>

datatype IntegerBounds = SignedBounds int int | UnsignedBounds int

fun integer_bounds :: "nat \<Rightarrow> NumericTypeId \<Rightarrow> IntegerBounds option" where
  "integer_bounds ptr I8 = Some (SignedBounds (- (2 ^ 7)) (2 ^ 7 - 1))"
| "integer_bounds ptr I16 = Some (SignedBounds (- (2 ^ 15)) (2 ^ 15 - 1))"
| "integer_bounds ptr I32 = Some (SignedBounds (- (2 ^ 31)) (2 ^ 31 - 1))"
| "integer_bounds ptr I64 = Some (SignedBounds (- (2 ^ 63)) (2 ^ 63 - 1))"
| "integer_bounds ptr I128 = Some (SignedBounds (- (2 ^ 127)) (2 ^ 127 - 1))"
| "integer_bounds ptr ISize = Some (SignedBounds (- (2 ^ (ptr - 1))) (2 ^ (ptr - 1) - 1))"
| "integer_bounds ptr U8 = Some (UnsignedBounds (2 ^ 8 - 1))"
| "integer_bounds ptr U16 = Some (UnsignedBounds (2 ^ 16 - 1))"
| "integer_bounds ptr U32 = Some (UnsignedBounds (2 ^ 32 - 1))"
| "integer_bounds ptr U64 = Some (UnsignedBounds (2 ^ 64 - 1))"
| "integer_bounds ptr U128 = Some (UnsignedBounds (2 ^ 128 - 1))"
| "integer_bounds ptr USize = Some (UnsignedBounds (2 ^ ptr - 1))"
| "integer_bounds ptr F32 = None"
| "integer_bounds ptr F64 = None"
| "integer_bounds ptr BoolId = None"

fun width_at_least :: "nat option \<Rightarrow> nat option \<Rightarrow> bool" where
  "width_at_least (Some expected) (Some actual) = (actual \<le> expected)"
| "width_at_least _ _ = False"

definition numeric_type_losslessly_widens_to :: "NumericTypeId \<Rightarrow> NumericTypeId \<Rightarrow> bool" where
  "numeric_type_losslessly_widens_to actual expected =
     (if actual = expected then True
      else let a = numeric_info_for actual; e = numeric_info_for expected
           in case (num_family a, num_family e) of
                (SignedInteger, SignedInteger) \<Rightarrow> width_at_least (num_bit_width e) (num_bit_width a)
              | (UnsignedInteger, UnsignedInteger) \<Rightarrow> width_at_least (num_bit_width e) (num_bit_width a)
              | (BinaryFloat, BinaryFloat) \<Rightarrow> width_at_least (num_bit_width e) (num_bit_width a)
              | (UnsignedInteger, SignedInteger) \<Rightarrow>
                  (case (num_bit_width a, num_bit_width e) of
                     (Some actual_bits, Some expected_bits) \<Rightarrow> actual_bits < expected_bits
                   | _ \<Rightarrow> False)
              | _ \<Rightarrow> False)"

definition common_lossless_integer_type :: "NumericTypeId \<Rightarrow> NumericTypeId \<Rightarrow> NumericTypeId option" where
  "common_lossless_integer_type left right =
     (if \<not> is_integer left \<or> \<not> is_integer right then None
      else if numeric_type_losslessly_widens_to left right then Some right
      else if numeric_type_losslessly_widens_to right left then Some left
      else find (\<lambda>c. numeric_type_losslessly_widens_to left c \<and> numeric_type_losslessly_widens_to right c)
             [I16, I32, I64, I128])"

text \<open>The set of values a bound describes.\<close>

fun bound_values :: "IntegerBounds \<Rightarrow> int set" where
  "bound_values (SignedBounds lo hi) = {lo..hi}"
| "bound_values (UnsignedBounds hi) = {0..hi}"

definition type_values :: "nat \<Rightarrow> NumericTypeId \<Rightarrow> int set" where
  "type_values ptr i = (case integer_bounds ptr i of Some b \<Rightarrow> bound_values b | None \<Rightarrow> {})"

section \<open>Enumerating the types\<close>

lemma numeric_type_cases_list: "x \<in> set [I8, I16, I32, I64, I128, U8, U16, U32, U64, U128, F32, F64, ISize, USize, BoolId]"
  by (cases x) simp_all

instantiation NumericTypeId :: enum
begin

definition enum_NumericTypeId :: "NumericTypeId list" where
  "enum_NumericTypeId = [I8, I16, I32, I64, I128, U8, U16, U32, U64, U128, F32, F64, ISize, USize, BoolId]"

definition enum_all_NumericTypeId :: "(NumericTypeId \<Rightarrow> bool) \<Rightarrow> bool" where
  "enum_all_NumericTypeId P \<longleftrightarrow> list_all P enum_class.enum"

definition enum_ex_NumericTypeId :: "(NumericTypeId \<Rightarrow> bool) \<Rightarrow> bool" where
  "enum_ex_NumericTypeId P \<longleftrightarrow> list_ex P enum_class.enum"

instance
proof
  show univ: "(UNIV :: NumericTypeId set) = set enum_class.enum"
    unfolding enum_NumericTypeId_def using numeric_type_cases_list by blast
  show "distinct (enum_class.enum :: NumericTypeId list)"
    by (simp add: enum_NumericTypeId_def)
  show "enum_class.enum_all P \<longleftrightarrow> Ball UNIV P" for P :: "NumericTypeId \<Rightarrow> bool"
    unfolding enum_all_NumericTypeId_def list_all_iff univ [symmetric] by simp
  show "enum_class.enum_ex P \<longleftrightarrow> Bex UNIV P" for P :: "NumericTypeId \<Rightarrow> bool"
    unfolding enum_ex_NumericTypeId_def list_ex_iff univ [symmetric] by simp
qed

end

section \<open>Reading the registry\<close>

lemmas registry_defs = numeric_info_for_def NUMERIC_TYPES_def num_info_def legacy_info_def

lemma numeric_family_simps [simp]:
  "num_family (numeric_info_for I8) = SignedInteger"
  "num_family (numeric_info_for I16) = SignedInteger"
  "num_family (numeric_info_for I32) = SignedInteger"
  "num_family (numeric_info_for I64) = SignedInteger"
  "num_family (numeric_info_for I128) = SignedInteger"
  "num_family (numeric_info_for U8) = UnsignedInteger"
  "num_family (numeric_info_for U16) = UnsignedInteger"
  "num_family (numeric_info_for U32) = UnsignedInteger"
  "num_family (numeric_info_for U64) = UnsignedInteger"
  "num_family (numeric_info_for U128) = UnsignedInteger"
  "num_family (numeric_info_for F32) = BinaryFloat"
  "num_family (numeric_info_for F64) = BinaryFloat"
  "num_family (numeric_info_for ISize) = SignedInteger"
  "num_family (numeric_info_for USize) = UnsignedInteger"
  "num_family (numeric_info_for BoolId) = BoolFamily"
  by (simp_all add: registry_defs)

lemma numeric_width_simps [simp]:
  "num_bit_width (numeric_info_for I8) = Some 8"
  "num_bit_width (numeric_info_for I16) = Some 16"
  "num_bit_width (numeric_info_for I32) = Some 32"
  "num_bit_width (numeric_info_for I64) = Some 64"
  "num_bit_width (numeric_info_for I128) = Some 128"
  "num_bit_width (numeric_info_for U8) = Some 8"
  "num_bit_width (numeric_info_for U16) = Some 16"
  "num_bit_width (numeric_info_for U32) = Some 32"
  "num_bit_width (numeric_info_for U64) = Some 64"
  "num_bit_width (numeric_info_for U128) = Some 128"
  "num_bit_width (numeric_info_for F32) = Some 32"
  "num_bit_width (numeric_info_for F64) = Some 64"
  "num_bit_width (numeric_info_for ISize) = None"
  "num_bit_width (numeric_info_for USize) = None"
  "num_bit_width (numeric_info_for BoolId) = None"
  by (simp_all add: registry_defs)

lemma is_integer_iff: "is_integer i \<longleftrightarrow> i \<notin> {F32, F64, BoolId}"
  by (cases i) (simp_all add: is_integer_def)

text \<open>The types above each type in the widening order.\<close>

lemma widens_up [simp]:
  "numeric_type_losslessly_widens_to I8 d \<longleftrightarrow> d \<in> {I8, I16, I32, I64, I128}"
  "numeric_type_losslessly_widens_to I16 d \<longleftrightarrow> d \<in> {I16, I32, I64, I128}"
  "numeric_type_losslessly_widens_to I32 d \<longleftrightarrow> d \<in> {I32, I64, I128}"
  "numeric_type_losslessly_widens_to I64 d \<longleftrightarrow> d \<in> {I64, I128}"
  "numeric_type_losslessly_widens_to I128 d \<longleftrightarrow> d \<in> {I128}"
  "numeric_type_losslessly_widens_to U8 d \<longleftrightarrow> d \<in> {I16, I32, I64, I128, U8, U16, U32, U64, U128}"
  "numeric_type_losslessly_widens_to U16 d \<longleftrightarrow> d \<in> {I32, I64, I128, U16, U32, U64, U128}"
  "numeric_type_losslessly_widens_to U32 d \<longleftrightarrow> d \<in> {I64, I128, U32, U64, U128}"
  "numeric_type_losslessly_widens_to U64 d \<longleftrightarrow> d \<in> {I128, U64, U128}"
  "numeric_type_losslessly_widens_to U128 d \<longleftrightarrow> d \<in> {U128}"
  "numeric_type_losslessly_widens_to F32 d \<longleftrightarrow> d \<in> {F32, F64}"
  "numeric_type_losslessly_widens_to F64 d \<longleftrightarrow> d \<in> {F64}"
  "numeric_type_losslessly_widens_to ISize d \<longleftrightarrow> d \<in> {ISize}"
  "numeric_type_losslessly_widens_to USize d \<longleftrightarrow> d \<in> {USize}"
  "numeric_type_losslessly_widens_to BoolId d \<longleftrightarrow> d \<in> {BoolId}"
  by (cases d; simp add: numeric_type_losslessly_widens_to_def Let_def)+

lemma integer_widening_subset:
  "is_integer i \<Longrightarrow> numeric_type_losslessly_widens_to i j \<Longrightarrow> type_values ptr i \<subseteq> type_values ptr j"
  by (cases i) (auto simp: type_values_def is_integer_iff)

section \<open>Properties\<close>

text \<open>The numeric registry is self-consistent: the exhaustive \<open>info_for\<close> match picks the entry of its
  own identifier, the canonical spelling and every alias of a type resolve back to that type, and
  resolution ignores ASCII case.\<close>

theorem numeric_registry_resolves:
  "num_id (numeric_info_for i) = i
    \<and> numeric_from_str (numeric_as_str i) = Some i
    \<and> list_all (\<lambda>a. numeric_from_str a = Some i) (num_aliases (numeric_info_for i))
    \<and> numeric_from_str (map to_ascii_lowercase s) = numeric_from_str s"
proof -
  have "to_ascii_lowercase (to_ascii_lowercase c) = to_ascii_lowercase c" for c
    by (simp add: to_ascii_lowercase_def)
  then have "eq_ignore_ascii_case a (map to_ascii_lowercase s) = eq_ignore_ascii_case a s" for a
    by (simp add: eq_ignore_ascii_case_def comp_def)
  then have "numeric_from_str (map to_ascii_lowercase s) = numeric_from_str s"
    by (simp only: numeric_from_str_def)
  moreover
  have "num_id (numeric_info_for i) = i
    \<and> numeric_from_str (numeric_as_str i) = Some i
    \<and> list_all (\<lambda>a. numeric_from_str a = Some i) (num_aliases (numeric_info_for i))"
    by (cases i) (simp_all add: registry_defs numeric_from_str_def numeric_as_str_def eq_ignore_ascii_case_def
        to_ascii_lowercase_def)
  ultimately show ?thesis by simp
qed



text \<open>C30: \<open>common_lossless_integer_type\<close> computes least upper bounds of the widening order: the returned
  type holds both operands, widens to every integer type that holds both, is the same for either order
  of the operands, and \<open>None\<close> is returned only when no integer type holds both.\<close>

theorem common_type_is_least_upper_bound:
  "common_lossless_integer_type l r = common_lossless_integer_type r l
    \<and> (case common_lossless_integer_type l r of
         Some c \<Rightarrow> is_integer c \<and> numeric_type_losslessly_widens_to l c \<and> numeric_type_losslessly_widens_to r c
           \<and> (is_integer d \<and> numeric_type_losslessly_widens_to l d \<and> numeric_type_losslessly_widens_to r d
                \<longrightarrow> numeric_type_losslessly_widens_to c d)
       | None \<Rightarrow> is_integer l \<and> is_integer r \<and> is_integer d
           \<longrightarrow> \<not> (numeric_type_losslessly_widens_to l d \<and> numeric_type_losslessly_widens_to r d))"
  by (cases l; cases r; auto simp: common_lossless_integer_type_def is_integer_iff)

theorem common_type_is_least_upper_bound_witness:
  "common_lossless_integer_type I64 U64 = Some I128 \<and> numeric_type_losslessly_widens_to U64 I128
    \<and> common_lossless_integer_type U128 I8 = None"
  using common_type_is_least_upper_bound [of I64 U64 I128] common_type_is_least_upper_bound [of U128 I8 I128]
  by (simp add: common_lossless_integer_type_def is_integer_iff)

end
