(* ===== verification/Byte_Codec.thy ===== *)
theory Byte_Codec
  imports Incan_Prelude
begin

text \<open>
  Standard-library byte encodings the sources rely on: fixed-width integers in little- and
  big-endian order (\<open>to_le_bytes\<close>, \<open>to_be_bytes\<close> and their inverses) and UTF-8 (\<open>str::as_bytes\<close>,
  \<open>String::from_utf8\<close>, which rejects truncated, overlong, surrogate and out-of-range sequences).
  Both directions of each round trip are proved: encoding then decoding returns the value, and
  whatever decodes is the encoding of what it decoded to.
\<close>

section \<open>Fixed-width integers\<close>

fun le_bytes :: "nat \<Rightarrow> nat \<Rightarrow> byte list" where
  "le_bytes 0 v = []"
| "le_bytes (Suc n) v = word_of_nat v # le_bytes n (v div 256)"

fun le_value :: "byte list \<Rightarrow> nat" where
  "le_value [] = 0"
| "le_value (b # bs) = unat b + 256 * le_value bs"

definition be_bytes :: "nat \<Rightarrow> nat \<Rightarrow> byte list" where
  "be_bytes n v = rev (le_bytes n v)"

definition be_value :: "byte list \<Rightarrow> nat" where
  "be_value bs = le_value (rev bs)"

lemma unat_byte_less [simp]: "unat (b :: byte) < 256"
  using unsigned_less [of b] by simp

lemma unat_byte_of_nat: "unat (word_of_nat v :: byte) = v mod 256"
  by (simp add: unat_of_nat)

lemma length_le_bytes [simp]: "length (le_bytes n v) = n"
  by (induction n arbitrary: v) simp_all

lemma length_be_bytes [simp]: "length (be_bytes n v) = n"
  by (simp add: be_bytes_def)

lemma le_value_le_bytes [simp]: "le_value (le_bytes n v) = v mod 256 ^ n"
proof (induction n arbitrary: v)
  case (Suc n)
  have "le_value (le_bytes (Suc n) v) = v mod 256 + 256 * (v div 256 mod 256 ^ n)"
    by (simp add: Suc.IH unat_byte_of_nat)
  also have "\<dots> = v mod (256 * 256 ^ n)"
    by (metis mod_mult2_eq add.commute)
  finally show ?case by simp
qed simp

lemma le_value_less: "le_value bs < 256 ^ length bs"
proof (induction bs)
  case (Cons b bs)
  have "unat b + 256 * le_value bs < 256 + 256 * le_value bs" by simp
  also have "\<dots> \<le> 256 * 256 ^ length bs" using Cons.IH by simp
  finally show ?case by simp
qed simp

lemma le_bytes_le_value [simp]: "le_bytes (length bs) (le_value bs) = bs"
proof (induction bs)
  case (Cons b bs)
  have "unat (word_of_nat (unat b + 256 * le_value bs) :: byte) = unat b"
    by (simp only: unat_byte_of_nat) simp
  then have "word_of_nat (unat b + 256 * le_value bs) = b"
    by (simp only: word_unat_eq_iff)
  moreover have "(unat b + 256 * le_value bs) div 256 = le_value bs" by simp
  ultimately show ?case using Cons.IH by simp
qed simp

lemma be_value_be_bytes [simp]: "v < 256 ^ n \<Longrightarrow> be_value (be_bytes n v) = v"
  by (simp add: be_value_def be_bytes_def)

lemma be_value_less: "be_value bs < 256 ^ length bs"
  using le_value_less [of "rev bs"] by (simp add: be_value_def)

lemma be_bytes_be_value: "length bs = n \<Longrightarrow> be_bytes n (be_value bs) = bs"
  using le_bytes_le_value [of "rev bs"] by (auto simp: be_value_def be_bytes_def)

text \<open>A signed integer is written as its two's complement residue.\<close>

definition le_bytes_signed :: "nat \<Rightarrow> int \<Rightarrow> byte list" where
  "le_bytes_signed n x = le_bytes n (nat (x mod 256 ^ n))"

definition le_value_signed :: "byte list \<Rightarrow> int" where
  "le_value_signed bs = wrap_signed (8 * length bs) (int (le_value bs))"

lemma length_le_bytes_signed [simp]: "length (le_bytes_signed n x) = n"
  by (simp add: le_bytes_signed_def)

lemma pow_256: "(256::int) ^ n = 2 ^ (8 * n)"
  by (simp add: power_mult)

lemma wrap_signed_mod: "wrap_signed w (x mod 2 ^ w) = wrap_signed w x"
  by (simp add: wrap_signed_def mod_simps)

lemma le_value_signed_le_bytes_signed:
  assumes "0 < n" and "in_signed (8 * n) x"
  shows "le_value_signed (le_bytes_signed n x) = x"
proof -
  have "int (le_value (le_bytes_signed n x)) = x mod 256 ^ n"
  proof -
    have "nat (x mod 256 ^ n) < 256 ^ n" by (simp add: nat_less_iff)
    then show ?thesis by (simp add: le_bytes_signed_def)
  qed
  then have "le_value_signed (le_bytes_signed n x) = wrap_signed (8 * n) (x mod 2 ^ (8 * n))"
    by (simp add: le_value_signed_def pow_256)
  also have "\<dots> = x" using assms by (simp add: wrap_signed_mod wrap_signed_id)
  finally show ?thesis .
qed

section \<open>UTF-8\<close>

definition utf8_char_nat :: "scalar \<Rightarrow> nat list" where
  "utf8_char_nat c =
     (if c < 0x80 then [c]
      else if c < 0x800 then [0xC0 + c div 64, 0x80 + c mod 64]
      else if c < 0x10000 then [0xE0 + c div 4096, 0x80 + c div 64 mod 64, 0x80 + c mod 64]
      else [0xF0 + c div 262144, 0x80 + c div 4096 mod 64, 0x80 + c div 64 mod 64, 0x80 + c mod 64])"

definition utf8_encode :: "rstr \<Rightarrow> byte list" where
  "utf8_encode s = map word_of_nat (concat (map utf8_char_nat s))"

definition is_cont :: "nat \<Rightarrow> bool" where
  "is_cont b \<longleftrightarrow> 0x80 \<le> b \<and> b < 0xC0"

fun utf8_decode_nat :: "nat list \<Rightarrow> rstr option" where
  "utf8_decode_nat [] = Some []"
| "utf8_decode_nat (a # r) =
     (if a < 0x80 then map_option ((#) a) (utf8_decode_nat r)
      else if 0xC2 \<le> a \<and> a < 0xE0 then
        (case r of b # r' \<Rightarrow>
           if is_cont b then map_option ((#) ((a - 0xC0) * 64 + (b - 0x80))) (utf8_decode_nat r') else None
         | _ \<Rightarrow> None)
      else if 0xE0 \<le> a \<and> a < 0xF0 then
        (case r of b # c # r' \<Rightarrow>
           (let v = (a - 0xE0) * 4096 + (b - 0x80) * 64 + (c - 0x80)
            in if is_cont b \<and> is_cont c \<and> 0x800 \<le> v \<and> \<not> (0xD800 \<le> v \<and> v < 0xE000)
               then map_option ((#) v) (utf8_decode_nat r') else None)
         | _ \<Rightarrow> None)
      else if 0xF0 \<le> a \<and> a < 0xF5 then
        (case r of b # c # d # r' \<Rightarrow>
           (let v = (a - 0xF0) * 262144 + (b - 0x80) * 4096 + (c - 0x80) * 64 + (d - 0x80)
            in if is_cont b \<and> is_cont c \<and> is_cont d \<and> 0x10000 \<le> v \<and> v < 0x110000
               then map_option ((#) v) (utf8_decode_nat r') else None)
         | _ \<Rightarrow> None)
      else None)"

definition from_utf8 :: "byte list \<Rightarrow> rstr option" where
  "from_utf8 bs = utf8_decode_nat (map unat bs)"

lemma length_utf8_char_nat: "length (utf8_char_nat c) = len_utf8 c"
  by (simp add: utf8_char_nat_def len_utf8_def)

lemma length_utf8_encode [simp]: "length (utf8_encode s) = str_bytes_len s"
  by (induction s) (simp_all add: utf8_encode_def length_utf8_char_nat)

lemma utf8_encode_simps [simp]:
  "utf8_encode [] = []"
  "utf8_encode (c # s) = map word_of_nat (utf8_char_nat c) @ utf8_encode s"
  by (simp_all add: utf8_encode_def)

lemma utf8_char_nat_bytes: "valid_scalar c \<Longrightarrow> list_all (\<lambda>b. b < 256) (utf8_char_nat c)"
proof -
  assume "valid_scalar c"
  then have "c < 0x110000" by (auto simp: valid_scalar_def)
  then have "c div 262144 < 5" by auto
  moreover have "c < 0x800 \<Longrightarrow> c div 64 < 32" and "c < 0x10000 \<Longrightarrow> c div 4096 < 16" by auto
  moreover have "x mod 64 < 128" for x :: nat using mod_less_divisor [of 64 x] by linarith
  ultimately show ?thesis by (auto simp: utf8_char_nat_def)
qed

lemma map_unat_of_nat: "list_all (\<lambda>b. b < 256) xs \<Longrightarrow> map (unat \<circ> (word_of_nat :: nat \<Rightarrow> byte)) xs = xs"
  by (induction xs) (simp_all add: unat_byte_of_nat)

lemma sextets:
  "c div 4096 * 4096 + c div 64 mod 64 * 64 + c mod 64 = (c::nat)"
  "c div 262144 * 262144 + c div 4096 mod 64 * 4096 + c div 64 mod 64 * 64 + c mod 64 = (c::nat)"
proof -
  have *: "x div 64 * 64 + x mod 64 = (x::nat)" for x by simp
  have a: "c div 4096 = c div 64 div 64" and b: "c div 262144 = c div 4096 div 64"
    by (simp_all flip: div_mult2_eq)
  show "c div 4096 * 4096 + c div 64 mod 64 * 64 + c mod 64 = c"
    using * [of c] * [of "c div 64"] a by linarith
  then show "c div 262144 * 262144 + c div 4096 mod 64 * 4096 + c div 64 mod 64 * 64 + c mod 64 = c"
    using * [of "c div 4096"] b by linarith
qed

lemma of_sextets:
  fixes y z :: nat
  assumes "y < 64" and "z < 64"
  shows "(x * 64 + z) div 64 = x" and "(x * 64 + z) mod 64 = z"
    and "(x * 4096 + y * 64 + z) div 64 = x * 64 + y" and "(x * 4096 + y * 64 + z) mod 64 = z"
proof -
  have e: "x * 4096 + y * 64 + z = (x * 64 + y) * 64 + z" by simp
  show "(x * 64 + z) div 64 = x" and "(x * 64 + z) mod 64 = z" using assms by simp_all
  show "(x * 4096 + y * 64 + z) div 64 = x * 64 + y" unfolding e using assms by simp
  show "(x * 4096 + y * 64 + z) mod 64 = z" unfolding e by (simp only: mod_mult_self3) (use assms in simp)
qed

lemma utf8_decode_char:
  assumes "valid_scalar c"
  shows "utf8_decode_nat (utf8_char_nat c @ r) = map_option ((#) c) (utf8_decode_nat r)"
proof -
  have c: "c < 0x110000" using assms by (auto simp: valid_scalar_def)
  consider "c < 0x80" | "0x80 \<le> c" "c < 0x800" | "0x800 \<le> c" "c < 0x10000" | "0x10000 \<le> c" by linarith
  then show ?thesis
  proof cases
    case 1
    then show ?thesis by (simp add: utf8_char_nat_def)
  next
    case 2
    then have "2 \<le> c div 64" "c div 64 < 32" by auto
    with 2 show ?thesis by (simp add: utf8_char_nat_def is_cont_def)
  next
    case 3
    then have d: "c div 4096 < 16" by auto
    have "\<not> (0xD800 \<le> c \<and> c < 0xE000)" using assms by (auto simp: valid_scalar_def)
    with 3 d show ?thesis by (simp add: utf8_char_nat_def is_cont_def sextets)
  next
    case 4
    then have d: "c div 262144 < 5" using c by auto
    with 4 c show ?thesis by (simp add: utf8_char_nat_def is_cont_def sextets)
  qed
qed

lemma from_utf8_encode: "valid_str s \<Longrightarrow> from_utf8 (utf8_encode s) = Some s"
proof (induction s)
  case (Cons c s)
  then show ?case
    using map_unat_of_nat [OF utf8_char_nat_bytes [of c]]
    by (simp add: from_utf8_def utf8_decode_char)
qed (simp add: from_utf8_def)

lemma utf8_two_bytes:
  assumes "0xC2 \<le> a" "a < 0xE0" "is_cont b"
  defines "v \<equiv> (a - 0xC0) * 64 + (b - 0x80)"
  shows "utf8_char_nat v = [a, b] \<and> valid_scalar v"
proof -
  obtain x y where a: "a = 0xC0 + x" and b: "b = 0x80 + y" and "2 \<le> x" "x < 32" "y < 64"
    using assms(1-3) by (auto simp: is_cont_def intro!: that [of "a - 0xC0" "b - 0x80"])
  then show ?thesis by (simp add: v_def utf8_char_nat_def valid_scalar_def)
qed

lemma utf8_three_bytes:
  assumes "0xE0 \<le> a" "a < 0xF0" "is_cont b" "is_cont c"
    and "0x800 \<le> (a - 0xE0) * 4096 + (b - 0x80) * 64 + (c - 0x80)"
    and "\<not> (0xD800 \<le> (a - 0xE0) * 4096 + (b - 0x80) * 64 + (c - 0x80) \<and>
            (a - 0xE0) * 4096 + (b - 0x80) * 64 + (c - 0x80) < 0xE000)"
  defines "v \<equiv> (a - 0xE0) * 4096 + (b - 0x80) * 64 + (c - 0x80)"
  shows "utf8_char_nat v = [a, b, c] \<and> valid_scalar v"
proof -
  obtain x y z where a: "a = 0xE0 + x" and b: "b = 0x80 + y" and c: "c = 0x80 + z"
      and xyz: "x < 16" "y < 64" "z < 64"
    using assms(1-4) by (auto simp: is_cont_def intro!: that [of "a - 0xE0" "b - 0x80" "c - 0x80"])
  have v: "v = x * 4096 + y * 64 + z" by (simp add: v_def a b c)
  have q: "v div 64 = x * 64 + y" and m: "v mod 64 = z" using xyz by (simp_all add: v of_sextets)
  have "v div 4096 = v div 64 div 64" by (simp flip: div_mult2_eq)
  then have "v div 4096 = x" and "v div 64 mod 64 = y" using xyz by (simp_all add: q)
  moreover have "v < 0x10000" using xyz unfolding v by linarith
  moreover note m
  moreover have "0x800 \<le> v" and "\<not> (0xD800 \<le> v \<and> v < 0xE000)" using assms(5,6) by (simp_all add: v_def)
  ultimately show ?thesis by (auto simp: utf8_char_nat_def valid_scalar_def a b c)
qed

lemma utf8_four_bytes:
  assumes "0xF0 \<le> a" "a < 0xF5" "is_cont b" "is_cont c" "is_cont d"
    and "0x10000 \<le> (a - 0xF0) * 262144 + (b - 0x80) * 4096 + (c - 0x80) * 64 + (d - 0x80)"
    and "(a - 0xF0) * 262144 + (b - 0x80) * 4096 + (c - 0x80) * 64 + (d - 0x80) < 0x110000"
  defines "v \<equiv> (a - 0xF0) * 262144 + (b - 0x80) * 4096 + (c - 0x80) * 64 + (d - 0x80)"
  shows "utf8_char_nat v = [a, b, c, d] \<and> valid_scalar v"
proof -
  obtain x y z u where a: "a = 0xF0 + x" and b: "b = 0x80 + y" and c: "c = 0x80 + z" and d: "d = 0x80 + u"
      and xyz: "y < 64" "z < 64" "u < 64"
    using assms(1-5)
    by (auto simp: is_cont_def intro!: that [of "a - 0xF0" "b - 0x80" "c - 0x80" "d - 0x80"])
  have v: "v = x * 262144 + y * 4096 + z * 64 + u" by (simp add: v_def a b c d)
  have v': "v = (x * 64 + y) * 4096 + z * 64 + u" by (simp add: v)
  have q: "v div 64 = (x * 64 + y) * 64 + z" and m: "v mod 64 = u"
    unfolding v' using of_sextets(3,4) [OF xyz(2,3)] by blast+
  have d': "v div 4096 = v div 64 div 64" and e: "v div 262144 = v div 4096 div 64"
    by (simp_all flip: div_mult2_eq)
  have q2: "v div 4096 = x * 64 + y" unfolding d' q using of_sextets(1) [OF xyz(1,2)] by blast
  have "v div 64 mod 64 = z" unfolding q using of_sextets(2) [OF xyz(1,2)] by blast
  moreover have "v div 262144 = x" and "v div 4096 mod 64 = y" unfolding e q2 using xyz by simp_all
  moreover note m
  moreover have "0x10000 \<le> v" and "v < 0x110000" using assms(6,7) by (simp_all add: v_def)
  ultimately show ?thesis by (simp add: utf8_char_nat_def valid_scalar_def a b c d)
qed

lemma utf8_decode_nat_sound:
  "utf8_decode_nat bs = Some s \<Longrightarrow> concat (map utf8_char_nat s) = bs \<and> valid_str s"
proof (induction bs arbitrary: s rule: utf8_decode_nat.induct)
  case 1
  then show ?case by simp
next
  case (2 a r)
  consider "a < 0x80" | "0xC2 \<le> a" "a < 0xE0" | "0xE0 \<le> a" "a < 0xF0" | "0xF0 \<le> a" "a < 0xF5"
    using "2.prems" by (force split: if_splits)
  then show ?case
  proof cases
    case 1
    then show ?thesis using "2.prems" "2.IH"(1)
      by (auto simp: utf8_char_nat_def valid_scalar_def)
  next
    case 2
    then obtain b r' s' where r: "r = b # r'" "is_cont b" "utf8_decode_nat r' = Some s'"
      and s: "s = ((a - 0xC0) * 64 + (b - 0x80)) # s'"
      using "2.prems" by (auto split: list.splits if_splits)
    show ?thesis using "2.IH"(2) [OF _ _ r(1,2,3)] utf8_two_bytes [OF 2 r(2)] r(1) s 2 by simp
  next
    case 3
    then obtain b c r' s' where r: "r = b # c # r'" "is_cont b" "is_cont c" "utf8_decode_nat r' = Some s'"
      and s: "s = ((a - 0xE0) * 4096 + (b - 0x80) * 64 + (c - 0x80)) # s'"
      and v: "0x800 \<le> (a - 0xE0) * 4096 + (b - 0x80) * 64 + (c - 0x80)"
        "\<not> (0xD800 \<le> (a - 0xE0) * 4096 + (b - 0x80) * 64 + (c - 0x80) \<and>
            (a - 0xE0) * 4096 + (b - 0x80) * 64 + (c - 0x80) < 0xE000)"
      using "2.prems" by (auto simp: Let_def split: list.splits if_splits)
    show ?thesis
      using "2.IH"(3) [OF _ _ _ r(1) refl refl] utf8_three_bytes [OF 3 r(2,3) v] r s v 3 by simp
  next
    case 4
    then obtain b c d r' s' where r: "r = b # c # d # r'" "is_cont b" "is_cont c" "is_cont d"
        "utf8_decode_nat r' = Some s'"
      and s: "s = ((a - 0xF0) * 262144 + (b - 0x80) * 4096 + (c - 0x80) * 64 + (d - 0x80)) # s'"
      and v: "0x10000 \<le> (a - 0xF0) * 262144 + (b - 0x80) * 4096 + (c - 0x80) * 64 + (d - 0x80)"
        "(a - 0xF0) * 262144 + (b - 0x80) * 4096 + (c - 0x80) * 64 + (d - 0x80) < 0x110000"
      using "2.prems" by (auto simp: Let_def split: list.splits if_splits)
    show ?thesis
      using "2.IH"(4) [OF _ _ _ _ r(1) refl refl refl] utf8_four_bytes [OF 4 r(2,3,4) v] r s v 4 by simp
  qed
qed

end
