(* ===== verification/Decimal_Values.thy ===== *)
theory Decimal_Values
  imports Complex_Main Incan_Errors
begin

text \<open>
  Fixed-scale decimals: the pure policy of \<open>incan_lang/src/numeric_values.rs\<close> (parsing a literal
  body, checking it against \<open>decimal[p, s]\<close>, widening, canonical forms, ordering, rendering) and
  the runtime carrier \<open>Decimal128\<close> of \<open>stdlib/core/rust/src/num.rs\<close> with its \<open>Eq\<close>, \<open>Ord\<close>,
  \<open>Hash\<close> and \<open>Display\<close>.

  A decimal is a coefficient and a scale; its meaning is the rational \<open>decimal_value\<close>.  The
  theorems relate each operation to that rational: equality, ordering and hashing are those of
  the value, the 128-bit overflow checks of the comparison never change its answer, widening
  of types is inclusion of their value sets, and rendering followed by parsing gives back
  coefficient and scale.
\<close>

section \<open>Model\<close>

text \<open>Rust's \<open>core::cmp::Ordering\<close> and the \<open>cmp\<close> of a linear order.\<close>

datatype rordering = Less | Equal | Greater

definition rcmp :: "'a::linorder \<Rightarrow> 'a \<Rightarrow> rordering" where
  "rcmp a b = (if a < b then Less else if a = b then Equal else Greater)"

fun rreverse :: "rordering \<Rightarrow> rordering" where
  "rreverse Less = Greater"
| "rreverse Equal = Equal"
| "rreverse Greater = Less"

record ParsedDecimal =
  pd_coefficient :: int
  pd_literal_scale :: nat

text \<open>\<open>str::split_once\<close> at a character.\<close>

fun split_once :: "scalar \<Rightarrow> rstr \<Rightarrow> (rstr \<times> rstr) option" where
  "split_once d [] = None"
| "split_once d (c # s) =
     (if c = d then Some ([], s) else map_option (\<lambda>(a, b). (c # a, b)) (split_once d s))"

definition parse_decimal_literal_body :: "rstr \<Rightarrow> ParsedDecimal option" where
  "parse_decimal_literal_body body =
     (if body = [] \<or> 101 \<in> set body \<or> 69 \<in> set body then None
      else let (integer, fractional) =
                 (case split_once 46 body of Some p \<Rightarrow> p | None \<Rightarrow> (body, []))
           in if integer = [] \<and> fractional = [] then None
              else if \<not> in_unsigned 8 (str_bytes_len fractional) then None
              else map_option
                     (\<lambda>coefficient. \<lparr>pd_coefficient = coefficient,
                                     pd_literal_scale = str_bytes_len fractional\<rparr>)
                     (parse_signed 128 ((if integer = [] then [48] else integer) @ fractional)))"

text \<open>\<open>coefficient.unsigned_abs().to_string()\<close>.\<close>

definition abs_digits :: "int \<Rightarrow> rstr" where
  "abs_digits c = show_nat (nat \<bar>c\<bar>)"

definition decimal_value_fits :: "nat \<Rightarrow> nat \<Rightarrow> int \<Rightarrow> nat \<Rightarrow> bool" where
  "decimal_value_fits precision scale coefficient literal_scale =
     (if precision = 0 \<or> precision > 38 \<or> scale > precision \<or> literal_scale > scale then False
      else let digits = length (abs_digits coefficient);
               integer_digits = max (digits - literal_scale) 1;
               total_digits = integer_digits + literal_scale
           in integer_digits \<le> precision - scale \<and> total_digits \<le> precision)"

definition decimal_type_losslessly_widens_to :: "nat \<Rightarrow> nat \<Rightarrow> nat \<Rightarrow> nat \<Rightarrow> bool" where
  "decimal_type_losslessly_widens_to source_precision source_scale target_precision target_scale =
     (let source_integer_digits = source_precision - source_scale;
          target_integer_digits = target_precision - target_scale
      in target_integer_digits \<ge> source_integer_digits \<and> target_scale \<ge> source_scale)"

fun canonical_decimal_value :: "int \<Rightarrow> nat \<Rightarrow> int \<times> nat" where
  "canonical_decimal_value coefficient scale =
     (if 0 < scale \<and> rust_rem coefficient 10 = 0
      then canonical_decimal_value (rust_div coefficient 10) (scale - 1)
      else (coefficient, scale))"

declare canonical_decimal_value.simps [simp del]

text \<open>\<open>u128::checked_pow\<close> and \<open>u128::checked_mul\<close>.\<close>

definition checked_u128 :: "nat \<Rightarrow> nat option" where
  "checked_u128 x = (if in_unsigned 128 x then Some x else None)"

definition rescaled :: "nat \<Rightarrow> nat \<Rightarrow> nat option" where
  "rescaled magnitude extra_digits =
     Option.bind (checked_u128 (10 ^ extra_digits)) (\<lambda>factor. checked_u128 (magnitude * factor))"

definition compare_decimal_magnitudes :: "nat \<Rightarrow> nat \<Rightarrow> nat \<Rightarrow> nat \<Rightarrow> rordering" where
  "compare_decimal_magnitudes left left_scale right right_scale =
     (case rcmp left_scale right_scale of
        Equal \<Rightarrow> rcmp left right
      | Greater \<Rightarrow> (case rescaled right (left_scale - right_scale) of
                     Some right' \<Rightarrow> rcmp left right' | None \<Rightarrow> Less)
      | Less \<Rightarrow> (case rescaled left (right_scale - left_scale) of
                  Some left' \<Rightarrow> rcmp left' right | None \<Rightarrow> Greater))"

definition compare_decimal_values :: "int \<Rightarrow> nat \<Rightarrow> int \<Rightarrow> nat \<Rightarrow> rordering" where
  "compare_decimal_values left_coefficient left_scale right_coefficient right_scale =
     (let (lc, ls) = canonical_decimal_value left_coefficient left_scale;
          (rc, rs) = canonical_decimal_value right_coefficient right_scale;
          by_sign = rcmp (sgn lc) (sgn rc)
      in if by_sign \<noteq> Equal \<or> lc = 0 then by_sign
         else let by_magnitude = compare_decimal_magnitudes (nat \<bar>lc\<bar>) ls (nat \<bar>rc\<bar>) rs
              in if lc < 0 then rreverse by_magnitude else by_magnitude)"

definition format_decimal_value :: "int \<Rightarrow> nat \<Rightarrow> rstr" where
  "format_decimal_value coefficient literal_scale =
     (if literal_scale = 0 then show_int coefficient
      else let digits = abs_digits coefficient;
               sign = (if coefficient < 0 then [45] else [])
           in if length digits \<le> literal_scale
              then sign @ lit ''0.'' @ replicate (literal_scale - length digits) 48 @ digits
              else let split = length digits - literal_scale
                   in sign @ take split digits @ [46] @ drop split digits)"

text \<open>The runtime carrier.\<close>

record Decimal128 =
  coefficient :: int
  scale :: nat

definition decimal128_new :: "int \<Rightarrow> nat \<Rightarrow> Decimal128" where
  "decimal128_new c s = \<lparr>coefficient = c, scale = s\<rparr>"

definition decimal128_from_literal :: "rstr \<Rightarrow> Decimal128 outcome" where
  "decimal128_from_literal literal =
     (let body = (case strip_suffix [100] literal of Some b \<Rightarrow> b | None \<Rightarrow> literal)
      in case parse_decimal_literal_body body of
           None \<Rightarrow> raise_value_error (lit ''invalid decimal literal `'' @ literal @ lit ''`'')
         | Some parsed \<Rightarrow> Inr (decimal128_new (pd_coefficient parsed) (pd_literal_scale parsed)))"

definition decimal128_eq :: "Decimal128 \<Rightarrow> Decimal128 \<Rightarrow> bool" where
  "decimal128_eq a b \<longleftrightarrow>
     canonical_decimal_value (coefficient a) (scale a) = canonical_decimal_value (coefficient b) (scale b)"

definition decimal128_cmp :: "Decimal128 \<Rightarrow> Decimal128 \<Rightarrow> rordering" where
  "decimal128_cmp a b = compare_decimal_values (coefficient a) (scale a) (coefficient b) (scale b)"

definition decimal128_partial_cmp :: "Decimal128 \<Rightarrow> Decimal128 \<Rightarrow> rordering option" where
  "decimal128_partial_cmp a b = Some (decimal128_cmp a b)"

text \<open>\<open>Hash\<close> feeds the canonical pair to the hasher, which is the argument \<open>feed\<close>.\<close>

definition decimal128_hash :: "(int \<times> nat \<Rightarrow> 's \<Rightarrow> 's) \<Rightarrow> Decimal128 \<Rightarrow> 's \<Rightarrow> 's" where
  "decimal128_hash feed d state = feed (canonical_decimal_value (coefficient d) (scale d)) state"

definition decimal128_display :: "Decimal128 \<Rightarrow> rstr" where
  "decimal128_display d = format_decimal_value (coefficient d) (scale d)"

text \<open>The field types of the carrier: an \<open>i128\<close> and a \<open>u8\<close>.\<close>

definition wf_decimal128 :: "Decimal128 \<Rightarrow> bool" where
  "wf_decimal128 d \<longleftrightarrow> in_i128 (coefficient d) \<and> in_unsigned 8 (scale d)"

section \<open>Meaning of a decimal\<close>

definition decimal_value :: "int \<Rightarrow> nat \<Rightarrow> rat" where
  "decimal_value c s = of_int c / 10 ^ s"

definition decimal128_value :: "Decimal128 \<Rightarrow> rat" where
  "decimal128_value d = decimal_value (coefficient d) (scale d)"

definition decimal_values :: "nat \<Rightarrow> nat \<Rightarrow> rat set" where
  "decimal_values p s = {decimal_value c ls | c ls. decimal_value_fits p s c ls}"

definition valid_decimal_type :: "nat \<Rightarrow> nat \<Rightarrow> bool" where
  "valid_decimal_type p s \<longleftrightarrow> 0 < p \<and> p \<le> 38 \<and> s \<le> p"

section \<open>Canonical forms\<close>

lemma rust_rem_10_zero_iff: "rust_rem c 10 = 0 \<longleftrightarrow> 10 dvd c"
proof -
  have "rust_rem c 10 = 0 \<longleftrightarrow> c = 0 \<or> \<bar>c\<bar> mod 10 = 0" by (auto simp: rust_rem_sgn sgn_0_0)
  also have "\<dots> \<longleftrightarrow> 10 dvd c" by (auto simp flip: dvd_eq_mod_eq_0)
  finally show ?thesis .
qed

lemma rust_div_10_exact: "10 dvd c \<Longrightarrow> rust_div c 10 * 10 = c"
  using rust_div_rem [of c 10] rust_rem_10_zero_iff [of c] by simp

lemma canonical_step:
  assumes "0 < s" and "10 dvd c"
  shows "canonical_decimal_value c s = canonical_decimal_value (rust_div c 10) (s - 1)"
  using assms by (subst canonical_decimal_value.simps) (simp add: rust_rem_10_zero_iff)

lemma canonical_done:
  assumes "\<not> (0 < s \<and> 10 dvd c)"
  shows "canonical_decimal_value c s = (c, s)"
  using assms by (subst canonical_decimal_value.simps) (auto simp: rust_rem_10_zero_iff)

lemma decimal_value_rescale: "decimal_value (c * 10 ^ k) (s + k) = decimal_value c s"
  by (simp add: decimal_value_def power_add)

lemma canonical_shape:
  assumes "canonical_decimal_value c s = (c', s')"
  shows "c = c' * 10 ^ (s - s') \<and> s' \<le> s \<and> (s' = 0 \<or> \<not> 10 dvd c')"
  using assms
proof (induction s arbitrary: c)
  case 0
  then show ?case by (simp add: canonical_done)
next
  case (Suc s)
  show ?case
  proof (cases "10 dvd c")
    case True
    then have "canonical_decimal_value (rust_div c 10) s = (c', s')"
      using Suc.prems canonical_step [of "Suc s" c] by simp
    from Suc.IH [OF this] have IH: "rust_div c 10 = c' * 10 ^ (s - s')" "s' \<le> s" "s' = 0 \<or> \<not> 10 dvd c'"
      by auto
    have "c = rust_div c 10 * 10" using rust_div_10_exact [OF True] by simp
    also have "\<dots> = c' * 10 ^ (Suc s - s')" using IH(1,2) by (simp add: Suc_diff_le)
    finally show ?thesis using IH by simp
  next
    case False
    then show ?thesis using Suc.prems canonical_done [of "Suc s" c] by auto
  qed
qed

lemma canonical_value:
  assumes "canonical_decimal_value c s = (c', s')"
  shows "decimal_value c s = decimal_value c' s'"
  using canonical_shape [OF assms] decimal_value_rescale [of c' "s - s'" s'] by auto

lemma canonical_abs_le:
  assumes "canonical_decimal_value c s = (c', s')"
  shows "\<bar>c'\<bar> \<le> \<bar>c\<bar>"
proof -
  have "1 \<le> (10::int) ^ (s - s')" by simp
  then have "\<bar>c'\<bar> * 1 \<le> \<bar>c'\<bar> * 10 ^ (s - s')" by (intro mult_left_mono) auto
  then show ?thesis using canonical_shape [OF assms] by (simp add: abs_mult)
qed

lemma decimal_value_eq_iff:
  "decimal_value c s = decimal_value d t \<longleftrightarrow> c * 10 ^ t = d * 10 ^ s"
proof -
  have "decimal_value c s = decimal_value d t \<longleftrightarrow> (of_int (c * 10 ^ t) :: rat) = of_int (d * 10 ^ s)"
    by (simp add: decimal_value_def frac_eq_eq)
  then show ?thesis by (simp only: of_int_eq_iff)
qed

lemma decimal_value_less_iff:
  "decimal_value c s < decimal_value d t \<longleftrightarrow> c * 10 ^ t < d * 10 ^ s"
proof -
  have "decimal_value c s < decimal_value d t \<longleftrightarrow> (of_int (c * 10 ^ t) :: rat) < of_int (d * 10 ^ s)"
    by (simp add: decimal_value_def divide_less_eq less_divide_eq mult.commute mult.left_commute)
  then show ?thesis by (simp only: of_int_less_iff)
qed

lemma canonical_unique_aux:
  assumes "c * 10 ^ t = d * 10 ^ (s :: nat)" and "s < t" and "\<not> 10 dvd (d::int)"
  shows False
proof -
  have "c * 10 ^ (t - s) * 10 ^ s = d * 10 ^ s"
    using assms(1,2) by (simp add: mult.assoc flip: power_add)
  then have "d = c * 10 ^ (t - s)" by simp
  moreover have "10 dvd (10::int) ^ (t - s)" using assms(2) by (intro dvd_power) auto
  ultimately show False using assms(3) by (simp add: dvd_mult)
qed

lemma canonical_unique:
  assumes "decimal_value c s = decimal_value d t"
    and "s = 0 \<or> \<not> 10 dvd c" and "t = 0 \<or> \<not> 10 dvd d"
  shows "c = d \<and> s = t"
proof -
  have e: "c * 10 ^ t = d * 10 ^ s" using assms(1) by (simp add: decimal_value_eq_iff)
  have "\<not> s < t" using canonical_unique_aux [OF e] assms(3) by auto
  moreover have "\<not> t < s" using canonical_unique_aux [OF e [symmetric]] assms(2) by auto
  ultimately show ?thesis using e by simp
qed

lemma canonical_eq_iff:
  "canonical_decimal_value c s = canonical_decimal_value d t \<longleftrightarrow> decimal_value c s = decimal_value d t"
proof -
  obtain c' s' d' t' where cs: "canonical_decimal_value c s = (c', s')"
    and dt: "canonical_decimal_value d t = (d', t')" by (metis surj_pair)
  show ?thesis
    using canonical_value [OF cs] canonical_value [OF dt] canonical_shape [OF cs] canonical_shape [OF dt]
      canonical_unique [of c' s' d' t'] cs dt by auto
qed

section \<open>Ordering\<close>

lemma rcmp_simps [simp]:
  "rcmp a b = Less \<longleftrightarrow> a < b" "rcmp a b = Equal \<longleftrightarrow> a = b" "rcmp a b = Greater \<longleftrightarrow> b < a"
  by (auto simp: rcmp_def)

lemma rescaled_cases:
  "rescaled m k = (if 10 ^ k < (2::nat) ^ 128 \<and> m * 10 ^ k < 2 ^ 128 then Some (m * 10 ^ k) else None)"
  by (simp add: rescaled_def checked_u128_def in_unsigned_def)

lemma rescaled_None_large:
  assumes "rescaled m k = None" and "0 < m" and "n < 2 ^ 128"
  shows "n < m * 10 ^ k"
proof -
  have "10 ^ k \<le> m * 10 ^ k" using assms(2) by simp
  moreover have "\<not> (10 ^ k < (2::nat) ^ 128 \<and> m * 10 ^ k < 2 ^ 128)"
    using assms(1) unfolding rescaled_cases by (metis option.distinct(1))
  ultimately have "2 ^ 128 \<le> m * 10 ^ k" by linarith
  with assms(3) show ?thesis by (rule less_le_trans)
qed

lemma rescaled_SomeD: "rescaled m k = Some x \<Longrightarrow> x = m * 10 ^ k"
  unfolding rescaled_cases by (metis option.distinct(1) option.inject)

lemma rcmp_mult_right: "0 < k \<Longrightarrow> rcmp (a * k) (b * k) = rcmp a (b :: nat)"
  by (simp add: rcmp_def)

text \<open>Overflow of the rescaled magnitude never changes the answer.\<close>

lemma compare_decimal_magnitudes_correct:
  assumes "0 < l" "0 < r" "l < 2 ^ 128" "r < 2 ^ 128"
  shows "compare_decimal_magnitudes l ls r rs = rcmp (l * 10 ^ rs) (r * 10 ^ ls)"
proof (cases "rcmp ls rs")
  case Equal
  then have "ls = rs" by simp
  then show ?thesis
    by (simp add: compare_decimal_magnitudes_def rcmp_mult_right rcmp_def [of rs rs])
next
  case Greater
  then have e: "r * 10 ^ ls = r * 10 ^ (ls - rs) * 10 ^ rs" by (simp add: mult.assoc flip: power_add)
  have "compare_decimal_magnitudes l ls r rs = rcmp l (r * 10 ^ (ls - rs))"
  proof (cases "rescaled r (ls - rs)")
    case None
    from rescaled_None_large [OF None assms(2,3)] show ?thesis
      using Greater None by (simp add: compare_decimal_magnitudes_def rcmp_def)
  next
    case (Some x)
    then show ?thesis using rescaled_SomeD [OF Some]
      by (simp only: compare_decimal_magnitudes_def Greater rordering.case option.case)
  qed
  then show ?thesis unfolding e by (simp add: rcmp_mult_right)
next
  case Less
  then have e: "l * 10 ^ rs = l * 10 ^ (rs - ls) * 10 ^ ls" by (simp add: mult.assoc flip: power_add)
  have "compare_decimal_magnitudes l ls r rs = rcmp (l * 10 ^ (rs - ls)) r"
  proof (cases "rescaled l (rs - ls)")
    case None
    from rescaled_None_large [OF None assms(1,4)] show ?thesis
      using Less None by (simp add: compare_decimal_magnitudes_def rcmp_def)
  next
    case (Some x)
    then show ?thesis using rescaled_SomeD [OF Some]
      by (simp only: compare_decimal_magnitudes_def Less rordering.case option.case)
  qed
  then show ?thesis unfolding e by (simp add: rcmp_mult_right)
qed

lemma rcmp_nat_int: "rcmp (int a) (int b) = rcmp a b"
  by (simp add: rcmp_def)

lemma rcmp_uminus: "rcmp (- a) (- b) = rreverse (rcmp a (b :: int))"
  by (auto simp: rcmp_def)

lemma decimal_value_rcmp: "rcmp (decimal_value c s) (decimal_value d t) = rcmp (c * 10 ^ t) (d * 10 ^ s)"
  by (simp add: rcmp_def decimal_value_less_iff decimal_value_eq_iff)

lemma in_i128_nat_abs: "in_i128 c \<Longrightarrow> nat \<bar>c\<bar> < 2 ^ 128"
proof -
  assume "in_i128 c"
  then have "\<bar>c\<bar> \<le> 2 ^ 127" by (auto simp: in_signed_def)
  then have "nat \<bar>c\<bar> \<le> 2 ^ 127" by (simp add: nat_le_iff)
  also have "(2::nat) ^ 127 < 2 ^ 128" by simp
  finally show ?thesis .
qed

text \<open>The body of \<open>compare_decimal_values\<close> once both sides are canonical.\<close>

lemma compare_canonical:
  assumes "nat \<bar>lc\<bar> < 2 ^ 128" "nat \<bar>rc\<bar> < 2 ^ 128"
  shows "(let by_sign = rcmp (sgn lc) (sgn rc)
          in if by_sign \<noteq> Equal \<or> lc = 0 then by_sign
             else let by_magnitude = compare_decimal_magnitudes (nat \<bar>lc\<bar>) ls (nat \<bar>rc\<bar>) rs
                  in if lc < 0 then rreverse by_magnitude else by_magnitude)
         = rcmp (lc * 10 ^ rs) (rc * 10 ^ ls)" (is "?cmp = _")
proof -
  have p: "0 < (10::int) ^ k" for k by simp
  consider "lc = 0" | "sgn lc \<noteq> sgn rc" "lc \<noteq> 0" | "0 < lc" "0 < rc" | "lc < 0" "rc < 0"
    by (metis linorder_neqE sgn_0 sgn_greater sgn_less)
  then show ?thesis
  proof cases
    case 1
    then show ?thesis
      using p by (auto simp: Let_def rcmp_def sgn_if zero_less_mult_iff mult_less_0_iff)
  next
    case 2
    then have "?cmp = rcmp (sgn lc) (sgn rc)" by (simp add: Let_def)
    also have "\<dots> = rcmp (sgn (lc * 10 ^ rs)) (sgn (rc * 10 ^ ls))" by (simp add: sgn_mult)
    also have "\<dots> = rcmp (lc * 10 ^ rs) (rc * 10 ^ ls)"
    proof -
      have ne: "sgn (lc * 10 ^ rs) \<noteq> sgn (rc * 10 ^ ls)" using 2 by (simp add: sgn_mult)
      have gen: "sgn x \<noteq> sgn y \<Longrightarrow> rcmp (sgn x) (sgn y) = rcmp x y" for x y :: int
        by (auto simp: rcmp_def sgn_if split: if_splits)
      show ?thesis by (rule gen [OF ne])
    qed
    finally show ?thesis .
  next
    case 3
    then have "?cmp = rcmp (nat \<bar>lc\<bar> * 10 ^ rs) (nat \<bar>rc\<bar> * 10 ^ ls)"
      using assms by (simp add: Let_def compare_decimal_magnitudes_correct)
    also have "\<dots> = rcmp (int (nat \<bar>lc\<bar> * 10 ^ rs)) (int (nat \<bar>rc\<bar> * 10 ^ ls))"
      by (simp only: rcmp_nat_int)
    finally show ?thesis using 3 by simp
  next
    case 4
    then have "?cmp = rreverse (rcmp (nat \<bar>lc\<bar> * 10 ^ rs) (nat \<bar>rc\<bar> * 10 ^ ls))"
      using assms by (simp add: Let_def compare_decimal_magnitudes_correct)
    also have "\<dots> = rreverse (rcmp (int (nat \<bar>lc\<bar> * 10 ^ rs)) (int (nat \<bar>rc\<bar> * 10 ^ ls)))"
      by (simp only: rcmp_nat_int)
    also have "\<dots> = rcmp (- int (nat \<bar>lc\<bar> * 10 ^ rs)) (- int (nat \<bar>rc\<bar> * 10 ^ ls))"
      by (simp only: rcmp_uminus)
    finally show ?thesis using 4 by simp
  qed
qed

lemma compare_decimal_values_correct:
  assumes "in_i128 lc" "in_i128 rc"
  shows "compare_decimal_values lc ls rc rs = rcmp (decimal_value lc ls) (decimal_value rc rs)"
proof -
  obtain lc' ls' rc' rs' where l: "canonical_decimal_value lc ls = (lc', ls')"
    and r: "canonical_decimal_value rc rs = (rc', rs')" by (metis surj_pair)
  have "nat \<bar>lc'\<bar> < 2 ^ 128" "nat \<bar>rc'\<bar> < 2 ^ 128"
    using in_i128_nat_abs [OF assms(1)] in_i128_nat_abs [OF assms(2)]
      canonical_abs_le [OF l] canonical_abs_le [OF r] by (meson le_less_trans nat_mono)+
  from compare_canonical [OF this, of ls' rs']
  have "compare_decimal_values lc ls rc rs = rcmp (lc' * 10 ^ rs') (rc' * 10 ^ ls')"
    unfolding compare_decimal_values_def l r by (simp only: prod.case Let_def)
  then show ?thesis using canonical_value [OF l] canonical_value [OF r] by (simp add: decimal_value_rcmp)
qed

section \<open>Membership of a decimal type\<close>

lemma length_abs_digits_le: "0 < k \<Longrightarrow> length (abs_digits c) \<le> k \<longleftrightarrow> \<bar>c\<bar> < 10 ^ k"
  by (simp add: abs_digits_def length_show_nat_le nat_less_iff)

lemma decimal_value_fits_iff:
  "decimal_value_fits p s c ls \<longleftrightarrow>
     valid_decimal_type p s \<and> s < p \<and> ls \<le> s \<and> \<bar>c\<bar> < 10 ^ (p - s + ls)"
proof (cases "valid_decimal_type p s \<and> ls \<le> s \<and> s < p")
  case True
  then have "0 < p - s + ls" by simp
  from length_abs_digits_le [OF this, of c] show ?thesis
    using True by (auto simp: decimal_value_fits_def valid_decimal_type_def Let_def)
next
  case False
  then show ?thesis by (auto simp: decimal_value_fits_def valid_decimal_type_def Let_def)
qed

lemma decimal_values_iff:
  assumes "valid_decimal_type p s" and "s < p"
  shows "v \<in> decimal_values p s \<longleftrightarrow> \<bar>v\<bar> < 10 ^ (p - s) \<and> (\<exists>ls \<le> s. \<exists>c. v * 10 ^ ls = of_int c)"
proof -
  have "(\<exists>c. v = decimal_value c ls \<and> \<bar>c\<bar> < 10 ^ (p - s + ls)) \<longleftrightarrow>
        \<bar>v\<bar> < 10 ^ (p - s) \<and> (\<exists>c. v * 10 ^ ls = of_int c)" for ls
  proof -
    have "\<bar>c\<bar> < 10 ^ (p - s + ls) \<longleftrightarrow> \<bar>decimal_value c ls\<bar> < 10 ^ (p - s)" for c :: int
    proof -
      have "\<bar>decimal_value c ls\<bar> < 10 ^ (p - s) \<longleftrightarrow> (of_int \<bar>c\<bar> :: rat) < of_int (10 ^ (p - s + ls))"
        by (simp add: decimal_value_def divide_less_eq power_add)
      then show ?thesis by (simp only: of_int_less_iff)
    qed
    moreover have "v = decimal_value c ls \<longleftrightarrow> v * 10 ^ ls = of_int c" for c
      by (simp add: decimal_value_def eq_divide_eq)
    ultimately show ?thesis by metis
  qed
  then have "(\<exists>ls \<le> s. \<exists>c. v = decimal_value c ls \<and> \<bar>c\<bar> < 10 ^ (p - s + ls)) \<longleftrightarrow>
      \<bar>v\<bar> < 10 ^ (p - s) \<and> (\<exists>ls \<le> s. \<exists>c. v * 10 ^ ls = of_int c)"
    by blast
  then show ?thesis using assms unfolding decimal_values_def decimal_value_fits_iff by blast
qed

lemma decimal_widening_subset:
  assumes "valid_decimal_type sp ss" "ss < sp" "valid_decimal_type tp ts"
    and "decimal_type_losslessly_widens_to sp ss tp ts"
  shows "decimal_values sp ss \<subseteq> decimal_values tp ts"
proof
  have w: "sp - ss \<le> tp - ts" "ss \<le> ts"
    using assms(4) by (simp_all add: decimal_type_losslessly_widens_to_def)
  then have t: "ts < tp" using assms(2) by linarith
  fix v assume "v \<in> decimal_values sp ss"
  then have v: "\<bar>v\<bar> < 10 ^ (sp - ss)" "\<exists>ls \<le> ss. \<exists>c. v * 10 ^ ls = of_int c"
    using decimal_values_iff [OF assms(1,2)] by simp_all
  have "(10::rat) ^ (sp - ss) \<le> 10 ^ (tp - ts)" using w by (intro power_increasing) auto
  with v w(2) show "v \<in> decimal_values tp ts"
    unfolding decimal_values_iff [OF assms(3) t] by (meson less_le_trans order_trans)
qed

lemma decimal_subset_widening:
  assumes "valid_decimal_type sp ss" "ss < sp" "valid_decimal_type tp ts"
    and sub: "decimal_values sp ss \<subseteq> decimal_values tp ts"
  shows "decimal_type_losslessly_widens_to sp ss tp ts"
proof -
  have zero: "0 \<in> decimal_values sp ss" unfolding decimal_values_iff [OF assms(1,2)] by (auto intro!: exI [of _ 0])
  then have t: "ts < tp" using sub by (auto simp: decimal_values_def decimal_value_fits_iff)
  have p: "(1::rat) \<le> 10 ^ (sp - ss)" by simp
  have "of_int (10 ^ (sp - ss) - 1) \<in> decimal_values sp ss"
  proof -
    have "of_int (10 ^ (sp - ss) - 1) * 10 ^ 0 = (of_int (10 ^ (sp - ss) - 1) :: rat)" by simp
    moreover have "\<bar>of_int (10 ^ (sp - ss) - 1)\<bar> < (10::rat) ^ (sp - ss)" using p by simp
    ultimately show ?thesis unfolding decimal_values_iff [OF assms(1,2)] by blast
  qed
  then have "of_int (10 ^ (sp - ss) - 1) < (10::rat) ^ (tp - ts)"
    using sub decimal_values_iff [OF assms(3) t] by fastforce
  then have "(of_int (10 ^ (sp - ss) - 1) :: rat) < of_int (10 ^ (tp - ts))" by simp
  then have "(10::int) ^ (sp - ss) - 1 < 10 ^ (tp - ts)" by (simp only: of_int_less_iff)
  then have "(10::int) ^ (sp - ss) \<le> 10 ^ (tp - ts)" by linarith
  then have digits: "sp - ss \<le> tp - ts" by simp
  have "decimal_value 1 ss \<in> decimal_values sp ss"
  proof -
    have "(1::int) < 10 ^ (sp - ss + ss)" using assms(2) by (intro one_less_power) auto
    then have "decimal_value_fits sp ss 1 ss" using assms(1,2) by (simp add: decimal_value_fits_iff)
    then show ?thesis unfolding decimal_values_def by blast
  qed
  then have "decimal_value 1 ss \<in> decimal_values tp ts" using sub by blast
  then obtain c ls where "ls \<le> ts" and c: "decimal_value 1 ss = decimal_value c ls"
    unfolding decimal_values_def decimal_value_fits_iff by blast
  from c have e: "10 ^ ls = c * 10 ^ ss" by (simp add: decimal_value_eq_iff)
  then have "0 < c * 10 ^ ss" by (metis zero_less_numeral zero_less_power)
  then have "1 \<le> c" by (simp add: zero_less_mult_iff)
  then have "(10::int) ^ ss \<le> c * 10 ^ ss" by simp
  then have "ss \<le> ls" using e by (metis one_less_numeral_iff power_increasing_iff semiring_norm(76))
  with \<open>ls \<le> ts\<close> digits show ?thesis by (simp add: decimal_type_losslessly_widens_to_def)
qed

section \<open>Rendering and parsing\<close>

lemma split_once_absent: "d \<notin> set s \<Longrightarrow> split_once d s = None"
  by (induction s) auto

lemma split_once_first: "d \<notin> set a \<Longrightarrow> split_once d (a @ d # b) = Some (a, b)"
  by (induction a) auto

lemma str_bytes_len_digits: "list_all is_ascii_digit s \<Longrightarrow> str_bytes_len s = length s"
  by (induction s) (auto simp: is_ascii_digit_def len_utf8_def)

lemma all_digits_abs_digits [simp]: "all_digits (abs_digits c)"
  by (simp add: abs_digits_def)

lemma digits_value_abs_digits [simp]: "int (digits_value (abs_digits c)) = \<bar>c\<bar>"
  by (simp add: abs_digits_def)

definition sign_of :: "int \<Rightarrow> rstr" where
  "sign_of c = (if c < 0 then [45] else [])"

lemma show_int_sign: "show_int c = sign_of c @ abs_digits c"
  by (simp add: show_int_def sign_of_def abs_digits_def)

text \<open>A rendered decimal is a sign, its integer digits and, for a positive scale, its fraction.\<close>

lemma format_decimal_shape:
  assumes "0 < s"
  obtains i f where "format_decimal_value c s = sign_of c @ i @ 46 # f"
    and "all_digits i" and "all_digits f" and "length f = s" and "int (digits_value (i @ f)) = \<bar>c\<bar>"
proof (cases "length (abs_digits c) \<le> s")
  case True
  let ?f = "replicate (s - length (abs_digits c)) 48 @ abs_digits c"
  show ?thesis
  proof (rule that [of "[48]" ?f])
    show "format_decimal_value c s = sign_of c @ [48] @ 46 # ?f"
      using True assms by (simp add: format_decimal_value_def Let_def sign_of_def)
    show "all_digits ?f" using all_digits_abs_digits [of c]
      by (auto simp: all_digits_def list_all_iff is_ascii_digit_def)
    have "digits_value ([48] @ ?f) = digits_value (replicate (Suc (s - length (abs_digits c))) 48 @ abs_digits c)"
      by simp
    then show "int (digits_value ([48] @ ?f)) = \<bar>c\<bar>" by (simp only: digits_value_zeros digits_value_abs_digits)
  qed (use True in \<open>simp_all add: all_digits_def is_ascii_digit_def\<close>)
next
  case False
  let ?n = "length (abs_digits c) - s"
  show ?thesis
  proof (rule that [of "take ?n (abs_digits c)" "drop ?n (abs_digits c)"])
    show "format_decimal_value c s = sign_of c @ take ?n (abs_digits c) @ 46 # drop ?n (abs_digits c)"
      using False assms by (simp add: format_decimal_value_def Let_def sign_of_def)
    have "list_all is_ascii_digit (abs_digits c)" using all_digits_abs_digits [of c] by (simp only: all_digits_def)
    then show "all_digits (take ?n (abs_digits c))" "all_digits (drop ?n (abs_digits c))"
      using False assms by (auto simp: all_digits_def list_all_iff dest: in_set_takeD in_set_dropD)
  qed (use False assms in simp_all)
qed

lemma digits_not_special: "all_digits s \<Longrightarrow> c \<in> set s \<Longrightarrow> 48 \<le> c \<and> c \<le> 57"
  by (auto simp: all_digits_def list_all_iff is_ascii_digit_def)

lemma sign_of_set: "c' \<in> set (sign_of c) \<Longrightarrow> c' = 45"
  by (simp add: sign_of_def split: if_splits)

lemma parse_signed_sign_of:
  assumes "all_digits s" and "int (digits_value s) = \<bar>c\<bar>" and "in_signed w c"
  shows "parse_signed w (sign_of c @ s) = Some c"
  using assms by (simp add: sign_of_def parse_signed_digits parse_signed_neg_digits)

lemma parse_format_decimal:
  assumes "in_i128 c" and "in_unsigned 8 s"
  shows "parse_decimal_literal_body (format_decimal_value c s) =
    Some \<lparr>pd_coefficient = c, pd_literal_scale = s\<rparr>"
proof (cases "s = 0")
  case True
  let ?b = "sign_of c @ abs_digits c"
  have ne: "abs_digits c \<noteq> []" using all_digits_abs_digits [of c] unfolding all_digits_def by blast
  have "46 \<notin> set ?b" "101 \<notin> set ?b" "69 \<notin> set ?b"
    using digits_not_special [OF all_digits_abs_digits, of _ c] sign_of_set [of _ c] by fastforce+
  moreover have "parse_signed 128 ?b = Some c"
    by (rule parse_signed_sign_of) (simp_all add: assms(1))
  ultimately show ?thesis using True ne assms(2)
    by (simp add: parse_decimal_literal_body_def format_decimal_value_def show_int_sign split_once_absent)
next
  case False
  then obtain i f where fmt: "format_decimal_value c s = sign_of c @ i @ 46 # f"
    and i: "all_digits i" and f: "all_digits f" "length f = s" and v: "int (digits_value (i @ f)) = \<bar>c\<bar>"
    using format_decimal_shape [of s c] by auto
  let ?b = "(sign_of c @ i) @ 46 # f"
  have "46 \<notin> set (sign_of c @ i)" "101 \<notin> set ?b" "69 \<notin> set ?b"
    using digits_not_special [OF i] digits_not_special [OF f(1)] sign_of_set [of _ c] by fastforce+
  moreover have "parse_signed 128 (sign_of c @ (i @ f)) = Some c"
    by (rule parse_signed_sign_of) (use i f v assms(1) in \<open>auto simp: all_digits_def\<close>)
  moreover have "str_bytes_len f = s" "i \<noteq> []"
    using f i by (simp_all add: all_digits_def str_bytes_len_digits)
  ultimately have "parse_decimal_literal_body ?b = Some \<lparr>pd_coefficient = c, pd_literal_scale = s\<rparr>"
    using assms(2) split_once_first [of 46 "sign_of c @ i" f] by (simp add: parse_decimal_literal_body_def)
  then show ?thesis by (simp add: fmt)
qed

section \<open>Properties\<close>

text \<open>
  C14: \<open>Decimal128\<close> equality, ordering and hashing are those of the decimal's rational value:
  \<open>cmp\<close> is the comparison of the values although it works on 128-bit coefficients and gives up
  rescaling when that overflows, \<open>eq\<close> holds exactly for equal values (so exactly when \<open>cmp\<close> is
  \<open>Equal\<close>), and equal decimals feed the same bytes to every hasher.
\<close>
theorem decimal128_order_is_numeric:
  assumes "wf_decimal128 a" and "wf_decimal128 b"
  shows "decimal128_cmp a b = rcmp (decimal128_value a) (decimal128_value b)
    \<and> (decimal128_eq a b \<longleftrightarrow> decimal128_value a = decimal128_value b)
    \<and> decimal128_partial_cmp a b = Some (rcmp (decimal128_value a) (decimal128_value b))
    \<and> (decimal128_eq a b \<longrightarrow> decimal128_hash feed a st = decimal128_hash feed b st)"
  using compare_decimal_values_correct [of "coefficient a" "coefficient b" "scale a" "scale b"] assms
    canonical_eq_iff [of "coefficient a" "scale a" "coefficient b" "scale b"]
  unfolding decimal128_cmp_def decimal128_eq_def decimal128_partial_cmp_def decimal128_hash_def
      decimal128_value_def wf_decimal128_def by metis

theorem decimal128_order_is_numeric_witness:
  "decimal128_cmp (decimal128_new 149 2) (decimal128_new 15 1) = Less"
  using decimal128_order_is_numeric [of "decimal128_new 149 2" "decimal128_new 15 1" "\<lambda>_ s. s" "()"]
  by (simp add: decimal128_new_def wf_decimal128_def in_signed_def in_unsigned_def rcmp_def
      decimal128_value_def decimal_value_def)

text \<open>
  C32: Rendering a decimal and reading the text back gives the same coefficient and scale, with and
  without the \<open>d\<close> suffix of a literal, for every \<open>i128\<close> coefficient and \<open>u8\<close> scale.
\<close>
theorem decimal128_display_roundtrip:
  assumes "wf_decimal128 d"
  shows "decimal128_from_literal (decimal128_display d @ [100]) = Inr d
    \<and> decimal128_from_literal (decimal128_display d) = Inr d"
proof -
  have p: "parse_decimal_literal_body (decimal128_display d) =
      Some \<lparr>pd_coefficient = coefficient d, pd_literal_scale = scale d\<rparr>"
    using assms parse_format_decimal by (simp add: wf_decimal128_def decimal128_display_def)
  have "100 \<notin> set (decimal128_display d)"
  proof (cases "scale d = 0")
    case True
    then show ?thesis using digits_not_special [OF all_digits_abs_digits, of 100 "coefficient d"]
      by (auto simp: decimal128_display_def format_decimal_value_def show_int_sign dest: sign_of_set)
  next
    case False
    then obtain i f where "decimal128_display d = sign_of (coefficient d) @ i @ 46 # f"
      and "all_digits i" and "all_digits f"
      unfolding decimal128_display_def using format_decimal_shape by (metis neq0_conv)
    then show ?thesis using digits_not_special [of i 100] digits_not_special [of f 100]
      by (auto dest: sign_of_set)
  qed
  then have "strip_suffix [100] (decimal128_display d) = None"
    by (metis strip_suffix_Some_iff in_set_conv_decomp not_Some_eq)
  then show ?thesis by (simp add: decimal128_from_literal_def p decimal128_new_def)
qed

theorem decimal128_display_roundtrip_witness:
  "decimal128_from_literal (decimal128_display (decimal128_new (-5) 2) @ [100]) = Inr (decimal128_new (-5) 2)"
  using decimal128_display_roundtrip [of "decimal128_new (-5) 2"]
  by (simp add: decimal128_new_def wf_decimal128_def in_signed_def in_unsigned_def)

text \<open>
  The check \<open>decimal_type_losslessly_widens_to\<close> holds between two decimal types exactly when every value
  of the source type is a value of the target type.  A source with no digit before the point is
  excluded: \<open>decimal_value_fits\<close> admits no value to it at all.
\<close>
theorem decimal_widening_iff_inclusion:
  assumes "valid_decimal_type sp ss" and "valid_decimal_type tp ts" and "ss < sp"
  shows "decimal_type_losslessly_widens_to sp ss tp ts \<longleftrightarrow> decimal_values sp ss \<subseteq> decimal_values tp ts"
  using assms decimal_widening_subset decimal_subset_widening by blast

theorem decimal_widening_iff_inclusion_witness:
  "\<not> decimal_values 4 0 \<subseteq> decimal_values 4 3"
  using decimal_widening_iff_inclusion [of 4 0 4 3]
  by (simp add: valid_decimal_type_def decimal_type_losslessly_widens_to_def)

text \<open>
  A coefficient with a written scale is accepted for \<open>decimal[p, s]\<close> exactly when the type is
  well formed, leaves a digit before the point, keeps at least the written scale, and the
  magnitude has at most \<open>p - s\<close> integer digits; an accepted coefficient is far inside \<open>i128\<close>.
  In particular no value at all is accepted for \<open>decimal[p, p]\<close>, which the guard on the scale
  lets through.
\<close>
theorem decimal_value_fits_exact:
  "decimal_value_fits p s c ls \<longleftrightarrow>
     0 < p \<and> p \<le> 38 \<and> s < p \<and> ls \<le> s \<and> \<bar>decimal_value c ls\<bar> < 10 ^ (p - s)"
proof -
  have "\<bar>decimal_value c ls\<bar> < 10 ^ (p - s) \<longleftrightarrow> (of_int \<bar>c\<bar> :: rat) < of_int (10 ^ (p - s + ls))"
    by (simp add: decimal_value_def divide_less_eq power_add)
  then have "\<bar>decimal_value c ls\<bar> < 10 ^ (p - s) \<longleftrightarrow> \<bar>c\<bar> < 10 ^ (p - s + ls)"
    by (simp only: of_int_less_iff)
  then show ?thesis by (auto simp: decimal_value_fits_iff valid_decimal_type_def)
qed

end
