(* ===== verification/Numeric_Strings.thy ===== *)
theory Numeric_Strings
  imports Incan_Prelude
begin

text \<open>
  Numeric text: \<open>incan_lang/src/numeric_strings.rs\<close>.  Underscore separators are validated before they
  are removed; integers are then parsed by the standard library, floats by the standard library's
  \<open>f64\<close> parser, a parameter here.  A float is its IEEE 754 bit pattern, a \<open>64 word\<close>; the shortest
  round-trip rendering \<open>Debug for f64\<close> is a parameter as well.
\<close>

section \<open>Model\<close>

text \<open>
  The check of every underscore against its two neighbours; \<open>prev\<close> is the character before the
  suffix.  The source looks at bytes: a neighbouring byte is an ASCII digit exactly when the
  neighbouring character is one.
\<close>

fun separators_ok :: "scalar option \<Rightarrow> rstr \<Rightarrow> bool" where
  "separators_ok prev [] = True"
| "separators_ok prev (c # s) =
     ((c = 95 \<longrightarrow>
        (case prev of Some p \<Rightarrow> is_ascii_digit p | None \<Rightarrow> False)
        \<and> (case s of n # _ \<Rightarrow> is_ascii_digit n | [] \<Rightarrow> False))
      \<and> separators_ok (Some c) s)"

definition normalize_numeric_string :: "rstr \<Rightarrow> rstr option" where
  "normalize_numeric_string inp =
     (if 95 \<notin> set inp then Some inp
      else if \<not> separators_ok None inp then None
      else Some (filter (\<lambda>c. c \<noteq> 95) inp))"

definition parse_int_string :: "rstr \<Rightarrow> int option" where
  "parse_int_string inp = Option.bind (normalize_numeric_string inp) (parse_signed 64)"

type_synonym f64 = "64 word"

definition parse_float_string :: "(rstr \<Rightarrow> f64 option) \<Rightarrow> rstr \<Rightarrow> f64 option" where
  "parse_float_string parse_f64 inp = Option.bind (normalize_numeric_string inp) parse_f64"

definition f64_exponent :: "f64 \<Rightarrow> nat" where
  "f64_exponent v = unat v div 2 ^ 52 mod 2 ^ 11"

definition f64_mantissa :: "f64 \<Rightarrow> nat" where
  "f64_mantissa v = unat v mod 2 ^ 52"

definition is_nan :: "f64 \<Rightarrow> bool" where
  "is_nan v \<longleftrightarrow> f64_exponent v = 2047 \<and> f64_mantissa v \<noteq> 0"

definition is_infinite :: "f64 \<Rightarrow> bool" where
  "is_infinite v \<longleftrightarrow> f64_exponent v = 2047 \<and> f64_mantissa v = 0"

definition is_sign_negative :: "f64 \<Rightarrow> bool" where
  "is_sign_negative v \<longleftrightarrow> 2 ^ 63 \<le> unat v"

definition is_finite :: "f64 \<Rightarrow> bool" where
  "is_finite v \<longleftrightarrow> f64_exponent v \<noteq> 2047"

text \<open>\<open>{digits:0>2}\<close>: pad with zeros on the left to width two.\<close>

definition pad2 :: "rstr \<Rightarrow> rstr" where
  "pad2 d = replicate (2 - length d) 48 @ d"

fun split_at_char :: "scalar \<Rightarrow> rstr \<Rightarrow> (rstr \<times> rstr) option" where
  "split_at_char d [] = None"
| "split_at_char d (c # s) =
     (if c = d then Some ([], s) else map_option (\<lambda>(a, b). (c # a, b)) (split_at_char d s))"

definition float_to_string :: "(f64 \<Rightarrow> rstr) \<Rightarrow> f64 \<Rightarrow> rstr" where
  "float_to_string debug v =
     (if is_nan v then lit ''nan''
      else if is_infinite v then (if is_sign_negative v then lit ''-inf'' else lit ''inf'')
      else case split_at_char 101 (debug v) of
             None \<Rightarrow> debug v
           | Some (mantissa, exponent) \<Rightarrow>
               (let (sign, digits) = (case strip_prefix [45] exponent of
                                        Some digits \<Rightarrow> (45, digits) | None \<Rightarrow> (43, exponent))
                in mantissa @ [101, sign] @ pad2 digits))"

section \<open>Separators\<close>

definition ends_digit :: "rstr \<Rightarrow> bool" where
  "ends_digit a \<longleftrightarrow> a \<noteq> [] \<and> is_ascii_digit (last a)"

definition starts_digit :: "rstr \<Rightarrow> bool" where
  "starts_digit b \<longleftrightarrow> b \<noteq> [] \<and> is_ascii_digit (hd b)"

lemma digit_not_underscore: "is_ascii_digit c \<Longrightarrow> c \<noteq> 95"
  by (simp add: is_ascii_digit_def)

text \<open>Only the neighbours of an underscore matter, so a digit boundary may carry a separator.\<close>

lemma separators_ok_insert:
  "ends_digit a \<Longrightarrow> starts_digit b \<Longrightarrow> separators_ok p (a @ 95 # b) = separators_ok p (a @ b)"
proof (induction a arbitrary: p)
  case (Cons c a)
  show ?case
  proof (cases a)
    case Nil
    obtain n b' where b: "b = n # b'" "is_ascii_digit n"
      using Cons.prems(2) by (cases b) (auto simp: starts_digit_def)
    have "is_ascii_digit c" using Cons.prems(1) Nil by (simp add: ends_digit_def)
    then show ?thesis using b Nil digit_not_underscore [of c] digit_not_underscore [of n] by simp
  next
    case a: (Cons d a')
    then have "ends_digit a" using Cons.prems(1) by (simp add: ends_digit_def)
    then have "separators_ok (Some c) (a @ 95 # b) = separators_ok (Some c) (a @ b)"
      by (rule Cons.IH) (rule Cons.prems(2))
    then show ?thesis by (simp add: a)
  qed
qed (simp add: ends_digit_def)

lemma separators_ok_plain: "95 \<notin> set s \<Longrightarrow> separators_ok p s"
  by (induction s arbitrary: p) auto

lemma normalize_unfold:
  "normalize_numeric_string s = (if separators_ok None s then Some (filter (\<lambda>c. c \<noteq> 95) s) else None)"
proof (cases "95 \<in> set s")
  case False
  then have "filter (\<lambda>c. c \<noteq> 95) s = s" by (metis (mono_tags, lifting) filter_True)
  with False show ?thesis by (simp add: normalize_numeric_string_def separators_ok_plain)
qed (simp add: normalize_numeric_string_def)

lemma show_int_chars: "c \<in> set (show_int i) \<Longrightarrow> c \<noteq> 95"
  using show_nat_digits [of "nat i"] show_nat_digits [of "nat (- i)"]
  by (auto simp: show_int_def list_all_iff is_ascii_digit_def split: if_splits)

section \<open>Properties\<close>

text \<open>
  Integer text is read back from its rendering, and an underscore placed between two digits of
  any text never changes whether or as what it parses; one at either end, doubled, or next to a
  sign or any other non-digit makes the whole text invalid.
\<close>
theorem int_string_separators:
  "(in_i64 i \<longrightarrow> parse_int_string (show_int i) = Some i)
   \<and> (ends_digit a \<and> starts_digit b \<longrightarrow> parse_int_string (a @ 95 # b) = parse_int_string (a @ b))
   \<and> (\<not> (ends_digit a \<and> starts_digit b) \<longrightarrow> parse_int_string (a @ 95 # b) = None)"
proof -
  have "parse_int_string (show_int i) = Some i" if "in_i64 i"
  proof -
    have "95 \<notin> set (show_int i)" using show_int_chars by blast
    then show ?thesis using that
      by (simp add: parse_int_string_def normalize_numeric_string_def parse_signed_show_int)
  qed
  moreover have "parse_int_string (a @ 95 # b) = parse_int_string (a @ b)" if "ends_digit a" "starts_digit b"
    using separators_ok_insert [OF that] by (simp add: parse_int_string_def normalize_unfold)
  moreover have "\<not> separators_ok p (a @ 95 # b)" if "\<not> (ends_digit a \<and> starts_digit b)" "a = [] \<Longrightarrow> p = None" for p
    using that
  proof (induction a arbitrary: p)
    case Nil
    then show ?case by simp
  next
    case (Cons c a)
    show ?case
    proof (cases a)
      case Nil
      then have "\<not> is_ascii_digit c \<or> \<not> starts_digit b" using Cons.prems(1) by (simp add: ends_digit_def)
      then show ?thesis using Nil by (cases b) (auto simp: starts_digit_def)
    next
      case a: (Cons d a')
      then have "\<not> (ends_digit a \<and> starts_digit b)" using Cons.prems(1) by (auto simp: ends_digit_def)
      then have "\<not> separators_ok (Some c) (a @ 95 # b)" by (rule Cons.IH) (simp add: a)
      then show ?thesis by simp
    qed
  qed
  ultimately show ?thesis by (simp add: parse_int_string_def normalize_unfold)
qed

theorem int_string_separators_witness:
  "parse_int_string (lit ''1_000'') = Some 1000 \<and> parse_int_string (lit ''1__0'') = None
   \<and> parse_int_string (show_int (-7)) = Some (-7)"
proof -
  have "parse_int_string (lit ''1_000'') = parse_int_string (lit ''1000'')"
    using int_string_separators [of 0 "lit ''1''" "lit ''000''"]
    by (simp add: ends_digit_def starts_digit_def is_ascii_digit_def)
  moreover have "parse_int_string (lit ''1000'') = Some 1000"
    by (simp add: parse_int_string_def normalize_numeric_string_def parse_signed_def all_digits_def
        is_ascii_digit_def digits_value_def width_simps)
  moreover have "parse_int_string (lit ''1__0'') = None"
    using int_string_separators [of 0 "lit ''1''" "lit ''_0''"]
    by (simp add: ends_digit_def starts_digit_def is_ascii_digit_def)
  moreover have "parse_int_string (show_int (-7)) = Some (-7)"
    using int_string_separators [of "-7" "[]" "[]"] by (simp add: width_simps)
  ultimately show ?thesis by simp
qed

end
