(* ===== verification/Sequences.thy ===== *)
theory Sequences
  imports Incan_Errors
begin

text \<open>
  Indexing, slicing and iteration over sequences: \<open>incan_lang/src/indexing.rs\<close>, the list and dict
  helpers of \<open>stdlib/core/rust/src/collections.rs\<close> and the range and batch iterators of
  \<open>stdlib/core/rust/src/iter.rs\<close>.

  A slice or range is characterised by the set of positions it visits; the walks add the step to
  an \<open>i64\<close> after every element, also after the last, so the overflow mode of the build is a
  parameter and the theorems name the inputs on which the addition stays in range.
\<close>

section \<open>Index normalisation\<close>

definition normalize_index :: "nat \<Rightarrow> int \<Rightarrow> nat option" where
  "normalize_index len idx =
     (if len = 0 then None
      else let i = (if idx < 0 then idx + int len else idx)
           in if i < 0 \<or> i \<ge> int len then None else Some (nat i))"

definition normalize_list_index :: "nat \<Rightarrow> int \<Rightarrow> nat outcome" where
  "normalize_list_index len index =
     (let i = (if index < 0 then index + int len else index)
      in if i < 0 \<or> i \<ge> int len
         then raise_error (index_out_of_range_for (lit ''list'') index len)
         else Inr (nat i))"

text \<open>The contract of Python indexing that both normalisers implement.\<close>

locale python_index =
  fixes norm :: "nat \<Rightarrow> int \<Rightarrow> nat option"
  assumes norm_nonneg: "0 \<le> i \<Longrightarrow> i < int n \<Longrightarrow> norm n i = Some (nat i)"
    and norm_neg: "- int n \<le> i \<Longrightarrow> i < 0 \<Longrightarrow> norm n i = Some (nat (int n + i))"
    and norm_out: "i < - int n \<or> int n \<le> i \<Longrightarrow> norm n i = None"
begin

lemma norm_Some_iff: "norm n i = Some k \<longleftrightarrow> k < n \<and> (i = int k \<or> i = int k - int n)"
proof -
  consider "0 \<le> i" "i < int n" | "- int n \<le> i" "i < 0" | "i < - int n \<or> int n \<le> i" by linarith
  then show ?thesis
  proof cases
    case 1
    then show ?thesis using norm_nonneg [OF 1] by auto
  next
    case 2
    then show ?thesis using norm_neg [OF 2] by auto
  next
    case 3
    then show ?thesis using norm_out [OF 3] by auto
  qed
qed

lemma norm_in_range: "norm n i = Some k \<Longrightarrow> k < n"
  by (simp add: norm_Some_iff)

lemma norm_None_iff: "norm n i = None \<longleftrightarrow> i < - int n \<or> int n \<le> i"
proof -
  consider "0 \<le> i" "i < int n" | "- int n \<le> i" "i < 0" | "i < - int n \<or> int n \<le> i" by linarith
  then show ?thesis by cases (auto simp: norm_nonneg norm_neg norm_out)
qed

end

interpretation str_ix: python_index normalize_index
  by unfold_locales (auto simp: normalize_index_def Let_def ac_simps)

definition outcome_value :: "'a outcome \<Rightarrow> 'a option" where
  "outcome_value r = (case r of Inl _ \<Rightarrow> None | Inr v \<Rightarrow> Some v)"

interpretation list_ix: python_index "\<lambda>n i. outcome_value (normalize_list_index n i)"
  by unfold_locales
    (auto simp: normalize_list_index_def Let_def outcome_value_def raise_defs ac_simps)

lemma outcome_value_simps [simp]:
  "outcome_value (Inl e) = None" "outcome_value (Inr v) = Some v"
  by (simp_all add: outcome_value_def)

lemma outcome_value_Some: "outcome_value r = Some v \<longleftrightarrow> r = Inr v"
  by (cases r) auto

lemma normalize_list_index_Inr_iff:
  "normalize_list_index n i = Inr k \<longleftrightarrow> k < n \<and> (i = int k \<or> i = int k - int n)"
  using list_ix.norm_Some_iff by (simp add: outcome_value_Some)

lemma normalize_list_index_error:
  "i < - int n \<or> int n \<le> i \<Longrightarrow>
   normalize_list_index n i = Inl (Raise (index_out_of_range_for (lit ''list'') i n))"
  by (auto simp: normalize_list_index_def Let_def raise_defs)

section \<open>List and dict helpers\<close>

definition bind_outcome :: "'a outcome \<Rightarrow> ('a \<Rightarrow> 'b outcome) \<Rightarrow> 'b outcome" where
  "bind_outcome r f = (case r of Inl e \<Rightarrow> Inl e | Inr v \<Rightarrow> f v)"

lemma bind_outcome_simps [simp]:
  "bind_outcome (Inl e) f = Inl e" "bind_outcome (Inr v) f = f v"
  by (simp_all add: bind_outcome_def)

definition list_get :: "'a list \<Rightarrow> int \<Rightarrow> 'a outcome" where
  "list_get xs index = bind_outcome (normalize_list_index (length xs) index) (\<lambda>i. Inr (xs ! i))"

text \<open>\<open>*list_get_mut(xs, index) = v\<close>: the element reference, written through.\<close>

definition list_get_mut :: "'a list \<Rightarrow> int \<Rightarrow> 'a \<Rightarrow> 'a list outcome" where
  "list_get_mut xs index v = bind_outcome (normalize_list_index (length xs) index) (\<lambda>i. Inr (xs[i := v]))"

definition list_remove :: "'a list \<Rightarrow> int \<Rightarrow> 'a list outcome" where
  "list_remove xs index =
     bind_outcome (normalize_list_index (length xs) index) (\<lambda>i. Inr (take i xs @ drop (Suc i) xs))"

definition list_swap :: "'a list \<Rightarrow> int \<Rightarrow> int \<Rightarrow> 'a list outcome" where
  "list_swap xs left right =
     bind_outcome (normalize_list_index (length xs) left) (\<lambda>l.
       bind_outcome (normalize_list_index (length xs) right) (\<lambda>r.
         Inr (xs[l := xs ! r, r := xs ! l])))"

definition list_concat :: "'a list \<Rightarrow> 'a list \<Rightarrow> 'a list" where
  "list_concat lhs rhs = [] @ lhs @ rhs"

definition list_extend :: "'a list \<Rightarrow> 'a list \<Rightarrow> 'a list" where
  "list_extend lhs rhs = lhs @ rhs"

definition list_repeat :: "'a \<Rightarrow> int \<Rightarrow> 'a list outcome" where
  "list_repeat v n =
     (if n < 0 then raise_value_error (lit ''list.repeat count must be non-negative, got '' @ show_int n)
      else Inr (replicate (nat n) v))"

definition list_count :: "'a list \<Rightarrow> 'a \<Rightarrow> int" where
  "list_count xs v = int (length (filter (\<lambda>x. x = v) xs))"

definition list_contains :: "'a list \<Rightarrow> 'a \<Rightarrow> bool" where
  "list_contains xs v \<longleftrightarrow> list_ex (\<lambda>x. x = v) xs"

definition list_not_contains :: "'a list \<Rightarrow> 'a \<Rightarrow> bool" where
  "list_not_contains xs v \<longleftrightarrow> \<not> list_ex (\<lambda>x. x = v) xs"

definition list_pop :: "'a list \<Rightarrow> ('a \<times> 'a list) outcome" where
  "list_pop xs = (if xs = [] then raise_error list_pop_empty else Inr (last xs, butlast xs))"

definition list_min :: "'a::linorder list \<Rightarrow> 'a outcome" where
  "list_min xs = (case xs of [] \<Rightarrow> raise_value_error (lit ''min() arg is an empty sequence'')
                           | x # ys \<Rightarrow> Inr (foldl (\<lambda>m y. if y < m then y else m) x ys))"

definition list_max :: "'a::linorder list \<Rightarrow> 'a outcome" where
  "list_max xs = (case xs of [] \<Rightarrow> raise_value_error (lit ''max() arg is an empty sequence'')
                           | x # ys \<Rightarrow> Inr (foldl (\<lambda>m y. if y \<ge> m then y else m) x ys))"

text \<open>\<open>Iterator::position\<close>.\<close>

fun position :: "('a \<Rightarrow> bool) \<Rightarrow> 'a list \<Rightarrow> nat option" where
  "position P [] = None"
| "position P (x # xs) = (if P x then Some 0 else map_option Suc (position P xs))"

definition list_index :: "'a list \<Rightarrow> 'a \<Rightarrow> int outcome" where
  "list_index xs v =
     (case position (\<lambda>x. x = v) xs of
        Some i \<Rightarrow> Inr (int i) | None \<Rightarrow> raise_error list_value_not_found)"

text \<open>A \<open>HashMap\<close> is a finite map; the raised \<open>KeyError\<close> carries the key's \<open>Display\<close> text.\<close>

definition dict_get :: "('k \<Rightarrow> rstr) \<Rightarrow> ('k \<rightharpoonup> 'v) \<Rightarrow> 'k \<Rightarrow> 'v outcome" where
  "dict_get display m key = (case m key of Some v \<Rightarrow> Inr v | None \<Rightarrow> Inl (RaiseKey (display key)))"

definition dict_get_mut :: "('k \<Rightarrow> rstr) \<Rightarrow> ('k \<rightharpoonup> 'v) \<Rightarrow> 'k \<Rightarrow> ('v \<Rightarrow> 'v) \<Rightarrow> ('k \<rightharpoonup> 'v) outcome" where
  "dict_get_mut display m key f =
     (case m key of Some v \<Rightarrow> Inr (m(key \<mapsto> f v)) | None \<Rightarrow> Inl (RaiseKey (display key)))"

definition dict_contains_key :: "('k \<rightharpoonup> 'v) \<Rightarrow> 'k \<Rightarrow> bool" where
  "dict_contains_key m key \<longleftrightarrow> m key \<noteq> None"

definition dict_not_contains_key :: "('k \<rightharpoonup> 'v) \<Rightarrow> 'k \<Rightarrow> bool" where
  "dict_not_contains_key m key \<longleftrightarrow> \<not> dict_contains_key m key"

section \<open>Slices\<close>

definition clamp :: "int \<Rightarrow> int \<Rightarrow> int \<Rightarrow> int" where
  "clamp x lo hi = (if x < lo then lo else if x > hi then hi else x)"

definition normalize_slice_bounds :: "int \<Rightarrow> int option \<Rightarrow> int option \<Rightarrow> int \<Rightarrow> int \<times> int" where
  "normalize_slice_bounds len start end_opt step =
     (let default_start = (if step > 0 then 0 else len - 1);
          default_end = (if step > 0 then len else -1);
          start_idx = (case start of Some i \<Rightarrow> i | None \<Rightarrow> default_start);
          end_idx = (case end_opt of Some i \<Rightarrow> i | None \<Rightarrow> default_end);
          start_idx = (if start_idx < 0 then start_idx + len else start_idx);
          end_idx = (if end_opt \<noteq> None \<and> end_idx < 0 then end_idx + len else end_idx)
      in if step > 0 then (clamp start_idx 0 len, clamp end_idx 0 len)
         else (clamp start_idx (-1) (len - 1), clamp end_idx (-1) (len - 1)))"

text \<open>\<open>list.get(i as usize)\<close>: a negative \<open>i\<close> becomes a huge \<open>usize\<close> and is out of range.\<close>

definition get_at :: "'a list \<Rightarrow> int \<Rightarrow> 'a list" where
  "get_at xs i = (if 0 \<le> i \<and> i < int (length xs) then [xs ! nat i] else [])"

definition overflow_panic :: panic where
  "overflow_panic = RustPanic (lit ''attempt to add with overflow'')"

text \<open>
  The two \<open>while\<close> loops of a slice; the result is \<open>None\<close> exactly when the loop does not end, which
  only a wrapping addition could cause.
\<close>

partial_function (option) slice_walk ::
  "overflow_mode \<Rightarrow> 'a list \<Rightarrow> int \<Rightarrow> int \<Rightarrow> int \<Rightarrow> 'a list \<Rightarrow> 'a list outcome option" where
  "slice_walk md xs step end_idx i out =
     (if (if step > 0 then i < end_idx else i > end_idx)
      then (case add_signed md 64 i step of
              None \<Rightarrow> Some (Inl overflow_panic)
            | Some i' \<Rightarrow> slice_walk md xs step end_idx i' (out @ get_at xs i))
      else Some (Inr out))"

definition list_slice ::
  "overflow_mode \<Rightarrow> 'a list \<Rightarrow> int option \<Rightarrow> int option \<Rightarrow> int option \<Rightarrow> 'a list outcome option" where
  "list_slice md xs start end_opt step_opt =
     (let step = (case step_opt of Some s \<Rightarrow> s | None \<Rightarrow> 1)
      in if step = 0 then Some (raise_error slice_step_zero)
         else let len = int (length xs);
                  (start_idx, end_idx) = normalize_slice_bounds len start end_opt step
              in slice_walk md xs step end_idx start_idx [])"

section \<open>Ranges and batches\<close>

record PyRange =
  cur :: int
  range_end :: int
  range_step :: int

definition range_done :: "PyRange \<Rightarrow> bool" where
  "range_done r \<longleftrightarrow> (if range_step r > 0 then cur r \<ge> range_end r else cur r \<le> range_end r)"

definition range_next :: "overflow_mode \<Rightarrow> PyRange \<Rightarrow> (int option \<times> PyRange) outcome" where
  "range_next md r =
     (if range_done r then Inr (None, r)
      else case add_signed md 64 (cur r) (range_step r) of
             None \<Rightarrow> Inl overflow_panic
           | Some c \<Rightarrow> Inr (Some (cur r), r\<lparr>cur := c\<rparr>))"

definition range_new :: "int \<Rightarrow> int \<Rightarrow> int \<Rightarrow> PyRange outcome" where
  "range_new start end_v step =
     (if step = 0 then raise_error range_step_zero
      else Inr \<lparr>cur = start, range_end = end_v, range_step = step\<rparr>)"

text \<open>A \<open>for\<close> loop over the iterator, collecting what it yields.\<close>

partial_function (option) range_collect :: "overflow_mode \<Rightarrow> PyRange \<Rightarrow> int list \<Rightarrow> int list outcome option" where
  "range_collect md r acc =
     (case range_next md r of
        Inl e \<Rightarrow> Some (Inl e)
      | Inr (None, r') \<Rightarrow> Some (Inr acc)
      | Inr (Some v, r') \<Rightarrow> range_collect md r' (acc @ [v]))"

definition nonnegative_count :: "int \<Rightarrow> nat" where
  "nonnegative_count n = (if n \<le> 0 then 0 else nat n)"

text \<open>\<open>Batch\<close> over an iterator, given by the items it has left.\<close>

record 'a Batch =
  batch_iter :: "'a list"
  batch_size :: nat

fun batch_fill :: "nat \<Rightarrow> 'a list \<Rightarrow> 'a list \<Rightarrow> 'a list \<times> 'a list" where
  "batch_fill 0 it items = (items, it)"
| "batch_fill (Suc n) [] items = (items, [])"
| "batch_fill (Suc n) (x # it) items = batch_fill n it (items @ [x])"

definition batch_next :: "'a Batch \<Rightarrow> 'a list option \<times> 'a Batch" where
  "batch_next b =
     (let (items, it) = batch_fill (batch_size b) (batch_iter b) []
      in (if items = [] then None else Some items, b\<lparr>batch_iter := it\<rparr>))"

definition batch :: "'a list \<Rightarrow> int \<Rightarrow> 'a Batch outcome" where
  "batch it n =
     (if n \<le> 0 then raise_value_error (lit ''iterator batch size must be greater than zero'')
      else Inr \<lparr>batch_iter = it, batch_size = nat n\<rparr>)"

lemma batch_fill_eq: "batch_fill n it items = (items @ take n it, drop n it)"
  by (induction n it items rule: batch_fill.induct) auto

function batch_collect :: "'a Batch \<Rightarrow> 'a list list" where
  "batch_collect b =
     (case batch_next b of (None, b') \<Rightarrow> [] | (Some items, b') \<Rightarrow> items # batch_collect b')"
  by pat_completeness auto
termination
  by (relation "measure (\<lambda>b. length (batch_iter b))")
    (auto simp: batch_next_def batch_fill_eq Let_def split: if_splits)

section \<open>Positions visited by a walk\<close>

definition up_positions :: "int \<Rightarrow> int \<Rightarrow> int \<Rightarrow> int list" where
  "up_positions i e step = filter (\<lambda>j. step dvd j - i) [i..e - 1]"

definition down_positions :: "int \<Rightarrow> int \<Rightarrow> int \<Rightarrow> int list" where
  "down_positions i e step = rev (filter (\<lambda>j. step dvd i - j) [e + 1..i])"

lemma sorted_upto_filter: "sorted_wrt (<) (filter P [i..j])"
  by (rule sorted_wrt_filter) (rule sorted_wrt_upto)

lemma up_positions_empty [simp]: "e \<le> i \<Longrightarrow> up_positions i e step = []"
  by (simp add: up_positions_def)

lemma down_positions_empty [simp]: "i \<le> e \<Longrightarrow> down_positions i e step = []"
  by (simp add: down_positions_def)

lemma up_positions_step:
  assumes "0 < step" and "i < e"
  shows "up_positions i e step = i # up_positions (i + step) e step"
proof (rule strict_sorted_equal)
  show "sorted_wrt (<) (up_positions i e step)"
    by (simp add: up_positions_def sorted_upto_filter)
  show "sorted_wrt (<) (i # up_positions (i + step) e step)"
    using assms by (auto simp: up_positions_def sorted_upto_filter)
  have "step dvd j - i \<longleftrightarrow> step dvd j - (i + step)" for j
  proof -
    have "j - i = (j - (i + step)) + step" by simp
    then show ?thesis by (metis dvd_add_triv_right_iff)
  qed
  moreover have "i + step \<le> j" if "step dvd j - i" "i < j" for j
    using zdvd_imp_le [OF that(1)] that(2) by simp
  ultimately show "set (up_positions i e step) = set (i # up_positions (i + step) e step)"
    using assms by (fastforce simp: up_positions_def)
qed

lemma down_positions_step:
  assumes "step < 0" and "e < i"
  shows "down_positions i e step = i # down_positions (i + step) e step"
proof -
  have "filter (\<lambda>j. step dvd i - j) [e + 1..i] = filter (\<lambda>j. step dvd (i + step) - j) [e + 1..i + step] @ [i]"
  proof (rule strict_sorted_equal)
    show "sorted_wrt (<) (filter (\<lambda>j. step dvd i - j) [e + 1..i])" by (rule sorted_upto_filter)
    show "sorted_wrt (<) (filter (\<lambda>j. step dvd (i + step) - j) [e + 1..i + step] @ [i])"
      using assms by (auto simp: sorted_wrt_append sorted_upto_filter)
    have "step dvd i - j \<longleftrightarrow> step dvd (i + step) - j" for j
    proof -
      have "(i + step) - j = (i - j) + step" by simp
      then show ?thesis by (metis dvd_add_triv_right_iff)
    qed
    moreover have "j \<le> i + step" if "step dvd i - j" "j < i" for j
      using zdvd_imp_le [of "- step" "i - j"] that by simp
    ultimately show "set (filter (\<lambda>j. step dvd i - j) [e + 1..i]) =
        set (filter (\<lambda>j. step dvd (i + step) - j) [e + 1..i + step] @ [i])"
      using assms by fastforce
  qed
  then show ?thesis by (simp add: down_positions_def)
qed

definition positions :: "int \<Rightarrow> int \<Rightarrow> int \<Rightarrow> int list" where
  "positions i e step = (if 0 < step then up_positions i e step else down_positions i e step)"

text \<open>A walk whose last addition stays in range visits exactly its positions and stops.\<close>

lemma slice_walk_up:
  assumes "0 < step" "0 \<le> i" "e \<le> int (length xs)" "e - 1 + step < 2 ^ 63"
  shows "slice_walk md xs step e i out = Some (Inr (out @ map (\<lambda>j. xs ! nat j) (up_positions i e step)))"
  using assms(2)
proof (induction "nat (e - i)" arbitrary: i out rule: less_induct)
  case less
  show ?case
  proof (cases "i < e")
    case True
    then have "in_i64 (i + step)" using less.prems assms by (simp add: width_simps)
    moreover have "nat (e - (i + step)) < nat (e - i)" using True assms(1) by simp
    ultimately show ?thesis
      using True less.prems assms less.hyps [of "i + step" "out @ get_at xs i"]
      by (subst slice_walk.simps) (simp add: up_positions_step get_at_def)
  next
    case False
    then show ?thesis using assms(1) by (subst slice_walk.simps) simp
  qed
qed

lemma slice_walk_down:
  assumes "step < 0" "i < int (length xs)" "- 1 \<le> e" "in_i64 step" "int (length xs) < 2 ^ 63"
  shows "slice_walk md xs step e i out = Some (Inr (out @ map (\<lambda>j. xs ! nat j) (down_positions i e step)))"
  using assms(2)
proof (induction "nat (i - e)" arbitrary: i out rule: less_induct)
  case less
  show ?case
  proof (cases "e < i")
    case True
    then have "in_i64 (i + step)" using less.prems assms by (simp add: width_simps)
    moreover have "nat (i + step - e) < nat (i - e)" using True assms(1) by simp
    ultimately show ?thesis
      using True less.prems assms less.hyps [of "i + step" "out @ get_at xs i"]
      by (subst slice_walk.simps) (simp add: down_positions_step get_at_def)
  next
    case False
    then show ?thesis using assms(1) by (subst slice_walk.simps) simp
  qed
qed

lemma range_collect_positions:
  assumes "range_step r \<noteq> 0" "in_i64 (cur r)" "in_i64 (range_end r)" "in_i64 (range_step r)"
    and "0 < range_step r \<longrightarrow> in_i64 (range_end r - 1 + range_step r)"
    and "range_step r < 0 \<longrightarrow> in_i64 (range_end r + 1 + range_step r)"
  shows "range_collect md r acc = Some (Inr (acc @ positions (cur r) (range_end r) (range_step r)))"
  using assms
proof (induction "nat \<bar>range_end r - cur r\<bar>" arbitrary: r acc rule: less_induct)
  case less
  show ?case
  proof (cases "range_done r")
    case True
    then show ?thesis
      using less.prems(1) by (subst range_collect.simps)
        (auto simp: range_next_def range_done_def positions_def split: if_splits)
  next
    case False
    let ?r = "r\<lparr>cur := cur r + range_step r\<rparr>"
    have in_r: "in_i64 (cur r + range_step r)"
      using False less.prems by (auto simp: range_done_def width_simps split: if_splits)
    have pos: "positions (cur r) (range_end r) (range_step r) = cur r # positions (cur ?r) (range_end ?r) (range_step ?r)"
      using False less.prems(1) up_positions_step down_positions_step
      by (auto simp: range_done_def positions_def split: if_splits)
    have step: "range_collect md r acc = range_collect md ?r (acc @ [cur r])"
      using False in_r by (subst range_collect.simps) (simp add: range_next_def)
    show ?thesis
    proof (cases "range_done ?r")
      case True
      then show ?thesis
        unfolding step pos using less.prems(1) by (subst range_collect.simps)
          (auto simp: range_next_def range_done_def positions_def split: if_splits)
    next
      case nd: False
      have "nat \<bar>range_end ?r - cur ?r\<bar> < nat \<bar>range_end r - cur r\<bar>"
        using False nd less.prems(1) by (auto simp: range_done_def split: if_splits)
      from less.hyps [OF this, of "acc @ [cur r]"] show ?thesis
        unfolding step pos using less.prems in_r by simp
    qed
  qed
qed

section \<open>Slices in terms of their bounds\<close>

definition slice_step :: "int option \<Rightarrow> int" where
  "slice_step step_opt = (case step_opt of Some s \<Rightarrow> s | None \<Rightarrow> 1)"

text \<open>The walk never overflows: only a positive step beyond the last position could.\<close>

definition step_in_range :: "nat \<Rightarrow> int \<Rightarrow> bool" where
  "step_in_range len step \<longleftrightarrow> step \<noteq> 0 \<and> in_i64 step \<and> int len < 2 ^ 63 \<and> int len - 1 + step < 2 ^ 63"

lemma clamp_bounds: "lo \<le> hi \<Longrightarrow> lo \<le> clamp x lo hi \<and> clamp x lo hi \<le> hi"
  by (simp add: clamp_def)

lemma normalize_slice_bounds_up:
  assumes "normalize_slice_bounds (int n) start end_opt step = (s, e)" and "0 < step"
  shows "0 \<le> s \<and> s \<le> int n \<and> 0 \<le> e \<and> e \<le> int n"
  using assms clamp_bounds [of 0 "int n"] by (auto simp: normalize_slice_bounds_def Let_def)

lemma normalize_slice_bounds_down:
  assumes "normalize_slice_bounds (int n) start end_opt step = (s, e)" and "step < 0"
  shows "- 1 \<le> s \<and> s < int n \<and> - 1 \<le> e \<and> e < int n"
  using assms clamp_bounds [of "- 1" "int n - 1"] by (auto simp: normalize_slice_bounds_def Let_def)

lemma list_slice_positions:
  assumes "step_in_range (length xs) (slice_step step_opt)"
    and "normalize_slice_bounds (int (length xs)) start end_opt (slice_step step_opt) = (s, e)"
  shows "list_slice md xs start end_opt step_opt =
    Some (Inr (map (\<lambda>j. xs ! nat j) (positions s e (slice_step step_opt))))"
proof -
  let ?step = "slice_step step_opt"
  have st: "?step \<noteq> 0" "in_i64 ?step" "int (length xs) < 2 ^ 63" "int (length xs) - 1 + ?step < 2 ^ 63"
    using assms(1) unfolding step_in_range_def by blast+
  have walk: "list_slice md xs start end_opt step_opt = slice_walk md xs ?step e s []"
    using assms(2) st(1) by (simp add: list_slice_def Let_def flip: slice_step_def)
  show ?thesis
  proof (cases "0 < ?step")
    case True
    have b: "0 \<le> s" "e \<le> int (length xs)" using normalize_slice_bounds_up [OF assms(2) True] by auto
    then have "e - 1 + ?step < 2 ^ 63" using st(4) by linarith
    then show ?thesis using True b by (simp add: walk slice_walk_up positions_def)
  next
    case False
    then have neg: "?step < 0" using st(1) by linarith
    have "s < int (length xs)" "- 1 \<le> e" using normalize_slice_bounds_down [OF assms(2) neg] by auto
    then show ?thesis using neg st(2,3) by (simp add: walk slice_walk_down positions_def)
  qed
qed

lemma positions_in_bounds:
  assumes "normalize_slice_bounds (int n) start end_opt step = (s, e)" and "step \<noteq> 0" and "j \<in> set (positions s e step)"
  shows "0 \<le> j \<and> j < int n \<and> step dvd j - s"
proof (cases "0 < step")
  case True
  then show ?thesis using assms normalize_slice_bounds_up [OF assms(1) True]
    by (auto simp: positions_def up_positions_def)
next
  case False
  then show ?thesis using assms normalize_slice_bounds_down [OF assms(1)]
    by (auto simp: positions_def down_positions_def dvd_diff_commute)
qed

lemma map_nth_upto:
  assumes "0 \<le> s" "s \<le> e" "e \<le> int (length xs)"
  shows "map (\<lambda>j. xs ! nat j) [s..e - 1] = take (nat (e - s)) (drop (nat s) xs)"
  using assms by (intro nth_equalityI) (auto simp: nat_add_distrib)

lemma positions_unit: "positions s e 1 = [s..e - 1]"
  by (simp add: positions_def up_positions_def)

lemma positions_back: "positions s e (- 1) = rev [e + 1..s]"
  by (simp add: positions_def down_positions_def)

lemma unit_step_in_range: "int n < 2 ^ 63 \<Longrightarrow> step_in_range n 1 \<and> step_in_range n (- 1)"
  by (simp add: step_in_range_def width_simps)

text \<open>The split point \<open>k\<close> of \<open>xs[:k]\<close> and \<open>xs[k:]\<close>.\<close>

definition split_point :: "nat \<Rightarrow> int \<Rightarrow> nat" where
  "split_point n k = nat (clamp (if k < 0 then k + int n else k) 0 (int n))"

lemma split_point_le: "split_point n k \<le> n"
  using clamp_bounds [of 0 "int n"] by (simp add: split_point_def nat_le_iff)

lemma list_slice_prefix:
  assumes "int (length xs) < 2 ^ 63"
  shows "list_slice md xs None (Some k) None = Some (Inr (take (split_point (length xs) k) xs))"
proof -
  let ?p = "int (split_point (length xs) k)"
  have "clamp (if k < 0 then k + int (length xs) else k) 0 (int (length xs)) = ?p"
    using clamp_bounds [of 0 "int (length xs)"] by (simp add: split_point_def)
  then have "normalize_slice_bounds (int (length xs)) None (Some k) 1 = (0, ?p)"
    by (simp add: normalize_slice_bounds_def clamp_def [of 0])
  from list_slice_positions [where step_opt = None, unfolded slice_step_def option.case, OF _ this]
  show ?thesis using unit_step_in_range [OF assms] map_nth_upto [of 0 ?p xs] split_point_le [of "length xs" k]
    by (simp add: positions_unit)
qed

lemma list_slice_suffix:
  assumes "int (length xs) < 2 ^ 63"
  shows "list_slice md xs (Some k) None None = Some (Inr (drop (split_point (length xs) k) xs))"
proof -
  let ?p = "int (split_point (length xs) k)"
  have "clamp (if k < 0 then k + int (length xs) else k) 0 (int (length xs)) = ?p"
    using clamp_bounds [of 0 "int (length xs)"] by (simp add: split_point_def)
  then have "normalize_slice_bounds (int (length xs)) (Some k) None 1 = (?p, int (length xs))"
    by (simp add: normalize_slice_bounds_def clamp_def [of "int (length xs)"])
  from list_slice_positions [where step_opt = None, unfolded slice_step_def option.case, OF _ this]
  show ?thesis using unit_step_in_range [OF assms] map_nth_upto [of ?p "int (length xs)" xs]
      split_point_le [of "length xs" k]
    by (simp add: positions_unit nat_diff_distrib)
qed

lemma list_slice_reverse:
  assumes "int (length xs) < 2 ^ 63"
  shows "list_slice md xs None None (Some (- 1)) = Some (Inr (rev xs))"
proof -
  let ?n = "int (length xs)"
  have "normalize_slice_bounds ?n None None (- 1) = (?n - 1, - 1)"
    by (cases xs) (simp_all add: normalize_slice_bounds_def clamp_def Let_def)
  from list_slice_positions [where step_opt = "Some (- 1)", unfolded slice_step_def option.case, OF _ this]
  show ?thesis using unit_step_in_range [OF assms] map_nth_upto [of 0 ?n xs]
    by (simp add: positions_back flip: rev_map)
qed

section \<open>Batches\<close>

lemma batch_next_eq:
  "batch_next b = (if take (batch_size b) (batch_iter b) = [] then None else Some (take (batch_size b) (batch_iter b)),
     b\<lparr>batch_iter := drop (batch_size b) (batch_iter b)\<rparr>)"
  by (simp add: batch_next_def batch_fill_eq)

lemma batch_collect_Nil: "batch_iter b = [] \<Longrightarrow> batch_collect b = []"
  by (subst batch_collect.simps) (simp add: batch_next_eq)

lemma batch_collect_Cons:
  "batch_iter b \<noteq> [] \<Longrightarrow> 0 < batch_size b \<Longrightarrow>
   batch_collect b = take (batch_size b) (batch_iter b)
     # batch_collect (b\<lparr>batch_iter := drop (batch_size b) (batch_iter b)\<rparr>)"
  by (subst batch_collect.simps) (simp add: batch_next_eq)

declare batch_collect.simps [simp del]

abbreviation batches :: "nat \<Rightarrow> 'a list \<Rightarrow> 'a list list" where
  "batches n it \<equiv> batch_collect \<lparr>batch_iter = it, batch_size = n\<rparr>"

lemma batches_Nil: "batches n [] = []"
  by (rule batch_collect_Nil) simp

lemma batches_Cons: "it \<noteq> [] \<Longrightarrow> 0 < n \<Longrightarrow> batches n it = take n it # batches n (drop n it)"
  using batch_collect_Cons [of "\<lparr>batch_iter = it, batch_size = n\<rparr>"] by simp

lemma batches_spec:
  assumes "0 < n"
  shows "concat (batches n it) = it \<and> list_all (\<lambda>items. items \<noteq> [] \<and> length items \<le> n) (batches n it)
    \<and> list_all (\<lambda>items. length items = n) (butlast (batches n it))"
proof (induction "length it" arbitrary: it rule: less_induct)
  case less
  show ?case
  proof (cases "it = []")
    case True
    then show ?thesis by (simp add: batches_Nil)
  next
    case False
    then have "length (drop n it) < length it" using assms by simp
    note IH = less [OF this]
    have "length (take n it) = n" if "batches n (drop n it) \<noteq> []"
    proof -
      have "drop n it \<noteq> []" using that batches_Nil [of n] by auto
      then show ?thesis by simp
    qed
    moreover obtain rest where rest: "batches n (drop n it) = rest" by blast
    moreover have "length (take n it) \<le> n" by simp
    ultimately show ?thesis
      using IH False assms by (simp add: batches_Cons [OF False assms] rest del: length_take)
  qed
qed

section \<open>Properties\<close>



text \<open>
  C34: The slice laws of Python lists: \<open>xs[:k]\<close> and \<open>xs[k:]\<close> are complementary for every \<open>k\<close>,
  negative and out of range included, \<open>xs[:]\<close> is \<open>xs\<close> and \<open>xs[::-1]\<close> is its reverse.
\<close>
theorem list_slice_laws:
  assumes "int (length xs) < 2 ^ 63"
  shows "(\<exists>a b. list_slice md xs None (Some k) None = Some (Inr a)
            \<and> list_slice md xs (Some k) None None = Some (Inr b) \<and> list_concat a b = xs)
    \<and> list_slice md xs None None None = Some (Inr xs)
    \<and> list_slice md xs None None (Some (- 1)) = Some (Inr (rev xs))"
proof -
  have "normalize_slice_bounds (int (length xs)) None None 1 = (0, int (length xs))"
    by (simp add: normalize_slice_bounds_def clamp_def)
  from list_slice_positions [where step_opt = None, unfolded slice_step_def option.case, OF _ this]
  have "list_slice md xs None None None = Some (Inr xs)"
    using unit_step_in_range [OF assms] map_nth_upto [of 0 "int (length xs)" xs] by (simp add: positions_unit)
  then show ?thesis
    using list_slice_prefix [OF assms] list_slice_suffix [OF assms] list_slice_reverse [OF assms]
    by (simp add: list_concat_def)
qed

theorem list_slice_laws_witness:
  "list_slice Overflow_panics [1, 2, 3 :: nat] None None (Some (- 1)) = Some (Inr [3, 2, 1])"
  using list_slice_laws [of "[1, 2, 3 :: nat]" Overflow_panics 2] by simp

text \<open>
  C40: Near \<open>i64::MAX\<close> the stride addition after the last element overflows.  With overflow checks
  the slice \<open>[a, b, c][2::i64::MAX]\<close>, whose only element is \<open>c\<close>, panics instead of returning
  \<open>[c]\<close>; without them the position wraps twice and the result is \<open>[c, a]\<close>.
\<close>
theorem list_slice_step_overflow:
  "list_slice Overflow_panics [a, b, c] (Some 2) None (Some (2 ^ 63 - 1)) = Some (Inl overflow_panic)
   \<and> list_slice Overflow_wraps [a, b, c] (Some 2) None (Some (2 ^ 63 - 1)) = Some (Inr [c, a])"
proof -
  have b: "normalize_slice_bounds 3 (Some 2) None (2 ^ 63 - 1) = (2, 3)"
    by (simp add: normalize_slice_bounds_def clamp_def)
  have s: "list_slice md [a, b, c] (Some 2) None (Some (2 ^ 63 - 1))
      = slice_walk md [a, b, c] (2 ^ 63 - 1) 3 2 []" for md
    using b by (simp add: list_slice_def)
  have "slice_walk Overflow_panics [a, b, c] (2 ^ 63 - 1) 3 2 [] = Some (Inl overflow_panic)"
    by (subst slice_walk.simps) (simp add: add_signed_def width_simps)
  moreover have "slice_walk Overflow_wraps [a, b, c] (2 ^ 63 - 1) 3 2 [] = Some (Inr [c, a])"
    by (simp add: slice_walk.simps add_signed_def width_simps wrap_signed_def get_at_def)
  ultimately show ?thesis by (simp only: s)
qed



text \<open>
  Batching an iterator with a positive size loses, duplicates and reorders nothing: the batches
  concatenate to the source, none is empty or longer than the size, and only the last may be
  shorter.  A size of zero or less is refused.
\<close>
theorem batch_partitions:
  assumes "0 < n"
  shows "\<exists>b. batch it n = Inr b \<and> concat (batch_collect b) = it
    \<and> list_all (\<lambda>items. items \<noteq> [] \<and> length items \<le> nat n) (batch_collect b)
    \<and> list_all (\<lambda>items. length items = nat n) (butlast (batch_collect b))"
  using batches_spec [of "nat n" it] assms by (simp add: batch_def)

theorem batch_partitions_witness:
  "\<exists>b. batch [1, 2, 3, 4, 5 :: nat] 2 = Inr b \<and> concat (batch_collect b) = [1, 2, 3, 4, 5]"
  using batch_partitions [of 2 "[1, 2, 3, 4, 5 :: nat]"] by auto

text \<open>
  List access by Python index: an index \<open>i\<close> with \<open>- len \<le> i < len\<close> reads, overwrites or removes
  the element \<open>i mod len\<close>, writing changes no other element, and every other index raises the
  \<open>IndexError\<close> that names the index and the length and leaves nothing changed.
\<close>
theorem list_index_access:
  "(if - int (length xs) \<le> i \<and> i < int (length xs)
    then let k = nat (i mod int (length xs)) in
         list_get xs i = Inr (xs ! k) \<and> list_get_mut xs i v = Inr (xs[k := v])
         \<and> list_remove xs i = Inr (take k xs @ drop (Suc k) xs)
         \<and> (case list_get_mut xs i v of Inr ys \<Rightarrow> list_get ys i = Inr v | Inl _ \<Rightarrow> False)
    else let err = Inl (Raise (index_out_of_range_for (lit ''list'') i (length xs))) in
         list_get xs i = err \<and> list_get_mut xs i v = Inl (projl err) \<and> list_remove xs i = Inl (projl err))"
proof (cases "- int (length xs) \<le> i \<and> i < int (length xs)")
  case True
  let ?k = "nat (i mod int (length xs))"
  have n: "0 < int (length xs)" using True by linarith
  then have k: "?k < length xs" by (simp add: nat_less_iff)
  have "i = int ?k \<or> i = int ?k - int (length xs)"
  proof (cases "i < 0")
    case i: True
    have "i mod int (length xs) = (i + int (length xs)) mod int (length xs)" by simp
    also have "\<dots> = i + int (length xs)" using True i by (intro mod_pos_pos_trivial) auto
    finally show ?thesis using n True by simp
  qed (use True in simp)
  then have norm: "normalize_list_index (length xs) i = Inr ?k"
    using k by (simp add: normalize_list_index_Inr_iff)
  then show ?thesis using True k
    by (simp add: list_get_def list_get_mut_def list_remove_def Let_def)
next
  case False
  then have "normalize_list_index (length xs) i = Inl (Raise (index_out_of_range_for (lit ''list'') i (length xs)))"
    by (intro normalize_list_index_error) linarith
  with False show ?thesis by (simp only: if_False list_get_def list_get_mut_def list_remove_def Let_def
      bind_outcome_simps sum.sel simp_thms)
qed

end
