(* ===== verification/Emitted_Symbol.thy ===== *)
theory Emitted_Symbol
  imports Byte_Codec
begin

text \<open>
  The linker-visible symbol projection of \<open>incan_semantics_core/src/emitted_symbol.rs\<close>: a canonical
  symbol identity is serialised to a byte payload (tags, big-endian 64-bit lengths, UTF-8 text) and
  written as lower-case hexadecimal after the marker \<open>__incan_v1_\<close>; the decoder reads it back from
  an identifier or from a demangled symbol.

  A field is read by a \<open>reader\<close>, a function from the remaining bytes to an error or a value with
  the bytes left.  The locale \<open>payload_codec\<close> is the contract of one field: reading what was
  written returns the value and stops exactly behind it, and whatever is read is what would have
  been written.  Every field and the whole payload are interpretations of it.
\<close>

section \<open>Identities\<close>

datatype SymbolNamespace = OrdinaryLexical | Member | ModulePath

datatype SymbolOrigin = ModuleOrigin "rstr list" | Package rstr "rstr list" | RustCrate "rstr list" | BuiltinOrigin

datatype SemanticSourceTargetKind =
    FunctionKind | ModelKind | ClassKind | NewtypeKind | RusttypeKind | EnumKind | TypeAliasKind | PartialKind
  | VariantKind | TraitKind | CapabilityKind | FieldKind | MethodKind | PropertyKind | ConstKind | StaticKind
  | LocalKind | ParameterKind | ReceiverKind | GenericBinderKind | ModuleKind | RustItemKind | BuiltinKind
  | OtherKind rstr

record HirSourceSpan =
  span_start :: nat
  span_end :: nat

record CanonicalSymbolId =
  namespace :: SymbolNamespace
  origin :: SymbolOrigin
  declaration_name :: rstr
  kind :: SemanticSourceTargetKind
  scope_discriminant :: "nat option"
  declaration_span :: HirSourceSpan

datatype EmittedSymbolDecodeError =
    UnsupportedVersion rstr | InvalidHex | InvalidPayload rstr | IntegerOverflow | InvalidUtf8 | TrailingPayload

fun display_decode_error :: "EmittedSymbolDecodeError \<Rightarrow> rstr" where
  "display_decode_error (UnsupportedVersion v) = lit ''unsupported Incan emitted-symbol version `'' @ v @ lit ''`''"
| "display_decode_error InvalidHex = lit ''invalid hexadecimal Incan emitted-symbol payload''"
| "display_decode_error (InvalidPayload f) = lit ''invalid Incan emitted-symbol payload field `'' @ f @ lit ''`''"
| "display_decode_error IntegerOverflow = lit ''Incan emitted-symbol integer does not fit on this host''"
| "display_decode_error InvalidUtf8 = lit ''Incan emitted-symbol string is not valid UTF-8''"
| "display_decode_error TrailingPayload = lit ''Incan emitted-symbol payload has trailing bytes''"

definition INCAN_SYMBOL_RUST_PREFIX :: rstr where
  "INCAN_SYMBOL_RUST_PREFIX = lit ''__incan_v1_''"

section \<open>Writing\<close>

fun namespace_tag :: "SymbolNamespace \<Rightarrow> byte" where
  "namespace_tag OrdinaryLexical = 0"
| "namespace_tag Member = 1"
| "namespace_tag ModulePath = 2"

definition write_u64 :: "nat \<Rightarrow> byte list" where
  "write_u64 v = be_bytes 8 v"

definition write_usize :: "nat \<Rightarrow> byte list" where
  "write_usize v = be_bytes 8 v"

definition write_string :: "rstr \<Rightarrow> byte list" where
  "write_string v = write_u64 (str_bytes_len v) @ utf8_encode v"

definition write_strings :: "rstr list \<Rightarrow> byte list" where
  "write_strings vs = write_u64 (length vs) @ concat (map write_string vs)"

fun encode_origin :: "SymbolOrigin \<Rightarrow> byte list" where
  "encode_origin (ModuleOrigin path) = 0 # write_strings path"
| "encode_origin (Package library module_path) = 1 # write_string library @ write_strings module_path"
| "encode_origin (RustCrate path) = 2 # write_strings path"
| "encode_origin BuiltinOrigin = [3]"

fun kind_tag :: "SemanticSourceTargetKind \<Rightarrow> byte" where
  "kind_tag FunctionKind = 0"
| "kind_tag ModelKind = 1"
| "kind_tag ClassKind = 2"
| "kind_tag NewtypeKind = 3"
| "kind_tag RusttypeKind = 4"
| "kind_tag EnumKind = 5"
| "kind_tag TypeAliasKind = 6"
| "kind_tag PartialKind = 7"
| "kind_tag VariantKind = 8"
| "kind_tag TraitKind = 9"
| "kind_tag CapabilityKind = 10"
| "kind_tag FieldKind = 11"
| "kind_tag MethodKind = 12"
| "kind_tag PropertyKind = 13"
| "kind_tag ConstKind = 14"
| "kind_tag StaticKind = 15"
| "kind_tag LocalKind = 16"
| "kind_tag ParameterKind = 17"
| "kind_tag ReceiverKind = 18"
| "kind_tag GenericBinderKind = 19"
| "kind_tag ModuleKind = 20"
| "kind_tag RustItemKind = 21"
| "kind_tag BuiltinKind = 22"
| "kind_tag (OtherKind v) = 255"

definition encode_kind :: "SemanticSourceTargetKind \<Rightarrow> byte list" where
  "encode_kind k = kind_tag k # (case k of OtherKind v \<Rightarrow> write_string v | _ \<Rightarrow> [])"

fun encode_scope :: "nat option \<Rightarrow> byte list" where
  "encode_scope (Some s) = 1 # write_usize s"
| "encode_scope None = [0]"

definition encode_payload :: "CanonicalSymbolId \<Rightarrow> byte list" where
  "encode_payload i =
     namespace_tag (namespace i) # encode_origin (origin i) @ write_string (declaration_name i)
     @ encode_kind (kind i) @ encode_scope (scope_discriminant i)
     @ write_usize (span_start (declaration_span i)) @ write_usize (span_end (declaration_span i))"

definition hex_digit :: "nat \<Rightarrow> scalar" where
  "hex_digit d = lit ''0123456789abcdef'' ! d"

definition hex_byte :: "byte \<Rightarrow> rstr" where
  "hex_byte b = [hex_digit (unat b div 16), hex_digit (unat b mod 16)]"

definition encode_incan_symbol_identity :: "CanonicalSymbolId \<Rightarrow> rstr" where
  "encode_incan_symbol_identity i =
     INCAN_SYMBOL_RUST_PREFIX @ concat (map hex_byte (encode_payload i))"

section \<open>Reading\<close>

type_synonym 'a reader = "byte list \<Rightarrow> EmittedSymbolDecodeError + ('a \<times> byte list)"

definition rreturn :: "'a \<Rightarrow> 'a reader" where
  "rreturn x bs = Inr (x, bs)"

definition rfail :: "EmittedSymbolDecodeError \<Rightarrow> 'a reader" where
  "rfail e bs = Inl e"

definition rbind :: "'a reader \<Rightarrow> ('a \<Rightarrow> 'b reader) \<Rightarrow> 'b reader" where
  "rbind m f bs = (case m bs of Inl e \<Rightarrow> Inl e | Inr (x, r) \<Rightarrow> f x r)"

definition reader_take :: "nat \<Rightarrow> rstr \<Rightarrow> byte list reader" where
  "reader_take n field bs =
     (if length bs < n then Inl (InvalidPayload field) else Inr (take n bs, drop n bs))"

definition reader_byte :: "rstr \<Rightarrow> byte reader" where
  "reader_byte field = rbind (reader_take 1 field) (\<lambda>bs. rreturn (hd bs))"

text \<open>On a 64-bit host every \<open>u64\<close> is a \<open>usize\<close>.\<close>

definition reader_usize :: "rstr \<Rightarrow> nat reader" where
  "reader_usize field = rbind (reader_take 8 field)
     (\<lambda>bs. if in_unsigned 64 (be_value bs) then rreturn (be_value bs) else rfail IntegerOverflow)"

definition reader_string :: "rstr \<Rightarrow> rstr reader" where
  "reader_string field = rbind (reader_usize field) (\<lambda>n. rbind (reader_take n field)
     (\<lambda>bs. case from_utf8 bs of Some s \<Rightarrow> rreturn s | None \<Rightarrow> rfail InvalidUtf8))"

fun reader_repeat :: "nat \<Rightarrow> rstr \<Rightarrow> rstr list reader" where
  "reader_repeat 0 field = rreturn []"
| "reader_repeat (Suc n) field = rbind (reader_string field) (\<lambda>s. rbind (reader_repeat n field) (\<lambda>ss. rreturn (s # ss)))"

definition reader_strings :: "rstr \<Rightarrow> rstr list reader" where
  "reader_strings field = rbind (reader_usize field)
     (\<lambda>n bs. if n > length bs div 8 then Inl (InvalidPayload field) else reader_repeat n field bs)"

definition decode_namespace :: "byte \<Rightarrow> SymbolNamespace reader" where
  "decode_namespace t =
     (if t = 0 then rreturn OrdinaryLexical else if t = 1 then rreturn Member
      else if t = 2 then rreturn ModulePath else rfail (InvalidPayload (lit ''namespace'')))"

definition reader_namespace :: "SymbolNamespace reader" where
  "reader_namespace = rbind (reader_byte (lit ''namespace'')) decode_namespace"

definition decode_origin :: "SymbolOrigin reader" where
  "decode_origin = rbind (reader_byte (lit ''origin'')) (\<lambda>t.
     if t = 0 then rbind (reader_strings (lit ''origin.module'')) (\<lambda>p. rreturn (ModuleOrigin p))
     else if t = 1 then rbind (reader_string (lit ''origin.package.library'')) (\<lambda>l.
       rbind (reader_strings (lit ''origin.package.module_path'')) (\<lambda>p. rreturn (Package l p)))
     else if t = 2 then rbind (reader_strings (lit ''origin.rust_crate'')) (\<lambda>p. rreturn (RustCrate p))
     else if t = 3 then rreturn BuiltinOrigin
     else rfail (InvalidPayload (lit ''origin'')))"

text \<open>The arms of the \<open>match\<close> that carry no text.\<close>

definition KIND_TAGS :: "(byte \<times> SemanticSourceTargetKind) list" where
  "KIND_TAGS =
    [(0, FunctionKind), (1, ModelKind), (2, ClassKind), (3, NewtypeKind), (4, RusttypeKind),
     (5, EnumKind), (6, TypeAliasKind), (7, PartialKind), (8, VariantKind), (9, TraitKind),
     (10, CapabilityKind), (11, FieldKind), (12, MethodKind), (13, PropertyKind), (14, ConstKind),
     (15, StaticKind), (16, LocalKind), (17, ParameterKind), (18, ReceiverKind), (19, GenericBinderKind),
     (20, ModuleKind), (21, RustItemKind), (22, BuiltinKind)]"

definition decode_kind :: "SemanticSourceTargetKind reader" where
  "decode_kind = rbind (reader_byte (lit ''kind'')) (\<lambda>t.
     case map_of KIND_TAGS t of
       Some k \<Rightarrow> rreturn k
     | None \<Rightarrow>
         if t = 255 then rbind (reader_string (lit ''kind.other'')) (\<lambda>v. rreturn (OtherKind v))
         else rfail (InvalidPayload (lit ''kind'')))"

definition decode_scope :: "nat option reader" where
  "decode_scope = rbind (reader_byte (lit ''scope_presence'')) (\<lambda>t.
     if t = 0 then rreturn None
     else if t = 1 then rbind (reader_usize (lit ''scope_discriminant'')) (\<lambda>s. rreturn (Some s))
     else rfail (InvalidPayload (lit ''scope_presence'')))"

definition decode_payload :: "CanonicalSymbolId reader" where
  "decode_payload =
     rbind reader_namespace (\<lambda>ns.
     rbind decode_origin (\<lambda>orig.
     rbind (reader_string (lit ''declaration_name'')) (\<lambda>name.
     rbind decode_kind (\<lambda>k.
     rbind decode_scope (\<lambda>scope.
     rbind (reader_usize (lit ''declaration_span.start'')) (\<lambda>s.
     rbind (reader_usize (lit ''declaration_span.end'')) (\<lambda>e.
     rreturn \<lparr>namespace = ns, origin = orig, declaration_name = name, kind = k,
              scope_discriminant = scope, declaration_span = \<lparr>span_start = s, span_end = e\<rparr>\<rparr>)))))))"

definition decode_hex_digit :: "byte \<Rightarrow> EmittedSymbolDecodeError + nat" where
  "decode_hex_digit b =
     (let v = unat b in
      if 48 \<le> v \<and> v \<le> 57 then Inr (v - 48)
      else if 97 \<le> v \<and> v \<le> 102 then Inr (v - 97 + 10) else Inl InvalidHex)"

text \<open>\<open>as_chunks::<2>().0\<close> mapped through the digit decoder; a trailing odd byte is not a chunk.\<close>

fun decode_hex :: "byte list \<Rightarrow> EmittedSymbolDecodeError + byte list" where
  "decode_hex (h # l # bs) =
     (case decode_hex_digit h of Inl e \<Rightarrow> Inl e | Inr high \<Rightarrow>
      (case decode_hex_digit l of Inl e \<Rightarrow> Inl e | Inr low \<Rightarrow>
       (case decode_hex bs of Inl e \<Rightarrow> Inl e | Inr rest \<Rightarrow> Inr (word_of_nat (16 * high + low) # rest))))"
| "decode_hex _ = Inr []"

definition decode_incan_symbol_identity :: "rstr \<Rightarrow> EmittedSymbolDecodeError + CanonicalSymbolId option" where
  "decode_incan_symbol_identity identifier =
     (case strip_prefix INCAN_SYMBOL_RUST_PREFIX identifier of
        None \<Rightarrow>
          (case strip_prefix (lit ''__incan_v'') identifier of
             Some v \<Rightarrow> Inl (UnsupportedVersion (lit ''incan-v'' @ takeWhile (\<lambda>c. c \<noteq> 95) v))
           | None \<Rightarrow> Inr None)
      | Some hex \<Rightarrow>
          if hex = [] \<or> str_bytes_len hex mod 2 \<noteq> 0 then Inl InvalidHex
          else case decode_hex (utf8_encode hex) of Inl e \<Rightarrow> Inl e | Inr bytes \<Rightarrow>
            (case decode_payload bytes of Inl e \<Rightarrow> Inl e
             | Inr (i, rest) \<Rightarrow> if rest \<noteq> [] then Inl TrailingPayload else Inr (Some i)))"

text \<open>\<open>str::split\<close> with a character predicate.\<close>

fun split_where :: "('a \<Rightarrow> bool) \<Rightarrow> 'a list \<Rightarrow> 'a list list" where
  "split_where P [] = [[]]"
| "split_where P (c # s) =
     (if P c then [] # split_where P s
      else case split_where P s of w # ws \<Rightarrow> (c # w) # ws | [] \<Rightarrow> [[c]])"

definition is_symbol_char :: "scalar \<Rightarrow> bool" where
  "is_symbol_char c \<longleftrightarrow> is_ascii_alphanumeric c \<or> c = 95"

definition starts_with :: "'a list \<Rightarrow> 'a list \<Rightarrow> bool" where
  "starts_with p s \<longleftrightarrow> strip_prefix p s \<noteq> None"

definition decode_incan_identity_from_demangled_symbol ::
  "rstr \<Rightarrow> EmittedSymbolDecodeError + CanonicalSymbolId option" where
  "decode_incan_identity_from_demangled_symbol demangled =
     (case find (starts_with (lit ''__incan_v'')) (split_where (\<lambda>c. \<not> is_symbol_char c) demangled) of
        None \<Rightarrow> Inr None | Some component \<Rightarrow> decode_incan_symbol_identity component)"

section \<open>The contract of a field\<close>

locale payload_codec =
  fixes enc :: "'a \<Rightarrow> byte list" and dec :: "'a reader" and valid :: "'a \<Rightarrow> bool"
  assumes dec_enc: "valid x \<Longrightarrow> dec (enc x @ r) = Inr (x, r)"
    and enc_dec: "dec bs = Inr (x, r) \<Longrightarrow> bs = enc x @ r \<and> valid x"
begin

lemma enc_prefix_free:
  assumes "valid x" "valid y" "enc x @ r = enc y @ s"
  shows "x = y \<and> r = s"
proof -
  have "Inr (x, r) = dec (enc y @ s)" using dec_enc [OF assms(1), of r] unfolding assms(3) by (rule sym)
  then show ?thesis unfolding dec_enc [OF assms(2)] by blast
qed

lemma enc_inj: "valid x \<Longrightarrow> valid y \<Longrightarrow> enc x = enc y \<Longrightarrow> x = y"
  using enc_prefix_free [of x y "[]" "[]"] by simp

lemma dec_iff: "dec bs = Inr (x, r) \<longleftrightarrow> valid x \<and> bs = enc x @ r"
  using dec_enc enc_dec by blast

end

named_theorems reader_simps "evaluation of readers"

lemma rbind_Inr_iff:
  "rbind m f bs = Inr (y, r) \<longleftrightarrow> (\<exists>x r'. m bs = Inr (x, r') \<and> f x r' = Inr (y, r))"
  by (auto simp: rbind_def split: sum.splits)

lemma rreturn_Inr_iff [simp]: "rreturn x bs = Inr (y, r) \<longleftrightarrow> y = x \<and> r = bs"
  by (auto simp: rreturn_def)

lemma rfail_Inr [simp]: "rfail e bs \<noteq> Inr z"
  by (simp add: rfail_def)

lemma reader_take_append [reader_simps]: "length xs = n \<Longrightarrow> reader_take n field (xs @ r) = Inr (xs, r)"
  by (simp add: reader_take_def)

lemma reader_take_Inr: "reader_take n field bs = Inr (xs, r) \<longleftrightarrow> bs = xs @ r \<and> length xs = n"
proof -
  have "length bs \<ge> n \<and> take n bs = xs \<and> drop n bs = r \<longleftrightarrow> bs = xs @ r \<and> length xs = n"
    by (metis append_eq_conv_conj append_take_drop_id length_append length_take le_add1 min.absorb2)
  then show ?thesis by (auto simp: reader_take_def not_less)
qed

lemma reader_byte_Cons [reader_simps]: "reader_byte field (b # r) = Inr (b, r)"
  by (simp add: reader_byte_def rbind_def reader_take_def rreturn_def)

lemma reader_byte_Inr: "reader_byte field bs = Inr (b, r) \<longleftrightarrow> bs = b # r"
  by (cases bs) (auto simp: reader_byte_def rbind_def reader_take_def rreturn_def)

interpretation usize_codec: payload_codec write_usize "reader_usize field" "in_unsigned 64"
proof
  fix x r assume "in_unsigned 64 x"
  then show "reader_usize field (write_usize x @ r) = Inr (x, r)"
    by (simp add: reader_usize_def write_usize_def rbind_def reader_take_def rreturn_def in_unsigned_def)
next
  fix bs x r assume "reader_usize field bs = Inr (x, r)"
  then show "bs = write_usize x @ r \<and> in_unsigned 64 x"
    by (auto simp: reader_usize_def write_usize_def rbind_Inr_iff reader_take_Inr be_bytes_be_value
        split: if_splits)
qed

definition valid_text :: "rstr \<Rightarrow> bool" where
  "valid_text s \<longleftrightarrow> valid_str s \<and> in_unsigned 64 (str_bytes_len s)"

lemma utf8_decode_encode: "from_utf8 bs = Some s \<Longrightarrow> utf8_encode s = bs \<and> valid_str s"
proof -
  assume "from_utf8 bs = Some s"
  then have "concat (map utf8_char_nat s) = map unat bs \<and> valid_str s"
    unfolding from_utf8_def by (rule utf8_decode_nat_sound)
  then show ?thesis by (simp add: utf8_encode_def comp_def)
qed

interpretation string_codec: payload_codec write_string "reader_string field" valid_text
proof
  fix x r assume "valid_text x"
  then show "reader_string field (write_string x @ r) = Inr (x, r)"
    using usize_codec.dec_enc [of "str_bytes_len x" field "utf8_encode x @ r"]
    by (simp add: reader_string_def write_string_def valid_text_def rbind_def write_u64_def write_usize_def
        reader_take_append from_utf8_encode rreturn_def)
next
  fix bs x r assume "reader_string field bs = Inr (x, r)"
  then obtain n xs where "bs = write_usize n @ xs @ r" "in_unsigned 64 n" "length xs = n" "from_utf8 xs = Some x"
    by (auto simp: reader_string_def rbind_Inr_iff usize_codec.dec_iff reader_take_Inr split: option.splits)
  then show "bs = write_string x @ r \<and> valid_text x"
    using utf8_decode_encode [of xs x] length_utf8_encode [of x]
    by (auto simp: write_string_def write_u64_def write_usize_def valid_text_def)
qed

lemma reader_repeat_iff:
  "reader_repeat n field bs = Inr (xs, r) \<longleftrightarrow>
     length xs = n \<and> list_all valid_text xs \<and> bs = concat (map write_string xs) @ r"
proof (induction n arbitrary: bs xs)
  case 0
  then show ?case by (auto simp: rreturn_def)
next
  case (Suc n)
  show ?case
    by (cases xs) (auto simp: rbind_Inr_iff string_codec.dec_iff Suc.IH)
qed

lemma length_write_string_ge: "8 \<le> length (write_string s)"
  by (simp add: write_string_def write_u64_def)

lemma length_write_strings_ge: "8 * length xs \<le> length (concat (map write_string xs))"
proof (induction xs)
  case (Cons x xs)
  then show ?case using length_write_string_ge [of x] by simp
qed simp

definition valid_texts :: "rstr list \<Rightarrow> bool" where
  "valid_texts xs \<longleftrightarrow> list_all valid_text xs \<and> in_unsigned 64 (length xs)"

interpretation strings_codec: payload_codec write_strings "reader_strings field" valid_texts
proof
  fix x r assume x: "valid_texts x"
  have "\<not> length x > length (concat (map write_string x) @ r) div 8"
    using length_write_strings_ge [of x] by simp
  moreover have "reader_repeat (length x) field (concat (map write_string x) @ r) = Inr (x, r)"
    using x by (simp add: reader_repeat_iff valid_texts_def)
  moreover have "reader_usize field (write_strings x @ r) = Inr (length x, concat (map write_string x) @ r)"
    using usize_codec.dec_enc [of "length x" field] x
    by (simp add: write_strings_def write_u64_def write_usize_def valid_texts_def)
  ultimately show "reader_strings field (write_strings x @ r) = Inr (x, r)"
    by (simp add: reader_strings_def rbind_def)
next
  fix bs x r assume "reader_strings field bs = Inr (x, r)"
  then show "bs = write_strings x @ r \<and> valid_texts x"
    by (auto simp: reader_strings_def rbind_Inr_iff usize_codec.dec_iff reader_repeat_iff write_strings_def
        write_u64_def write_usize_def valid_texts_def split: if_splits)
qed

lemmas field_iff = rbind_Inr_iff usize_codec.dec_iff string_codec.dec_iff strings_codec.dec_iff reader_byte_Inr

fun valid_origin :: "SymbolOrigin \<Rightarrow> bool" where
  "valid_origin (ModuleOrigin p) = valid_texts p"
| "valid_origin (Package l p) = (valid_text l \<and> valid_texts p)"
| "valid_origin (RustCrate p) = valid_texts p"
| "valid_origin BuiltinOrigin = True"

fun valid_kind :: "SemanticSourceTargetKind \<Rightarrow> bool" where
  "valid_kind (OtherKind v) = valid_text v"
| "valid_kind _ = True"

fun valid_scope :: "nat option \<Rightarrow> bool" where
  "valid_scope (Some s) = in_unsigned 64 s"
| "valid_scope None = True"

lemmas field_dec_enc = usize_codec.dec_enc string_codec.dec_enc strings_codec.dec_enc

lemma reader_bind_simps [reader_simps]:
  "rbind m f bs = (case m bs of Inl e \<Rightarrow> Inl e | Inr (x, r) \<Rightarrow> f x r)"
  "rreturn x bs = Inr (x, bs)"
  by (simp_all add: rbind_def rreturn_def)

interpretation origin_codec: payload_codec encode_origin decode_origin valid_origin
proof
  fix x r assume "valid_origin x"
  then show "decode_origin (encode_origin x @ r) = Inr (x, r)"
    by (cases x) (simp_all add: decode_origin_def reader_simps field_dec_enc)
next
  fix bs x r assume "decode_origin bs = Inr (x, r)"
  then show "bs = encode_origin x @ r \<and> valid_origin x"
    by (auto simp: decode_origin_def field_iff split: if_splits)
qed

lemma KIND_TAGS_tag: "map_of KIND_TAGS t = Some k \<Longrightarrow> kind_tag k = t \<and> (\<forall>v. k \<noteq> OtherKind v)"
  by (drule map_of_SomeD) (auto simp: KIND_TAGS_def)

lemma tag_KIND_TAGS: "(\<forall>v. k \<noteq> OtherKind v) \<Longrightarrow> map_of KIND_TAGS (kind_tag k) = Some k"
  by (cases k) (simp_all add: KIND_TAGS_def)

lemma encode_kind_cases:
  "(\<forall>v. k \<noteq> OtherKind v) \<Longrightarrow> encode_kind k = [kind_tag k] \<and> valid_kind k"
  "encode_kind (OtherKind v) = 255 # write_string v"
  by (cases k; simp add: encode_kind_def) (simp add: encode_kind_def)

lemma KIND_TAGS_other: "map_of KIND_TAGS 255 = None"
  by (simp add: KIND_TAGS_def)

interpretation kind_codec: payload_codec encode_kind decode_kind valid_kind
proof
  fix x r assume v: "valid_kind x"
  show "decode_kind (encode_kind x @ r) = Inr (x, r)"
  proof (cases "\<exists>v. x = OtherKind v")
    case True
    with v show ?thesis
      by (auto simp: decode_kind_def encode_kind_cases KIND_TAGS_other reader_simps field_dec_enc)
  next
    case False
    then have x: "\<forall>v. x \<noteq> OtherKind v" by blast
    show ?thesis by (simp add: decode_kind_def encode_kind_cases(1) [OF x] tag_KIND_TAGS [OF x] reader_simps)
  qed
next
  fix bs x r assume "decode_kind bs = Inr (x, r)"
  then obtain t r' where bs: "bs = t # r'"
    and d: "(case map_of KIND_TAGS t of Some k \<Rightarrow> rreturn k
         | None \<Rightarrow> if t = 255 then rbind (reader_string (lit ''kind.other'')) (\<lambda>v. rreturn (OtherKind v))
                   else rfail (InvalidPayload (lit ''kind''))) r' = Inr (x, r)"
    unfolding decode_kind_def rbind_Inr_iff [of "reader_byte _"] reader_byte_Inr by blast
  show "bs = encode_kind x @ r \<and> valid_kind x"
  proof (cases "map_of KIND_TAGS t")
    case None
    with d show ?thesis by (auto simp: bs encode_kind_cases field_iff split: if_splits)
  next
    case (Some k)
    with d KIND_TAGS_tag [OF Some] encode_kind_cases(1) [of k] show ?thesis by (simp add: bs)
  qed
qed

interpretation scope_codec: payload_codec encode_scope decode_scope valid_scope
proof
  fix x r assume "valid_scope x"
  then show "decode_scope (encode_scope x @ r) = Inr (x, r)"
    by (cases x) (simp_all add: decode_scope_def reader_simps field_dec_enc)
next
  fix bs x r assume "decode_scope bs = Inr (x, r)"
  then show "bs = encode_scope x @ r \<and> valid_scope x"
    by (auto simp: decode_scope_def field_iff split: if_splits)
qed

definition valid_identity :: "CanonicalSymbolId \<Rightarrow> bool" where
  "valid_identity i \<longleftrightarrow> valid_origin (origin i) \<and> valid_text (declaration_name i) \<and> valid_kind (kind i)
     \<and> valid_scope (scope_discriminant i) \<and> in_unsigned 64 (span_start (declaration_span i))
     \<and> in_unsigned 64 (span_end (declaration_span i))"

interpretation namespace_codec: payload_codec "\<lambda>ns. [namespace_tag ns]" reader_namespace "\<lambda>_. True"
proof
  fix x r
  show "reader_namespace ([namespace_tag x] @ r) = Inr (x, r)"
    by (cases x) (simp_all add: reader_namespace_def decode_namespace_def reader_simps)
next
  fix bs x r assume "reader_namespace bs = Inr (x, r)"
  then show "bs = [namespace_tag x] @ r \<and> True"
    by (auto simp: reader_namespace_def decode_namespace_def field_iff split: if_splits)
qed

lemma reader_namespace_Cons: "reader_namespace (namespace_tag ns # r) = Inr (ns, r)"
  using namespace_codec.dec_enc [of ns r] by simp

lemmas part_dec_enc = reader_namespace_Cons origin_codec.dec_enc kind_codec.dec_enc scope_codec.dec_enc
  usize_codec.dec_enc string_codec.dec_enc

lemmas part_iff = namespace_codec.dec_iff origin_codec.dec_iff kind_codec.dec_iff scope_codec.dec_iff
  usize_codec.dec_iff string_codec.dec_iff

interpretation identity_codec: payload_codec encode_payload decode_payload valid_identity
proof
  fix x r assume "valid_identity x"
  then show "decode_payload (encode_payload x @ r) = Inr (x, r)"
    by (simp add: decode_payload_def encode_payload_def valid_identity_def reader_bind_simps part_dec_enc)
next
  fix bs x r assume "decode_payload bs = Inr (x, r)"
  then show "bs = encode_payload x @ r \<and> valid_identity x"
    unfolding decode_payload_def rbind_Inr_iff part_iff
    by (auto simp: encode_payload_def valid_identity_def)
qed

section \<open>Hexadecimal spelling\<close>

definition hex_char_byte :: "nat \<Rightarrow> byte" where
  "hex_char_byte d = word_of_nat (hex_digit d)"

lemma hex_digit_eq: "d < 16 \<Longrightarrow> hex_digit d = (if d < 10 then 48 + d else 87 + d)"
proof -
  assume "d < 16"
  then have "d \<in> set [0..<16]" by simp
  then show ?thesis by (auto simp: upt_rec hex_digit_def simp del: set_upt)
qed

lemma hex_digit_symbol: "d < 16 \<Longrightarrow> is_symbol_char (hex_digit d) \<and> hex_digit d < 128"
  by (simp add: hex_digit_eq is_symbol_char_def ascii_defs)

lemma unat_hex_char_byte: "d < 16 \<Longrightarrow> unat (hex_char_byte d) = hex_digit d"
  using hex_digit_symbol [of d] by (simp add: hex_char_byte_def unat_byte_of_nat)

lemma decode_hex_digit_encode: "d < 16 \<Longrightarrow> decode_hex_digit (hex_char_byte d) = Inr d"
  by (simp add: decode_hex_digit_def unat_hex_char_byte) (simp add: hex_digit_eq)

lemma decode_hex_digit_Inr: "decode_hex_digit b = Inr d \<Longrightarrow> d < 16 \<and> b = hex_char_byte d"
proof -
  assume "decode_hex_digit b = Inr d"
  then have d: "d < 16" and "unat b = (if d < 10 then 48 + d else 87 + d)"
    by (auto simp: decode_hex_digit_def Let_def split: if_splits)
  then have "unat b = unat (hex_char_byte d)" by (simp add: unat_hex_char_byte hex_digit_eq)
  with d show ?thesis by (simp add: word_unat_eq_iff)
qed

definition hex_bytes :: "byte list \<Rightarrow> byte list" where
  "hex_bytes bs = concat (map (\<lambda>b. [hex_char_byte (unat b div 16), hex_char_byte (unat b mod 16)]) bs)"

lemma unat_div_16: "unat (b :: byte) div 16 < 16"
  using unat_byte_less [of b] by (simp add: less_mult_imp_div_less)

lemma decode_hex_encode: "decode_hex (hex_bytes bs) = Inr bs"
proof (induction bs)
  case (Cons b bs)
  have "word_of_nat (16 * (unat b div 16) + unat b mod 16) = b" by simp
  with Cons.IH show ?case
    using decode_hex_digit_encode [OF unat_div_16 [of b]] decode_hex_digit_encode [of "unat b mod 16"]
    by (simp add: hex_bytes_def)
qed (simp add: hex_bytes_def)

lemma decode_hex_sound: "decode_hex hs = Inr bs \<Longrightarrow> even (length hs) \<Longrightarrow> hs = hex_bytes bs"
proof (induction hs arbitrary: bs rule: decode_hex.induct)
  case (1 h l hs)
  then obtain high low rest where d: "decode_hex_digit h = Inr high" "decode_hex_digit l = Inr low"
    and rest: "decode_hex hs = Inr rest" and bs: "bs = word_of_nat (16 * high + low) # rest"
    by (auto split: sum.splits)
  have hl: "high < 16" "low < 16" "h = hex_char_byte high" "l = hex_char_byte low"
    using decode_hex_digit_Inr d by blast+
  then have "unat (word_of_nat (16 * high + low) :: byte) = 16 * high + low" by (simp only: unat_byte_of_nat) simp
  moreover have "hs = hex_bytes rest" using "1.IH" [OF d rest] "1.prems"(2) by simp
  ultimately show ?case using hl by (simp add: bs hex_bytes_def)
next
  case "2_1"
  then show ?case by (auto simp: hex_bytes_def)
next
  case "2_2"
  then show ?case by simp
qed

lemma utf8_encode_ascii: "list_all (\<lambda>c. c < 128) s \<Longrightarrow> utf8_encode s = map word_of_nat s \<and> str_bytes_len s = length s"
  by (induction s) (auto simp: utf8_char_nat_def len_utf8_def)

definition hex_text :: "byte list \<Rightarrow> rstr" where
  "hex_text bs = concat (map hex_byte bs)"

lemma hex_text_chars: "list_all (\<lambda>c. is_symbol_char c \<and> c < 128) (hex_text bs)"
  by (induction bs) (simp_all add: hex_text_def hex_byte_def hex_digit_symbol unat_div_16)

lemma hex_text_ascii: "list_all (\<lambda>c. c < 128) (hex_text bs)"
  using hex_text_chars [of bs] by (simp add: list_all_iff)

lemma map_hex_text: "map word_of_nat (hex_text bs) = hex_bytes bs"
  by (induction bs) (simp_all add: hex_text_def hex_bytes_def hex_byte_def hex_char_byte_def)

lemma length_hex_text: "length (hex_text bs) = 2 * length bs"
  by (induction bs) (simp_all add: hex_text_def hex_byte_def)

lemma utf8_hex_text: "utf8_encode (hex_text bs) = hex_bytes bs" "str_bytes_len (hex_text bs) = 2 * length bs"
  using utf8_encode_ascii [OF hex_text_ascii] by (simp_all add: map_hex_text length_hex_text)

lemma valid_str_ascii: "list_all (\<lambda>c. c < 128) s \<Longrightarrow> valid_str s"
  by (induction s) (auto simp: valid_scalar_def)

lemma encode_payload_nonempty: "encode_payload i \<noteq> []"
  by (simp add: encode_payload_def)

lemma encode_identity_hex: "encode_incan_symbol_identity i = INCAN_SYMBOL_RUST_PREFIX @ hex_text (encode_payload i)"
  by (simp add: encode_incan_symbol_identity_def hex_text_def)

lemma decode_encode_identity:
  assumes "valid_identity i"
  shows "decode_incan_symbol_identity (encode_incan_symbol_identity i) = Inr (Some i)"
proof -
  have "hex_text (encode_payload i) \<noteq> []"
    using length_hex_text [of "encode_payload i"] encode_payload_nonempty [of i] by auto
  moreover have "decode_payload (encode_payload i) = Inr (i, [])"
    using identity_codec.dec_enc [OF assms, of "[]"] by simp
  ultimately show ?thesis
    by (simp add: decode_incan_symbol_identity_def encode_identity_hex utf8_hex_text decode_hex_encode)
qed

lemma decode_identity_cases:
  assumes "decode_incan_symbol_identity s = Inr (Some i)"
  shows "\<exists>hex bs. s = INCAN_SYMBOL_RUST_PREFIX @ hex \<and> str_bytes_len hex mod 2 = 0
    \<and> decode_hex (utf8_encode hex) = Inr bs \<and> decode_payload bs = Inr (i, [])"
proof (cases "strip_prefix INCAN_SYMBOL_RUST_PREFIX s")
  case None
  then show ?thesis using assms by (simp add: decode_incan_symbol_identity_def split: option.splits)
next
  case (Some hex)
  then have "\<not> (hex = [] \<or> str_bytes_len hex mod 2 \<noteq> 0)"
    using assms by (cases "hex = [] \<or> str_bytes_len hex mod 2 \<noteq> 0") (simp_all add: decode_incan_symbol_identity_def)
  with assms Some obtain bs where bs: "decode_hex (utf8_encode hex) = Inr bs"
    and p: "(case decode_payload bs of Inl e \<Rightarrow> Inl e
       | Inr (i, rest) \<Rightarrow> if rest \<noteq> [] then Inl TrailingPayload else Inr (Some i)) = Inr (Some i)"
    unfolding decode_incan_symbol_identity_def by (cases "decode_hex (utf8_encode hex)") auto
  have "decode_payload bs = Inr (i, [])"
  proof (cases "decode_payload bs")
    case (Inr z)
    obtain j rest where "z = (j, rest)" by (cases z)
    with p Inr show ?thesis by (cases "rest = []") simp_all
  qed (use p in simp)
  moreover have "s = INCAN_SYMBOL_RUST_PREFIX @ hex" using Some by (simp only: strip_prefix_Some_iff)
  moreover have "str_bytes_len hex mod 2 = 0" using \<open>\<not> _\<close> by blast
  ultimately show ?thesis using bs by (intro exI conjI)
qed

lemma encode_decode_identity:
  assumes "decode_incan_symbol_identity s = Inr (Some i)" and "valid_str s"
  shows "s = encode_incan_symbol_identity i \<and> valid_identity i"
proof -
  obtain hex bs where s: "s = INCAN_SYMBOL_RUST_PREFIX @ hex" and even: "str_bytes_len hex mod 2 = 0"
    and bs: "decode_hex (utf8_encode hex) = Inr bs" and i: "decode_payload bs = Inr (i, [])"
    using decode_identity_cases [OF assms(1)] by (elim exE conjE) rule
  have "utf8_encode hex = utf8_encode (hex_text bs)"
  proof -
    have "even (length (utf8_encode hex))" unfolding length_utf8_encode using even by presburger
    from decode_hex_sound [OF bs this] show ?thesis unfolding utf8_hex_text(1) .
  qed
  moreover have "valid_str hex" using assms(2) s by simp
  ultimately have "hex = hex_text bs"
    using from_utf8_encode valid_str_ascii [OF hex_text_ascii] by (metis option.inject)
  moreover have "bs = encode_payload i \<and> valid_identity i" using identity_codec.enc_dec [OF i] by simp
  ultimately show ?thesis by (simp add: s encode_identity_hex)
qed

section \<open>Demangled symbols\<close>

lemma split_where_nonempty [simp]: "split_where P s \<noteq> []"
  by (cases s) (auto split: list.splits)

lemma split_where_component: "list_all (\<lambda>c. \<not> P c) w \<Longrightarrow> split_where P w = [w]"
  by (induction w) auto

lemma split_where_before:
  "list_all (\<lambda>c. \<not> P c) w \<Longrightarrow> P d \<Longrightarrow> split_where P (w @ d # s) = w # split_where P s"
  by (induction w) auto

lemma split_where_after: "P d \<Longrightarrow> split_where P (a @ d # s) = split_where P a @ split_where P s"
proof (induction a)
  case (Cons c a)
  then show ?case by (cases "split_where P a") auto
qed simp

lemma lit_prefix_marker: "INCAN_SYMBOL_RUST_PREFIX = lit ''__incan_v'' @ lit ''1_''"
  by (simp add: INCAN_SYMBOL_RUST_PREFIX_def)

lemma encoded_starts_with_marker: "starts_with (lit ''__incan_v'') (encode_incan_symbol_identity i)"
  by (simp only: starts_with_def encode_identity_hex lit_prefix_marker append_assoc strip_prefix_append) simp

lemma encoded_is_component: "list_all (\<lambda>c. \<not> \<not> is_symbol_char c) (encode_incan_symbol_identity i)"
  using hex_text_chars [of "encode_payload i"]
  by (simp add: encode_identity_hex INCAN_SYMBOL_RUST_PREFIX_def list_all_iff)
    (simp add: is_symbol_char_def ascii_defs)

text \<open>The boundary on either side of a component: the text ends, or a separator follows.\<close>

definition component_before :: "rstr \<Rightarrow> bool" where
  "component_before a \<longleftrightarrow> a = [] \<or> \<not> is_symbol_char (last a)"

definition component_after :: "rstr \<Rightarrow> bool" where
  "component_after b \<longleftrightarrow> b = [] \<or> \<not> is_symbol_char (hd b)"

definition no_marker :: "rstr \<Rightarrow> bool" where
  "no_marker a \<longleftrightarrow> list_all (\<lambda>w. \<not> starts_with (lit ''__incan_v'') w) (split_where (\<lambda>c. \<not> is_symbol_char c) a)"

lemma split_where_first_component:
  assumes "list_all (\<lambda>c. \<not> P c) w" and "b = [] \<or> P (hd b)"
  shows "\<exists>ws. split_where P (w @ b) = w # ws"
  using assms by (cases b) (auto simp: split_where_component split_where_before)

lemma find_append_none: "list_all (\<lambda>x. \<not> Q x) xs \<Longrightarrow> find Q (xs @ ys) = find Q ys"
  by (induction xs) auto

lemma find_component:
  assumes "component_before a" and "component_after b" and "no_marker a"
  shows "find (starts_with (lit ''__incan_v'')) (split_where (\<lambda>c. \<not> is_symbol_char c) (a @ encode_incan_symbol_identity i @ b))
    = Some (encode_incan_symbol_identity i)"
proof -
  let ?P = "\<lambda>c. \<not> is_symbol_char c"
  obtain ws where ws: "split_where ?P (encode_incan_symbol_identity i @ b) = encode_incan_symbol_identity i # ws"
    using split_where_first_component [OF encoded_is_component] assms(2) unfolding component_after_def by blast
  show ?thesis
  proof (cases "a = []")
    case True
    then show ?thesis by (simp only: True append_Nil ws find.simps encoded_starts_with_marker if_True)
  next
    case False
    then obtain a' d where a: "a = a' @ [d]" by (metis append_butlast_last_id)
    then have d: "?P d" using assms(1) by (simp add: component_before_def)
    have "list_all (\<lambda>w. \<not> starts_with (lit ''__incan_v'') w) (split_where ?P a')"
      using assms(3) split_where_after [of ?P d a' "[]"] d by (simp add: no_marker_def a)
    moreover have "split_where ?P (a @ encode_incan_symbol_identity i @ b)
        = split_where ?P a' @ encode_incan_symbol_identity i # ws"
      using split_where_after [of ?P d a' "encode_incan_symbol_identity i @ b"] d by (simp add: a ws)
    ultimately show ?thesis
      by (simp only: find_append_none find.simps encoded_starts_with_marker if_True)
  qed
qed

section \<open>Properties\<close>

text \<open>
  C9: Decoding inverts encoding: every identity whose text fields are Rust strings and whose
  numbers are 64-bit comes back complete from its emitted identifier.
\<close>
theorem emitted_symbol_roundtrip:
  assumes "valid_identity i"
  shows "decode_incan_symbol_identity (encode_incan_symbol_identity i) = Inr (Some i)"
  using assms by (rule decode_encode_identity)

text \<open>A concrete identity: a method of a package.\<close>

definition sample_identity :: CanonicalSymbolId where
  "sample_identity = \<lparr>namespace = Member, origin = Package (lit ''lib'') [lit ''a''],
     declaration_name = lit ''go'', kind = OtherKind (lit ''hook''), scope_discriminant = Some 7,
     declaration_span = \<lparr>span_start = 3, span_end = 300\<rparr>\<rparr>"

lemma valid_sample_identity: "valid_identity sample_identity"
  by (simp add: sample_identity_def valid_identity_def valid_text_def valid_texts_def in_unsigned_def
      valid_scalar_def len_utf8_def)

theorem emitted_symbol_roundtrip_witness:
  "decode_incan_symbol_identity (encode_incan_symbol_identity sample_identity) = Inr (Some sample_identity)"
  using emitted_symbol_roundtrip [OF valid_sample_identity] .

text \<open>
  C23: The spelling is canonical: an identifier decodes to an identity only if it is that identity's
  encoding, so distinct identifiers never denote the same identity and truncated, padded,
  upper-case or otherwise altered payloads are all rejected.
\<close>
theorem emitted_symbol_canonical:
  assumes "valid_str s" and "decode_incan_symbol_identity s = Inr (Some i)"
  shows "s = encode_incan_symbol_identity i \<and> valid_identity i"
  using assms encode_decode_identity by blast

theorem emitted_symbol_canonical_witness:
  "valid_identity sample_identity \<and> valid_str (encode_incan_symbol_identity sample_identity)"
proof -
  have v: "valid_str (encode_incan_symbol_identity sample_identity)"
    using valid_str_ascii [OF hex_text_ascii [of "encode_payload sample_identity"]]
    by (simp add: encode_identity_hex INCAN_SYMBOL_RUST_PREFIX_def valid_scalar_def)
  from emitted_symbol_canonical [OF v decode_encode_identity [OF valid_sample_identity]] v
  show ?thesis by blast
qed

text \<open>
  C33: In a demangled symbol the identity is recovered from the first path component that carries
  the marker: text before it whose components do not start with the marker, and anything after
  the component's end, do not matter.
\<close>
theorem demangled_symbol_recovers_identity:
  assumes "valid_identity i" and "component_before a" and "component_after b" and "no_marker a"
  shows "decode_incan_identity_from_demangled_symbol (a @ encode_incan_symbol_identity i @ b) = Inr (Some i)"
  using find_component [OF assms(2-4), of i] decode_encode_identity [OF assms(1)]
  by (simp only: decode_incan_identity_from_demangled_symbol_def option.case)

theorem demangled_symbol_recovers_identity_witness:
  "decode_incan_identity_from_demangled_symbol
     (lit ''app::'' @ encode_incan_symbol_identity sample_identity @ lit ''::<i64>'') = Inr (Some sample_identity)"
  by (rule demangled_symbol_recovers_identity [OF valid_sample_identity])
    (simp_all add: component_before_def component_after_def no_marker_def is_symbol_char_def ascii_defs
      starts_with_def)

end
