(* ===== verification/Vocabulary.thy ===== *)
theory Vocabulary
  imports Incan_Prelude
begin

text \<open>
  The spelling registries of \<open>kernel/incan_lang/src/lang\<close>: operators, punctuation and keywords.
  Each table is the source's, split at its comment headings; documentation examples (always empty)
  are left out.  Identifiers carry a prefix (\<open>Op\<close>, \<open>Punct\<close>, \<open>Kw\<close>), since the three enums share
  names.

  The locale \<open>spelling_registry\<close> is what the lexer and the documentation rely on: looking a
  spelling up returns an identifier exactly when the spelling is one of that identifier's, so
  spellings are unambiguous.
\<close>

section \<open>Shared metadata\<close>

datatype Stability = Stable | Draft | Deprecated

type_synonym Since = "nat \<times> nat"
type_synonym RfcId = nat

section \<open>Operators\<close>

datatype Associativity = AssocLeft | AssocRight | AssocNone

datatype Fixity = InfixFixity | PrefixFixity

datatype OperatorId =
  OpPlus | OpMinus | OpStar | OpStarStar | OpSlash | OpSlashSlash | OpPercent | OpMatMul
  | OpPipeForward | OpPipeBackward | OpAmp | OpPipe | OpCaret | OpShl | OpShr | OpTilde | OpEqEq
  | OpNotEq | OpLt | OpLtEq | OpGt | OpGtEq | OpEq | OpPlusEq | OpMinusEq | OpStarEq | OpSlashEq
  | OpSlashSlashEq | OpPercentEq | OpMatMulEq | OpAmpEq | OpPipeEq | OpCaretEq | OpShlEq
  | OpShrEq | OpDotDot | OpDotDotEq | OpAnd | OpOr | OpNot | OpIn | OpIs

record OperatorInfo =
  op_id :: OperatorId
  op_spellings :: "rstr list"
  op_precedence :: nat
  op_associativity :: Associativity
  op_fixity :: Fixity
  op_is_keyword_spelling :: bool
  op_introduced_in_rfc :: RfcId
  op_since :: Since
  op_stability :: Stability

definition op ::
  "OperatorId \<Rightarrow> rstr list \<Rightarrow> nat \<Rightarrow> Associativity \<Rightarrow> Fixity \<Rightarrow> bool \<Rightarrow> RfcId \<Rightarrow> Since \<Rightarrow> OperatorInfo" where
  "op i spellings precedence associativity fixity is_keyword rfc since =
     \<lparr>op_id = i, op_spellings = spellings, op_precedence = precedence, op_associativity = associativity,
      op_fixity = fixity, op_is_keyword_spelling = is_keyword, op_introduced_in_rfc = rfc,
      op_since = since, op_stability = Stable\<rparr>"

definition OPERATORS_ARITHMETIC :: "OperatorInfo list" where
  "OPERATORS_ARITHMETIC =
    [op OpPlus [lit ''+''] 50 AssocLeft InfixFixity False 0 (0, 1),
     op OpMinus [lit ''-''] 50 AssocLeft InfixFixity False 0 (0, 1),
     op OpStar [lit ''*''] 60 AssocLeft InfixFixity False 0 (0, 1),
     op OpStarStar [lit ''**''] 70 AssocRight InfixFixity False 0 (0, 1),
     op OpSlash [lit ''/''] 60 AssocLeft InfixFixity False 0 (0, 1),
     op OpSlashSlash [lit ''//''] 60 AssocLeft InfixFixity False 0 (0, 1),
     op OpPercent [lit ''%''] 60 AssocLeft InfixFixity False 0 (0, 1),
     op OpMatMul [lit ''@''] 60 AssocLeft InfixFixity False 28 (0, 3)]"

definition OPERATORS_PIPE :: "OperatorInfo list" where
  "OPERATORS_PIPE =
    [op OpPipeForward [lit ''|>''] 40 AssocLeft InfixFixity False 28 (0, 3),
     op OpPipeBackward [lit ''<|''] 40 AssocLeft InfixFixity False 28 (0, 3)]"

definition OPERATORS_BITWISE :: "OperatorInfo list" where
  "OPERATORS_BITWISE =
    [op OpAmp [lit ''&''] 45 AssocLeft InfixFixity False 28 (0, 3),
     op OpPipe [lit ''|''] 43 AssocLeft InfixFixity False 28 (0, 3),
     op OpCaret [lit ''^''] 44 AssocLeft InfixFixity False 28 (0, 3),
     op OpShl [lit ''<<''] 48 AssocLeft InfixFixity False 28 (0, 3),
     op OpShr [lit ''>>''] 48 AssocLeft InfixFixity False 28 (0, 3),
     op OpTilde [lit ''~''] 65 AssocRight PrefixFixity False 28 (0, 3)]"

definition OPERATORS_COMPARISON :: "OperatorInfo list" where
  "OPERATORS_COMPARISON =
    [op OpEqEq [lit ''==''] 40 AssocLeft InfixFixity False 0 (0, 1),
     op OpNotEq [lit ''!=''] 40 AssocLeft InfixFixity False 0 (0, 1),
     op OpLt [lit ''<''] 40 AssocLeft InfixFixity False 0 (0, 1),
     op OpLtEq [lit ''<=''] 40 AssocLeft InfixFixity False 0 (0, 1),
     op OpGt [lit ''>''] 40 AssocLeft InfixFixity False 0 (0, 1),
     op OpGtEq [lit ''>=''] 40 AssocLeft InfixFixity False 0 (0, 1)]"

definition OPERATORS_ASSIGNMENT :: "OperatorInfo list" where
  "OPERATORS_ASSIGNMENT =
    [op OpEq [lit ''=''] 10 AssocLeft InfixFixity False 0 (0, 1),
     op OpPlusEq [lit ''+=''] 10 AssocLeft InfixFixity False 0 (0, 1),
     op OpMinusEq [lit ''-=''] 10 AssocLeft InfixFixity False 0 (0, 1),
     op OpStarEq [lit ''*=''] 10 AssocLeft InfixFixity False 0 (0, 1),
     op OpSlashEq [lit ''/=''] 10 AssocLeft InfixFixity False 0 (0, 1),
     op OpSlashSlashEq [lit ''//=''] 10 AssocLeft InfixFixity False 0 (0, 1),
     op OpPercentEq [lit ''%=''] 10 AssocLeft InfixFixity False 0 (0, 1),
     op OpMatMulEq [lit ''@=''] 10 AssocLeft InfixFixity False 28 (0, 3),
     op OpAmpEq [lit ''&=''] 10 AssocLeft InfixFixity False 28 (0, 3),
     op OpPipeEq [lit ''|=''] 10 AssocLeft InfixFixity False 28 (0, 3),
     op OpCaretEq [lit ''^=''] 10 AssocLeft InfixFixity False 28 (0, 3),
     op OpShlEq [lit ''<<=''] 10 AssocLeft InfixFixity False 28 (0, 3),
     op OpShrEq [lit ''>>=''] 10 AssocLeft InfixFixity False 28 (0, 3)]"

definition OPERATORS_RANGE :: "OperatorInfo list" where
  "OPERATORS_RANGE =
    [op OpDotDot [lit ''..''] 42 AssocNone InfixFixity False 0 (0, 1),
     op OpDotDotEq [lit ''..=''] 42 AssocNone InfixFixity False 0 (0, 1)]"

definition OPERATORS_WORD :: "OperatorInfo list" where
  "OPERATORS_WORD =
    [op OpAnd [lit ''and''] 25 AssocLeft InfixFixity True 0 (0, 1),
     op OpOr [lit ''or''] 20 AssocLeft InfixFixity True 0 (0, 1),
     op OpNot [lit ''not''] 30 AssocRight PrefixFixity True 0 (0, 1),
     op OpIn [lit ''in''] 40 AssocLeft InfixFixity True 0 (0, 1),
     op OpIs [lit ''is''] 40 AssocLeft InfixFixity True 0 (0, 1)]"

definition OPERATORS :: "OperatorInfo list" where
  "OPERATORS = OPERATORS_ARITHMETIC @ OPERATORS_PIPE @ OPERATORS_BITWISE @ OPERATORS_COMPARISON @ OPERATORS_ASSIGNMENT @ OPERATORS_RANGE @ OPERATORS_WORD"

fun operator_index :: "OperatorId \<Rightarrow> nat" where
  "operator_index OpPlus = 0"
| "operator_index OpMinus = 1"
| "operator_index OpStar = 2"
| "operator_index OpStarStar = 3"
| "operator_index OpSlash = 4"
| "operator_index OpSlashSlash = 5"
| "operator_index OpPercent = 6"
| "operator_index OpMatMul = 7"
| "operator_index OpPipeForward = 8"
| "operator_index OpPipeBackward = 9"
| "operator_index OpAmp = 10"
| "operator_index OpPipe = 11"
| "operator_index OpCaret = 12"
| "operator_index OpShl = 13"
| "operator_index OpShr = 14"
| "operator_index OpTilde = 15"
| "operator_index OpEqEq = 16"
| "operator_index OpNotEq = 17"
| "operator_index OpLt = 18"
| "operator_index OpLtEq = 19"
| "operator_index OpGt = 20"
| "operator_index OpGtEq = 21"
| "operator_index OpEq = 22"
| "operator_index OpPlusEq = 23"
| "operator_index OpMinusEq = 24"
| "operator_index OpStarEq = 25"
| "operator_index OpSlashEq = 26"
| "operator_index OpSlashSlashEq = 27"
| "operator_index OpPercentEq = 28"
| "operator_index OpMatMulEq = 29"
| "operator_index OpAmpEq = 30"
| "operator_index OpPipeEq = 31"
| "operator_index OpCaretEq = 32"
| "operator_index OpShlEq = 33"
| "operator_index OpShrEq = 34"
| "operator_index OpDotDot = 35"
| "operator_index OpDotDotEq = 36"
| "operator_index OpAnd = 37"
| "operator_index OpOr = 38"
| "operator_index OpNot = 39"
| "operator_index OpIn = 40"
| "operator_index OpIs = 41"

definition operator_info_for :: "OperatorId \<Rightarrow> OperatorInfo" where
  "operator_info_for i = OPERATORS ! operator_index i"

definition operator_from_str :: "rstr \<Rightarrow> OperatorId option" where
  "operator_from_str s = map_option op_id (find (\<lambda>e. s \<in> set (op_spellings e)) OPERATORS)"

section \<open>Punctuation\<close>

datatype PunctuationCategory = DelimiterPunct | SeparatorPunct | AccessPunct | ArrowPunct | MarkerPunct

datatype PunctuationId =
  PunctComma | PunctColon | PunctQuestion | PunctAt | PunctPipe | PunctDot | PunctColonColon
  | PunctArrow | PunctFatArrow | PunctEllipsis | PunctLParen | PunctRParen | PunctLBracket
  | PunctRBracket | PunctLBrace | PunctRBrace

record PunctuationInfo =
  punct_id :: PunctuationId
  punct_canonical :: rstr
  punct_aliases :: "rstr list"
  punct_category :: PunctuationCategory
  punct_introduced_in_rfc :: RfcId
  punct_since :: Since
  punct_stability :: Stability

definition punct_info ::
  "PunctuationId \<Rightarrow> rstr \<Rightarrow> rstr list \<Rightarrow> PunctuationCategory \<Rightarrow> RfcId \<Rightarrow> Since \<Rightarrow> PunctuationInfo" where
  "punct_info i canonical aliases category rfc since =
     \<lparr>punct_id = i, punct_canonical = canonical, punct_aliases = aliases, punct_category = category,
      punct_introduced_in_rfc = rfc, punct_since = since, punct_stability = Stable\<rparr>"

definition PUNCTUATION_SEPARATORS :: "PunctuationInfo list" where
  "PUNCTUATION_SEPARATORS =
    [punct_info PunctComma (lit '','') [] SeparatorPunct 0 (0, 1),
     punct_info PunctColon (lit '':'') [] SeparatorPunct 0 (0, 1),
     punct_info PunctQuestion (lit ''?'') [] MarkerPunct 0 (0, 1),
     punct_info PunctAt (lit ''@'') [] MarkerPunct 0 (0, 1),
     punct_info PunctPipe (lit ''|'') [] MarkerPunct 40 (0, 3)]"

definition PUNCTUATION_ACCESS :: "PunctuationInfo list" where
  "PUNCTUATION_ACCESS =
    [punct_info PunctDot (lit ''.'') [] AccessPunct 0 (0, 1),
     punct_info PunctColonColon (lit ''::'') [] AccessPunct 0 (0, 1)]"

definition PUNCTUATION_ARROWS :: "PunctuationInfo list" where
  "PUNCTUATION_ARROWS =
    [punct_info PunctArrow (lit ''->'') [] ArrowPunct 0 (0, 1),
     punct_info PunctFatArrow (lit ''=>'') [] ArrowPunct 0 (0, 1)]"

definition PUNCTUATION_SPECIAL :: "PunctuationInfo list" where
  "PUNCTUATION_SPECIAL =
    [punct_info PunctEllipsis (lit ''...'') [] MarkerPunct 0 (0, 1)]"

definition PUNCTUATION_DELIMITERS :: "PunctuationInfo list" where
  "PUNCTUATION_DELIMITERS =
    [punct_info PunctLParen (lit ''('') [] DelimiterPunct 0 (0, 1),
     punct_info PunctRParen (lit '')'') [] DelimiterPunct 0 (0, 1),
     punct_info PunctLBracket (lit ''['') [] DelimiterPunct 0 (0, 1),
     punct_info PunctRBracket (lit '']'') [] DelimiterPunct 0 (0, 1),
     punct_info PunctLBrace (lit ''{'') [] DelimiterPunct 0 (0, 1),
     punct_info PunctRBrace (lit ''}'') [] DelimiterPunct 0 (0, 1)]"

definition PUNCTUATION :: "PunctuationInfo list" where
  "PUNCTUATION = PUNCTUATION_SEPARATORS @ PUNCTUATION_ACCESS @ PUNCTUATION_ARROWS @ PUNCTUATION_SPECIAL @ PUNCTUATION_DELIMITERS"

fun punctuation_index :: "PunctuationId \<Rightarrow> nat" where
  "punctuation_index PunctComma = 0"
| "punctuation_index PunctColon = 1"
| "punctuation_index PunctQuestion = 2"
| "punctuation_index PunctAt = 3"
| "punctuation_index PunctPipe = 4"
| "punctuation_index PunctDot = 5"
| "punctuation_index PunctColonColon = 6"
| "punctuation_index PunctArrow = 7"
| "punctuation_index PunctFatArrow = 8"
| "punctuation_index PunctEllipsis = 9"
| "punctuation_index PunctLParen = 10"
| "punctuation_index PunctRParen = 11"
| "punctuation_index PunctLBracket = 12"
| "punctuation_index PunctRBracket = 13"
| "punctuation_index PunctLBrace = 14"
| "punctuation_index PunctRBrace = 15"

definition punctuation_info_for :: "PunctuationId \<Rightarrow> PunctuationInfo" where
  "punctuation_info_for i = PUNCTUATION ! punctuation_index i"

definition punctuation_as_str :: "PunctuationId \<Rightarrow> rstr" where
  "punctuation_as_str i = punct_canonical (punctuation_info_for i)"

definition punctuation_from_str :: "rstr \<Rightarrow> PunctuationId option" where
  "punctuation_from_str s =
     (case find (\<lambda>p. punct_canonical p = s) PUNCTUATION of
        Some p \<Rightarrow> Some (punct_id p)
      | None \<Rightarrow> map_option punct_id (find (\<lambda>p. s \<in> set (punct_aliases p)) PUNCTUATION))"

section \<open>Keywords\<close>

datatype KeywordId =
  KwIf | KwElse | KwElif | KwMatch | KwCase | KwLoop | KwWhile | KwFor | KwBreak | KwContinue
  | KwReturn | KwYield | KwPass | KwAssert | KwWhen | KwDef | KwAsync | KwAwait | KwCapability
  | KwClass | KwModel | KwTrait | KwEnum | KwType | KwNewtype | KwWith | KwExtends | KwPub
  | KwAlias | KwImport | KwFrom | KwAs | KwRust | KwPython | KwSuper | KwCrate | KwConst
  | KwStatic | KwLet | KwMut | KwSelfKw | KwCls | KwTrue | KwFalse | KwNone | KwAnd | KwOr
  | KwNot | KwIn | KwIs

datatype KeywordCategory =
  ControlFlowCategory | DefinitionCategory | ImportCategory | BindingCategory | LiteralCategory | OperatorCategory

datatype KeywordUsage = StatementUsage | ExpressionUsage | ModifierUsage | OperatorUsage | ReceiverOnlyUsage

datatype KeywordActivation = Hard | Contextual | Soft rstr

datatype KeywordSurfaceKind = StatementKeywordArgs | PrefixExpression | DeclarationModifier

record KeywordDescriptor =
  kw_id :: KeywordId
  kw_canonical :: rstr
  kw_aliases :: "rstr list"
  kw_activation :: KeywordActivation
  kw_surface_kind :: "KeywordSurfaceKind option"
  kw_category :: KeywordCategory
  kw_usage :: "KeywordUsage list"
  kw_introduced_in_rfc :: RfcId
  kw_since :: Since
  kw_stability :: Stability

definition kw_info ::
  "KeywordId \<Rightarrow> rstr \<Rightarrow> rstr list \<Rightarrow> KeywordCategory \<Rightarrow> KeywordUsage list \<Rightarrow> RfcId \<Rightarrow> Since \<Rightarrow> KeywordDescriptor" where
  "kw_info i canonical aliases category usage rfc since =
     \<lparr>kw_id = i, kw_canonical = canonical, kw_aliases = aliases, kw_activation = Hard, kw_surface_kind = None,
      kw_category = category, kw_usage = usage, kw_introduced_in_rfc = rfc, kw_since = since,
      kw_stability = Stable\<rparr>"

definition kw_info_with_aliases ::
  "KeywordId \<Rightarrow> rstr \<Rightarrow> rstr list \<Rightarrow> KeywordCategory \<Rightarrow> KeywordUsage list \<Rightarrow> RfcId \<Rightarrow> Since \<Rightarrow> KeywordDescriptor" where
  "kw_info_with_aliases = kw_info"

definition kw_info_soft ::
  "KeywordId \<Rightarrow> rstr \<Rightarrow> rstr \<Rightarrow> KeywordSurfaceKind \<Rightarrow> KeywordCategory \<Rightarrow> KeywordUsage list \<Rightarrow> RfcId \<Rightarrow> Since
    \<Rightarrow> Stability \<Rightarrow> KeywordDescriptor" where
  "kw_info_soft i canonical activation_namespace surface category usage rfc since stability =
     \<lparr>kw_id = i, kw_canonical = canonical, kw_aliases = [], kw_activation = Soft activation_namespace,
      kw_surface_kind = Some surface, kw_category = category, kw_usage = usage, kw_introduced_in_rfc = rfc,
      kw_since = since, kw_stability = stability\<rparr>"

definition kw_info_contextual ::
  "KeywordId \<Rightarrow> rstr \<Rightarrow> KeywordSurfaceKind \<Rightarrow> KeywordCategory \<Rightarrow> KeywordUsage list \<Rightarrow> RfcId \<Rightarrow> Since
    \<Rightarrow> Stability \<Rightarrow> KeywordDescriptor" where
  "kw_info_contextual i canonical surface category usage rfc since stability =
     \<lparr>kw_id = i, kw_canonical = canonical, kw_aliases = [], kw_activation = Contextual,
      kw_surface_kind = Some surface, kw_category = category, kw_usage = usage, kw_introduced_in_rfc = rfc,
      kw_since = since, kw_stability = stability\<rparr>"

definition kw_info_contextual_binding ::
  "KeywordId \<Rightarrow> rstr \<Rightarrow> KeywordCategory \<Rightarrow> KeywordUsage list \<Rightarrow> RfcId \<Rightarrow> Since \<Rightarrow> Stability
    \<Rightarrow> KeywordDescriptor" where
  "kw_info_contextual_binding i canonical category usage rfc since stability =
     \<lparr>kw_id = i, kw_canonical = canonical, kw_aliases = [], kw_activation = Contextual,
      kw_surface_kind = None, kw_category = category, kw_usage = usage, kw_introduced_in_rfc = rfc,
      kw_since = since, kw_stability = stability\<rparr>"

definition KEYWORDS_CONTROL :: "KeywordDescriptor list" where
  "KEYWORDS_CONTROL =
    [kw_info KwIf (lit ''if'') [] ControlFlowCategory [StatementUsage, ExpressionUsage] 0 (0, 1),
     kw_info KwElse (lit ''else'') [] ControlFlowCategory [StatementUsage] 0 (0, 1),
     kw_info KwElif (lit ''elif'') [] ControlFlowCategory [StatementUsage] 0 (0, 1),
     kw_info KwMatch (lit ''match'') [] ControlFlowCategory [StatementUsage, ExpressionUsage] 0 (0, 1),
     kw_info KwCase (lit ''case'') [] ControlFlowCategory [StatementUsage] 0 (0, 1),
     kw_info KwLoop (lit ''loop'') [] ControlFlowCategory [StatementUsage, ExpressionUsage] 16 (0, 3),
     kw_info KwWhile (lit ''while'') [] ControlFlowCategory [StatementUsage] 0 (0, 1),
     kw_info KwFor (lit ''for'') [] ControlFlowCategory [StatementUsage] 0 (0, 1),
     kw_info KwBreak (lit ''break'') [] ControlFlowCategory [StatementUsage] 0 (0, 1),
     kw_info KwContinue (lit ''continue'') [] ControlFlowCategory [StatementUsage] 0 (0, 1),
     kw_info KwReturn (lit ''return'') [] ControlFlowCategory [StatementUsage] 0 (0, 1),
     kw_info KwYield (lit ''yield'') [] ControlFlowCategory [StatementUsage, ExpressionUsage] 1 (0, 1),
     kw_info KwPass (lit ''pass'') [] ControlFlowCategory [StatementUsage] 0 (0, 1),
     kw_info_contextual KwAssert (lit ''assert'') StatementKeywordArgs ControlFlowCategory [StatementUsage] 18 (0, 3) Draft,
     kw_info_contextual_binding KwWhen (lit ''when'') ControlFlowCategory [StatementUsage] 114 (0, 5) Stable]"

definition KEYWORDS_DEFINITION :: "KeywordDescriptor list" where
  "KEYWORDS_DEFINITION =
    [kw_info_with_aliases KwDef (lit ''def'') [lit ''fn''] DefinitionCategory [StatementUsage] 0 (0, 1),
     kw_info_soft KwAsync (lit ''async'') (lit ''async'') DeclarationModifier DefinitionCategory [ModifierUsage] 0 (0, 1) Stable,
     kw_info_soft KwAwait (lit ''await'') (lit ''async'') PrefixExpression DefinitionCategory [ExpressionUsage] 0 (0, 1) Stable,
     kw_info_contextual_binding KwCapability (lit ''capability'') DefinitionCategory [StatementUsage] 104 (0, 6) Draft,
     kw_info KwClass (lit ''class'') [] DefinitionCategory [StatementUsage] 0 (0, 1),
     kw_info KwModel (lit ''model'') [] DefinitionCategory [StatementUsage] 0 (0, 1),
     kw_info KwTrait (lit ''trait'') [] DefinitionCategory [StatementUsage] 0 (0, 1),
     kw_info KwEnum (lit ''enum'') [] DefinitionCategory [StatementUsage] 0 (0, 1),
     kw_info KwType (lit ''type'') [] DefinitionCategory [StatementUsage] 0 (0, 1),
     kw_info KwNewtype (lit ''newtype'') [] DefinitionCategory [StatementUsage] 0 (0, 1),
     kw_info KwWith (lit ''with'') [] DefinitionCategory [ModifierUsage] 0 (0, 1),
     kw_info KwExtends (lit ''extends'') [] DefinitionCategory [ModifierUsage] 0 (0, 1),
     kw_info KwPub (lit ''pub'') [] DefinitionCategory [ModifierUsage] 0 (0, 1),
     kw_info_contextual_binding KwAlias (lit ''alias'') DefinitionCategory [ModifierUsage] 83 (0, 3) Stable]"

definition KEYWORDS_IMPORT :: "KeywordDescriptor list" where
  "KEYWORDS_IMPORT =
    [kw_info KwImport (lit ''import'') [] ImportCategory [StatementUsage] 0 (0, 1),
     kw_info KwFrom (lit ''from'') [] ImportCategory [StatementUsage] 0 (0, 1),
     kw_info KwAs (lit ''as'') [] ImportCategory [ModifierUsage] 0 (0, 1),
     kw_info KwRust (lit ''rust'') [] ImportCategory [ModifierUsage] 5 (0, 1),
     kw_info KwPython (lit ''python'') [] ImportCategory [ModifierUsage] 0 (0, 1),
     kw_info KwSuper (lit ''super'') [] ImportCategory [ExpressionUsage] 0 (0, 1),
     kw_info KwCrate (lit ''crate'') [] ImportCategory [ExpressionUsage] 5 (0, 1)]"

definition KEYWORDS_BINDING :: "KeywordDescriptor list" where
  "KEYWORDS_BINDING =
    [kw_info KwConst (lit ''const'') [] BindingCategory [StatementUsage] 8 (0, 1),
     kw_info KwStatic (lit ''static'') [] BindingCategory [StatementUsage] 52 (0, 2),
     kw_info KwLet (lit ''let'') [] BindingCategory [StatementUsage] 0 (0, 1),
     kw_info KwMut (lit ''mut'') [] BindingCategory [ModifierUsage] 0 (0, 1),
     kw_info KwSelfKw (lit ''self'') [] BindingCategory [ReceiverOnlyUsage] 0 (0, 1),
     kw_info_contextual_binding KwCls (lit ''cls'') BindingCategory [ReceiverOnlyUsage] 0 (0, 2) Stable]"

definition KEYWORDS_LITERAL :: "KeywordDescriptor list" where
  "KEYWORDS_LITERAL =
    [kw_info_with_aliases KwTrue (lit ''true'') [lit ''True''] LiteralCategory [ExpressionUsage] 0 (0, 1),
     kw_info_with_aliases KwFalse (lit ''false'') [lit ''False''] LiteralCategory [ExpressionUsage] 0 (0, 1),
     kw_info KwNone (lit ''None'') [] LiteralCategory [ExpressionUsage] 0 (0, 1)]"

definition KEYWORDS_WORD :: "KeywordDescriptor list" where
  "KEYWORDS_WORD =
    [kw_info KwAnd (lit ''and'') [] OperatorCategory [OperatorUsage] 0 (0, 1),
     kw_info KwOr (lit ''or'') [] OperatorCategory [OperatorUsage] 0 (0, 1),
     kw_info KwNot (lit ''not'') [] OperatorCategory [OperatorUsage] 0 (0, 1),
     kw_info KwIn (lit ''in'') [] OperatorCategory [OperatorUsage] 0 (0, 1),
     kw_info KwIs (lit ''is'') [] OperatorCategory [OperatorUsage] 0 (0, 1)]"

definition KEYWORDS :: "KeywordDescriptor list" where
  "KEYWORDS = KEYWORDS_CONTROL @ KEYWORDS_DEFINITION @ KEYWORDS_IMPORT @ KEYWORDS_BINDING @ KEYWORDS_LITERAL @ KEYWORDS_WORD"

text \<open>\<open>info_for\<close> panics on a keyword without an entry; \<open>keyword_info_total\<close> shows there is none.\<close>

definition keyword_info_for :: "KeywordId \<Rightarrow> KeywordDescriptor option" where
  "keyword_info_for i = find (\<lambda>k. kw_id k = i) KEYWORDS"

definition keyword_as_str :: "KeywordId \<Rightarrow> rstr" where
  "keyword_as_str i = kw_canonical (the (keyword_info_for i))"

definition keyword_aliases :: "KeywordId \<Rightarrow> rstr list" where
  "keyword_aliases i = kw_aliases (the (keyword_info_for i))"

definition keyword_category :: "KeywordId \<Rightarrow> KeywordCategory" where
  "keyword_category i = kw_category (the (keyword_info_for i))"

definition surface_kind :: "KeywordId \<Rightarrow> KeywordSurfaceKind option" where
  "surface_kind i = kw_surface_kind (the (keyword_info_for i))"

definition supports_surface_kind :: "KeywordId \<Rightarrow> KeywordSurfaceKind \<Rightarrow> bool" where
  "supports_surface_kind i k \<longleftrightarrow> surface_kind i = Some k"

definition activation_kind :: "KeywordId \<Rightarrow> KeywordActivation" where
  "activation_kind i = kw_activation (the (keyword_info_for i))"

definition activation :: "KeywordId \<Rightarrow> rstr option" where
  "activation i = (case activation_kind i of Hard \<Rightarrow> None | Contextual \<Rightarrow> None | Soft ns \<Rightarrow> Some ns)"

definition is_soft :: "KeywordId \<Rightarrow> bool" where
  "is_soft i \<longleftrightarrow> (case activation_kind i of Contextual \<Rightarrow> True | Soft _ \<Rightarrow> True | Hard \<Rightarrow> False)"

definition is_hard :: "KeywordId \<Rightarrow> bool" where
  "is_hard i \<longleftrightarrow> activation_kind i = Hard"

definition keyword_from_str :: "rstr \<Rightarrow> KeywordId option" where
  "keyword_from_str s =
     (case find (\<lambda>k. kw_canonical k = s) KEYWORDS of
        Some k \<Rightarrow> Some (kw_id k)
      | None \<Rightarrow> map_option kw_id (find (\<lambda>k. s \<in> set (kw_aliases k)) KEYWORDS))"

definition from_str_hard_only :: "rstr \<Rightarrow> KeywordId option" where
  "from_str_hard_only s =
     (case keyword_from_str s of Some i \<Rightarrow> if is_hard i then Some i else None | None \<Rightarrow> None)"

definition soft_keywords_for_namespace :: "rstr \<Rightarrow> KeywordId list" where
  "soft_keywords_for_namespace ns =
     List.map_filter (\<lambda>k. case kw_activation k of Soft n \<Rightarrow> if n = ns then Some (kw_id k) else None | _ \<Rightarrow> None) KEYWORDS"

section \<open>The contract of a registry\<close>

locale spelling_registry =
  fixes lookup :: "rstr \<Rightarrow> 'i option" and spellings :: "'i \<Rightarrow> rstr list"
  assumes lookup_iff: "lookup s = Some i \<longleftrightarrow> s \<in> set (spellings i)"
begin

lemma unambiguous: "s \<in> set (spellings i) \<Longrightarrow> s \<in> set (spellings j) \<Longrightarrow> i = j"
  using lookup_iff by (metis option.inject)

lemma lookup_None_iff: "lookup s = None \<longleftrightarrow> (\<forall>i. s \<notin> set (spellings i))"
  using lookup_iff by (metis not_Some_eq)

end

lemma distinct_concat_unique:
  "distinct (concat (map sp tab)) \<Longrightarrow> e \<in> set tab \<Longrightarrow> f \<in> set tab \<Longrightarrow> s \<in> set (sp e) \<Longrightarrow> s \<in> set (sp f) \<Longrightarrow> e = f"
proof (induction tab)
  case (Cons x tab)
  then show ?case by (cases "e = x"; cases "f = x") auto
qed simp

lemma distinct_map_unique: "distinct (map f tab) \<Longrightarrow> e \<in> set tab \<Longrightarrow> e' \<in> set tab \<Longrightarrow> f e = f e' \<Longrightarrow> e = e'"
  by (auto simp: distinct_map inj_on_def)

lemma registry_lookup:
  assumes "distinct (concat (map sp tab))" and "distinct (map ident tab)"
    and "info i \<in> set tab" and "ident (info i) = i"
  shows "map_option ident (find (\<lambda>e. s \<in> set (sp e)) tab) = Some i \<longleftrightarrow> s \<in> set (sp (info i))"
proof
  assume "map_option ident (find (\<lambda>e. s \<in> set (sp e)) tab) = Some i"
  then obtain e where e: "find (\<lambda>e. s \<in> set (sp e)) tab = Some e" "ident e = i" by auto
  from find_SomeD [OF e(1)] have "s \<in> set (sp e)" "e \<in> set tab" by auto
  with e(2) distinct_map_unique [OF assms(2), of e "info i"] assms(3,4) show "s \<in> set (sp (info i))" by simp
next
  assume s: "s \<in> set (sp (info i))"
  then have "find (\<lambda>e. s \<in> set (sp e)) tab \<noteq> None" using assms(3) by (auto simp: find_None_iff)
  then obtain e where e: "find (\<lambda>e. s \<in> set (sp e)) tab = Some e" by auto
  from find_SomeD [OF e] have "e = info i" using distinct_concat_unique [OF assms(1)] s assms(3) by blast
  with e assms(4) show "map_option ident (find (\<lambda>e. s \<in> set (sp e)) tab) = Some i" by simp
qed

text \<open>Looking among the canonical spellings first and then among the aliases.\<close>

lemma registry_lookup_aliases:
  assumes "distinct (concat (map (\<lambda>e. can e # al e) tab))" and "distinct (map ident tab)"
    and "info i \<in> set tab" and "ident (info i) = i"
  shows "(case find (\<lambda>e. can e = s) tab of Some e \<Rightarrow> Some (ident e)
          | None \<Rightarrow> map_option ident (find (\<lambda>e. s \<in> set (al e)) tab)) = Some i
      \<longleftrightarrow> s = can (info i) \<or> s \<in> set (al (info i))"
proof -
  have u: "e = f" if "e \<in> set tab" "f \<in> set tab" "s \<in> set (can e # al e)" "s \<in> set (can f # al f)" for e f
    using distinct_concat_unique [OF assms(1) that] .
  have "(case find (\<lambda>e. can e = s) tab of Some e \<Rightarrow> Some (ident e)
          | None \<Rightarrow> map_option ident (find (\<lambda>e. s \<in> set (al e)) tab))
      = map_option ident (find (\<lambda>e. s \<in> set (can e # al e)) tab)"
  proof (cases "find (\<lambda>e. can e = s) tab")
    case None
    then have "\<forall>e \<in> set tab. s \<noteq> can e" by (auto simp: find_None_iff)
    then have "find (\<lambda>e. s \<in> set (can e # al e)) tab = find (\<lambda>e. s \<in> set (al e)) tab"
      by (intro find_cong) auto
    with None show ?thesis by simp
  next
    case (Some e)
    from find_SomeD [OF Some] have e: "can e = s" "e \<in> set tab" by auto
    then have "find (\<lambda>e. s \<in> set (can e # al e)) tab \<noteq> None" by (auto simp: find_None_iff)
    then obtain f where f: "find (\<lambda>e. s \<in> set (can e # al e)) tab = Some f" by auto
    from find_SomeD [OF f] have "f = e" using u [of f e] e by simp
    with f Some show ?thesis by simp
  qed
  then show ?thesis
    using registry_lookup [where sp = "\<lambda>e. can e # al e" and info = info and i = i, OF assms, of s] by simp
qed

lemmas operator_table = OPERATORS_def OPERATORS_ARITHMETIC_def OPERATORS_PIPE_def OPERATORS_BITWISE_def
  OPERATORS_COMPARISON_def OPERATORS_ASSIGNMENT_def OPERATORS_RANGE_def OPERATORS_WORD_def op_def

lemmas punctuation_table = PUNCTUATION_def PUNCTUATION_SEPARATORS_def PUNCTUATION_ACCESS_def
  PUNCTUATION_ARROWS_def PUNCTUATION_SPECIAL_def PUNCTUATION_DELIMITERS_def punct_info_def

lemmas keyword_table = KEYWORDS_def KEYWORDS_CONTROL_def KEYWORDS_DEFINITION_def KEYWORDS_IMPORT_def
  KEYWORDS_BINDING_def KEYWORDS_LITERAL_def KEYWORDS_WORD_def kw_info_def kw_info_with_aliases_def
  kw_info_soft_def kw_info_contextual_def kw_info_contextual_binding_def

lemma operators_distinct: "distinct (concat (map op_spellings OPERATORS))" "distinct (map op_id OPERATORS)"
  by (simp_all add: operator_table)

lemma operator_info_in: "operator_info_for i \<in> set OPERATORS \<and> op_id (operator_info_for i) = i"
  by (cases i) (simp_all add: operator_info_for_def operator_table)

interpretation op_reg: spelling_registry operator_from_str "\<lambda>i. op_spellings (operator_info_for i)"
  by unfold_locales
    (unfold operator_from_str_def, rule registry_lookup [where info = operator_info_for],
      simp_all only: operators_distinct operator_info_in simp_thms)

lemma punctuation_distinct:
  "distinct (concat (map (\<lambda>p. punct_canonical p # punct_aliases p) PUNCTUATION))" "distinct (map punct_id PUNCTUATION)"
  by (simp_all add: punctuation_table)

lemma punctuation_info_in: "punctuation_info_for i \<in> set PUNCTUATION \<and> punct_id (punctuation_info_for i) = i"
  by (cases i) (simp_all add: punctuation_info_for_def punctuation_table)

interpretation punct_reg: spelling_registry punctuation_from_str
  "\<lambda>i. punct_canonical (punctuation_info_for i) # punct_aliases (punctuation_info_for i)"
proof
  fix s i
  show "punctuation_from_str s = Some i \<longleftrightarrow>
      s \<in> set (punct_canonical (punctuation_info_for i) # punct_aliases (punctuation_info_for i))"
    using registry_lookup_aliases [where info = punctuation_info_for and i = i, OF punctuation_distinct, of s]
    by (simp add: punctuation_from_str_def punctuation_info_in)
qed

lemma keywords_distinct:
  "distinct (concat (map (\<lambda>k. kw_canonical k # kw_aliases k) KEYWORDS))" "distinct (map kw_id KEYWORDS)"
  by (simp_all add: keyword_table)

lemma keyword_info_total: "\<exists>k. keyword_info_for i = Some k \<and> k \<in> set KEYWORDS \<and> kw_id k = i"
proof -
  have "i \<in> set (map kw_id KEYWORDS)" by (cases i) (simp_all add: keyword_table)
  then have "keyword_info_for i \<noteq> None" by (auto simp: keyword_info_for_def find_None_iff)
  then obtain k where "keyword_info_for i = Some k" by auto
  with find_SomeD [of "\<lambda>k. kw_id k = i" KEYWORDS k] show ?thesis by (simp add: keyword_info_for_def)
qed

lemma keyword_info_in: "the (keyword_info_for i) \<in> set KEYWORDS \<and> kw_id (the (keyword_info_for i)) = i"
  using keyword_info_total [of i] by auto

interpretation kw_reg: spelling_registry keyword_from_str "\<lambda>i. keyword_as_str i # keyword_aliases i"
proof
  fix s i
  show "keyword_from_str s = Some i \<longleftrightarrow> s \<in> set (keyword_as_str i # keyword_aliases i)"
    using registry_lookup_aliases [where info = "\<lambda>i. the (keyword_info_for i)" and i = i, OF keywords_distinct, of s]
    by (simp add: keyword_from_str_def keyword_as_str_def keyword_aliases_def keyword_info_in)
qed

lemma is_hard_or_soft: "is_soft i \<longleftrightarrow> \<not> is_hard i"
  by (auto simp: is_soft_def is_hard_def split: KeywordActivation.splits)

lemma map_filter_iff: "y \<in> set (List.map_filter f xs) \<longleftrightarrow> (\<exists>x \<in> set xs. f x = Some y)"
  by (force simp: List.map_filter_def)

lemma KEYWORDS_info: "k \<in> set KEYWORDS \<Longrightarrow> keyword_info_for (kw_id k) = Some k"
proof -
  assume k: "k \<in> set KEYWORDS"
  obtain k' where "keyword_info_for (kw_id k) = Some k'" "k' \<in> set KEYWORDS" "kw_id k' = kw_id k"
    using keyword_info_total [of "kw_id k"] by blast
  with distinct_map_unique [OF keywords_distinct(2), of k' k] k show ?thesis by simp
qed

lemma soft_keywords_iff: "i \<in> set (soft_keywords_for_namespace ns) \<longleftrightarrow> activation i = Some ns"
proof -
  obtain k where k: "keyword_info_for i = Some k" "k \<in> set KEYWORDS" "kw_id k = i"
    using keyword_info_total [of i] by blast
  have "i \<in> set (soft_keywords_for_namespace ns) \<longleftrightarrow> (\<exists>e \<in> set KEYWORDS. kw_activation e = Soft ns \<and> kw_id e = i)"
  proof -
    have "(case kw_activation e of Soft n \<Rightarrow> if n = ns then Some (kw_id e) else None | _ \<Rightarrow> None) = Some i
        \<longleftrightarrow> kw_activation e = Soft ns \<and> kw_id e = i" for e
      by (cases "kw_activation e") auto
    then show ?thesis unfolding soft_keywords_for_namespace_def map_filter_iff by (intro bex_cong refl)
  qed
  also have "\<dots> \<longleftrightarrow> kw_activation k = Soft ns"
    using k KEYWORDS_info by (metis option.inject)
  also have "\<dots> \<longleftrightarrow> activation i = Some ns"
    by (simp add: activation_def activation_kind_def k(1) split: KeywordActivation.splits)
  finally show ?thesis .
qed

lemma keyword_spelling_cases:
  "op_is_keyword_spelling (operator_info_for i) \<longleftrightarrow> i \<in> {OpAnd, OpOr, OpNot, OpIn, OpIs}"
  by (cases i) (simp_all add: operator_info_for_def operator_table)

lemma keyword_spelling_alphabetic:
  "list_all (\<lambda>k. list_all (\<lambda>s. is_ascii_alphabetic (hd s)) (kw_canonical k # kw_aliases k)) KEYWORDS"
  by (simp add: keyword_table is_ascii_alphabetic_def)

lemma keyword_from_str_alphabetic: "keyword_from_str s = Some k \<Longrightarrow> is_ascii_alphabetic (hd s)"
  using keyword_spelling_alphabetic keyword_info_in [of k]
  by (auto simp: kw_reg.lookup_iff keyword_as_str_def keyword_aliases_def list_all_iff)

lemma symbol_operator_spelling:
  "i \<notin> {OpAnd, OpOr, OpNot, OpIn, OpIs} \<Longrightarrow> s \<in> set (op_spellings (operator_info_for i)) \<Longrightarrow> \<not> is_ascii_alphabetic (hd s)"
  by (cases i) (simp_all add: operator_info_for_def operator_table is_ascii_alphabetic_def)

lemma word_spellings:
  "keyword_as_str KwAnd = lit ''and''" "keyword_as_str KwOr = lit ''or''" "keyword_as_str KwNot = lit ''not''"
  "keyword_as_str KwIn = lit ''in''" "keyword_as_str KwIs = lit ''is''"
  by (simp_all add: keyword_as_str_def keyword_info_for_def keyword_table)

lemma word_operator_spellings:
  "op_spellings (operator_info_for OpAnd) = [lit ''and'']" "op_spellings (operator_info_for OpOr) = [lit ''or'']"
  "op_spellings (operator_info_for OpNot) = [lit ''not'']" "op_spellings (operator_info_for OpIn) = [lit ''in'']"
  "op_spellings (operator_info_for OpIs) = [lit ''is'']"
  by (simp_all add: operator_info_for_def operator_table)

fun word_keyword :: "OperatorId \<Rightarrow> KeywordId option" where
  "word_keyword OpAnd = Some KwAnd"
| "word_keyword OpOr = Some KwOr"
| "word_keyword OpNot = Some KwNot"
| "word_keyword OpIn = Some KwIn"
| "word_keyword OpIs = Some KwIs"
| "word_keyword _ = None"

lemma operator_spelling_keyword:
  assumes "s \<in> set (op_spellings (operator_info_for i))"
  shows "keyword_from_str s = word_keyword i"
proof (cases "i \<in> {OpAnd, OpOr, OpNot, OpIn, OpIs}")
  case True
  have "s = keyword_as_str k" if "word_keyword i = Some k" for k
    using True assms that by (auto simp: word_spellings word_operator_spellings)
  then show ?thesis using True kw_reg.lookup_iff [of s] by auto
next
  case False
  then have "keyword_from_str s = None"
    using symbol_operator_spelling assms keyword_from_str_alphabetic by (metis option.exhaust)
  moreover have "word_keyword i = None" using False by (cases i) simp_all
  ultimately show ?thesis by simp
qed

lemma word_keyword_Some_iff: "(\<exists>k. word_keyword i = Some k) \<longleftrightarrow> i \<in> {OpAnd, OpOr, OpNot, OpIn, OpIs}"
  by (cases i) simp_all

lemma word_keyword_range: "word_keyword i = Some k \<Longrightarrow> k \<in> {KwAnd, KwOr, KwNot, KwIn, KwIs}"
  by (cases i) auto

lemma word_keyword_onto:
  "k \<in> {KwAnd, KwOr, KwNot, KwIn, KwIs} \<Longrightarrow>
     \<exists>w. operator_from_str (keyword_as_str k) = Some w \<and> w \<in> {OpAnd, OpOr, OpNot, OpIn, OpIs}"
  by (auto simp: op_reg.lookup_iff word_spellings word_operator_spellings intro: exI [of _ OpAnd] exI [of _ OpOr] exI [of _ OpNot]
      exI [of _ OpIn] exI [of _ OpIs])

lemma keyword_categories:
  "list_all (\<lambda>k. (kw_id k \<in> {KwAnd, KwOr, KwNot, KwIn, KwIs}) = (kw_category k = OperatorCategory)
      \<and> (kw_category k = OperatorCategory \<longrightarrow> kw_activation k = Hard)) KEYWORDS"
  by (simp add: keyword_table)

lemma word_keywords:
  "k \<in> {KwAnd, KwOr, KwNot, KwIn, KwIs} \<longleftrightarrow> keyword_category k = OperatorCategory"
  "keyword_category k = OperatorCategory \<Longrightarrow> is_hard k"
  using keyword_categories keyword_info_in [of k]
  by (auto simp: list_all_iff keyword_category_def is_hard_def activation_kind_def)

section \<open>Properties\<close>

text \<open>
  Spelling lookup is exact in all three registries: it returns an identifier exactly for the
  spellings (canonical or alias) its entry lists, so every identifier resolves, no spelling is
  ambiguous within its registry, and nothing else resolves.
\<close>
theorem vocabulary_lookup_exact:
  "(operator_from_str s = Some o1 \<longleftrightarrow> s \<in> set (op_spellings (operator_info_for o1)))
   \<and> (punctuation_from_str s = Some p1 \<longleftrightarrow>
        s = punctuation_as_str p1 \<or> s \<in> set (punct_aliases (punctuation_info_for p1)))
   \<and> (keyword_from_str s = Some k1 \<longleftrightarrow> s = keyword_as_str k1 \<or> s \<in> set (keyword_aliases k1))"
  by (simp add: op_reg.lookup_iff punct_reg.lookup_iff kw_reg.lookup_iff punctuation_as_str_def)

text \<open>
  Keyword reservation is consistent: the lexer's lookup finds exactly the hard keywords, each
  keyword is either hard or soft, and the soft keywords an import activates are exactly those whose
  activation names that namespace.
\<close>
theorem keyword_reservation_consistent:
  "(from_str_hard_only s = Some k \<longleftrightarrow> (s = keyword_as_str k \<or> s \<in> set (keyword_aliases k)) \<and> is_hard k)
   \<and> is_soft k = (\<not> is_hard k)
   \<and> (k \<in> set (soft_keywords_for_namespace ns)) = (activation k = Some ns)"
  using kw_reg.lookup_iff [of s k]
  by (auto simp: from_str_hard_only_def is_hard_or_soft soft_keywords_iff split: option.splits if_splits)

text \<open>
  The operator and keyword registries agree on the word operators: an operator's spelling is a
  keyword exactly when its entry says so, and then that keyword is hard and of the operator
  category; conversely every keyword of that category is the spelling of a word operator.
\<close>
theorem word_operators_are_keywords:
  "(s \<in> set (op_spellings (operator_info_for i)) \<longrightarrow>
      (op_is_keyword_spelling (operator_info_for i) \<longleftrightarrow>
        (\<exists>k. keyword_from_str s = Some k \<and> is_hard k \<and> keyword_category k = OperatorCategory)))
   \<and> (keyword_category k = OperatorCategory \<longrightarrow>
        (\<exists>w. operator_from_str (keyword_as_str k) = Some w \<and> op_is_keyword_spelling (operator_info_for w)))"
proof -
  have "op_is_keyword_spelling (operator_info_for i) \<longleftrightarrow>
      (\<exists>k. keyword_from_str s = Some k \<and> is_hard k \<and> keyword_category k = OperatorCategory)"
    if "s \<in> set (op_spellings (operator_info_for i))"
    unfolding operator_spelling_keyword [OF that] keyword_spelling_cases word_keyword_Some_iff [symmetric]
    using word_keyword_range [of i] word_keywords by metis
  then show ?thesis
    unfolding keyword_spelling_cases [of "_ :: OperatorId"] using word_keywords(1) [of k] word_keyword_onto [of k] by blast
qed

theorem word_operators_are_keywords_witness:
  "\<exists>w. operator_from_str (keyword_as_str KwNot) = Some w \<and> op_is_keyword_spelling (operator_info_for w)"
  using word_operators_are_keywords [of "lit ''not''" OpNot KwNot]
  by (simp add: keyword_category_def keyword_info_for_def keyword_table)

end
