(* ===== verification/Lexer.thy ===== *)
theory Lexer
  imports Vocabulary Numeric_Types Numeric_Strings
begin

text \<open>
  The lexer of \<open>kernel/incan_syntax/src/lexer\<close>: state record, character handling, the scanners for
  strings, byte strings, f-strings, numbers and identifiers, indentation handling, the dispatch
  \<open>scan_token\<close> and the driver \<open>tokenize\<close>.

  The state keeps the fields of \<open>struct Lexer\<close>; \<open>rest\<close> is what the peekable character iterator has
  left.  Offsets are byte offsets.  Diagnostics are kept as a kind with its arguments and span; their
  rendered text is not modelled.  The value of a float literal is its bit pattern, computed by the
  standard library's parser, the parameter \<open>parse_f64\<close>.  Every loop over the input is a recursive
  function with a termination proof.
\<close>

section \<open>Tokens and diagnostics\<close>

record Span =
  start :: nat
  end_pos :: nat

definition span_new :: "nat \<Rightarrow> nat \<Rightarrow> Span" where
  "span_new s e = \<lparr>start = s, end_pos = e\<rparr>"

definition span_merge :: "Span \<Rightarrow> Span \<Rightarrow> Span" where
  "span_merge a b = \<lparr>start = min (start a) (start b), end_pos = max (end_pos a) (end_pos b)\<rparr>"

record IntLiteral =
  int_value :: int
  int_magnitude :: nat
  int_repr :: rstr
  int_suffix :: "NumericTypeId option"

record FloatLiteral =
  float_value :: f64
  float_repr :: rstr
  float_suffix :: "NumericTypeId option"

record DecimalLiteral =
  decimal_body :: rstr
  decimal_repr :: rstr

datatype FStringPart = FLiteral rstr | FExpr rstr nat

datatype TokenKind =
    Keyword KeywordId | Operator OperatorId | Punctuation PunctuationId
  | Ident rstr | IntTok IntLiteral | FloatTok FloatLiteral | DecimalTok DecimalLiteral
  | StringTok rstr | Bytes "byte list" | FString "FStringPart list"
  | Newline | Indent | Dedent | EllipsisTok | Eof

record Token =
  kind :: TokenKind
  span :: Span

definition token_new :: "TokenKind \<Rightarrow> Span \<Rightarrow> Token" where
  "token_new k s = \<lparr>kind = k, span = s\<rparr>"

definition keyword_id :: "rstr \<Rightarrow> KeywordId option" where
  "keyword_id name = from_str_hard_only name"

datatype LexErrorKind =
    Unexpected_bang | Unexpected_character scalar | Unmatched_closing_bracket
  | Unterminated_string | Unterminated_string_newline | Unterminated_escape_sequence
  | Unterminated_byte_string | Unterminated_byte_string_newline | Invalid_hex_escape rstr
  | Non_ascii_in_byte_string scalar | Unterminated_fstring | Unterminated_fstring_escape
  | Unmatched_right_brace_in_fstring | Inconsistent_indentation nat nat
  | Invalid_decimal_literal rstr | Invalid_float_literal rstr | Invalid_integer_literal rstr

type_synonym CompileError = "LexErrorKind \<times> Span"

section \<open>State\<close>

record Lexer =
  source :: rstr
  rest :: rstr
  current_pos :: nat
  indent_stack :: "nat list"
  pending_dedents :: nat
  at_line_start :: bool
  bracket_depth :: nat
  tokens :: "Token list"
  errors :: "CompileError list"

definition lexer_new :: "rstr \<Rightarrow> Lexer" where
  "lexer_new src =
     \<lparr>source = src, rest = src, current_pos = 0, indent_stack = [0], pending_dedents = 0,
      at_line_start = True, bracket_depth = 0, tokens = [], errors = []\<rparr>"

definition is_at_end :: "Lexer \<Rightarrow> bool" where
  "is_at_end l \<longleftrightarrow> rest l = []"

definition peek :: "Lexer \<Rightarrow> scalar option" where
  "peek l = (case rest l of [] \<Rightarrow> None | c # _ \<Rightarrow> Some c)"

text \<open>The text behind a byte offset, and the text between two offsets.\<close>

fun drop_bytes :: "nat \<Rightarrow> rstr \<Rightarrow> rstr" where
  "drop_bytes n [] = []"
| "drop_bytes n (c # s) = (if n = 0 then c # s else drop_bytes (n - len_utf8 c) s)"

fun take_bytes :: "nat \<Rightarrow> rstr \<Rightarrow> rstr" where
  "take_bytes n [] = []"
| "take_bytes n (c # s) = (if n = 0 then [] else c # take_bytes (n - len_utf8 c) s)"

definition slice_bytes :: "rstr \<Rightarrow> nat \<Rightarrow> nat \<Rightarrow> rstr" where
  "slice_bytes s a b = take_bytes (b - a) (drop_bytes a s)"

definition peek_next :: "Lexer \<Rightarrow> scalar option" where
  "peek_next l = (case drop_bytes (current_pos l) (source l) of _ # c # _ \<Rightarrow> Some c | _ \<Rightarrow> None)"

definition advance :: "Lexer \<Rightarrow> Lexer" where
  "advance l = (case rest l of [] \<Rightarrow> l | c # s \<Rightarrow> l\<lparr>rest := s, current_pos := current_pos l + len_utf8 c\<rparr>)"

definition push_token :: "TokenKind \<Rightarrow> nat \<Rightarrow> nat \<Rightarrow> Lexer \<Rightarrow> Lexer" where
  "push_token k s e l = l\<lparr>tokens := tokens l @ [token_new k (span_new s e)]\<rparr>"

definition push_error :: "LexErrorKind \<Rightarrow> nat \<Rightarrow> Lexer \<Rightarrow> Lexer" where
  "push_error k s l = l\<lparr>errors := errors l @ [(k, span_new s (current_pos l))]\<rparr>"

lemma length_rest_advance: "peek l = Some c \<Longrightarrow> length (rest (advance l)) < length (rest l)"
  by (auto simp: peek_def advance_def split: list.splits)

text \<open>\<open>while let Some(c) = self.peek() { if p(c) { self.advance(); } else { break; } }\<close>\<close>

function advance_while :: "(scalar \<Rightarrow> bool) \<Rightarrow> Lexer \<Rightarrow> Lexer" where
  "advance_while p l =
     (case peek l of Some c \<Rightarrow> if p c then advance_while p (advance l) else l | None \<Rightarrow> l)"
  by pat_completeness auto
termination
  by (relation "measure (\<lambda>(p, l). length (rest l))") (auto intro: length_rest_advance)

declare advance_while.simps [simp del]

section \<open>Operator helpers\<close>

definition match_char :: "scalar \<Rightarrow> Lexer \<Rightarrow> bool \<times> Lexer" where
  "match_char expected l = (if peek l = Some expected then (True, advance l) else (False, l))"

definition add_token :: "TokenKind \<Rightarrow> nat \<Rightarrow> Lexer \<Rightarrow> Lexer" where
  "add_token k s l = push_token k s (current_pos l) l"

definition add_op :: "OperatorId \<Rightarrow> nat \<Rightarrow> Lexer \<Rightarrow> Lexer" where
  "add_op i s l = add_token (Operator i) s l"

definition add_punct :: "PunctuationId \<Rightarrow> nat \<Rightarrow> Lexer \<Rightarrow> Lexer" where
  "add_punct i s l = add_token (Punctuation i) s l"

text \<open>\<open>if self.match_char(c) { yes } else { no }\<close>\<close>

definition if_match :: "scalar \<Rightarrow> (Lexer \<Rightarrow> Lexer) \<Rightarrow> (Lexer \<Rightarrow> Lexer) \<Rightarrow> Lexer \<Rightarrow> Lexer" where
  "if_match c yes no l = (case match_char c l of (True, l') \<Rightarrow> yes l' | (False, l') \<Rightarrow> no l')"

fun operator :: "nat \<Rightarrow> OperatorId \<Rightarrow> (scalar \<times> OperatorId) list \<Rightarrow> Lexer \<Rightarrow> Lexer" where
  "operator s simple [] l = add_op simple s l"
| "operator s simple ((c, i) # cs) l = if_match c (add_op i s) (operator s simple cs) l"

definition scan_slash :: "nat \<Rightarrow> Lexer \<Rightarrow> Lexer" where
  "scan_slash s =
     if_match 47 (if_match 61 (add_op OpSlashSlashEq s) (add_op OpSlashSlash s))
       (if_match 61 (add_op OpSlashEq s) (add_op OpSlash s))"

definition scan_pipe :: "nat \<Rightarrow> Lexer \<Rightarrow> Lexer" where
  "scan_pipe s =
     if_match 62 (add_op OpPipeForward s) (if_match 61 (add_op OpPipeEq s) (add_punct PunctPipe s))"

definition scan_less :: "nat \<Rightarrow> Lexer \<Rightarrow> Lexer" where
  "scan_less s =
     if_match 60 (if_match 61 (add_op OpShlEq s) (add_op OpShl s))
       (if_match 124 (add_op OpPipeBackward s)
         (if_match 61 (add_op OpLtEq s) (add_op OpLt s)))"

definition scan_greater :: "nat \<Rightarrow> Lexer \<Rightarrow> Lexer" where
  "scan_greater s =
     if_match 62 (if_match 61 (add_op OpShrEq s) (add_op OpShr s))
       (if_match 61 (add_op OpGtEq s) (add_op OpGt s))"

definition open_bracket :: "PunctuationId \<Rightarrow> nat \<Rightarrow> Lexer \<Rightarrow> Lexer" where
  "open_bracket k s l = add_punct k s (l\<lparr>bracket_depth := bracket_depth l + 1\<rparr>)"

definition close_bracket :: "PunctuationId \<Rightarrow> nat \<Rightarrow> Lexer \<Rightarrow> Lexer" where
  "close_bracket k s l =
     add_punct k s
       (if bracket_depth l = 0 then push_error Unmatched_closing_bracket s l
        else l\<lparr>bracket_depth := bracket_depth l - 1\<rparr>)"

section \<open>Identifiers\<close>

definition is_ident_start :: "scalar \<Rightarrow> bool" where
  "is_ident_start c \<longleftrightarrow> is_ascii_alphabetic c \<or> c = 95"

definition is_ident_continue :: "scalar \<Rightarrow> bool" where
  "is_ident_continue c \<longleftrightarrow> is_ascii_alphanumeric c \<or> c = 95"

definition scan_identifier :: "nat \<Rightarrow> Lexer \<Rightarrow> Lexer" where
  "scan_identifier s l =
     (let l = advance_while is_ident_continue l;
          spelling = slice_bytes (source l) s (current_pos l)
      in case keyword_id spelling of
           Some i \<Rightarrow> add_token (Keyword i) s l
         | None \<Rightarrow> add_token (Ident spelling) s l)"

section \<open>Strings\<close>

datatype EscapeResult = EscChar scalar | EscUnknown scalar | EscEof

datatype ByteEscapeResult = BEscByte byte | BEscUnknown byte | BEscHex byte | BEscHexError rstr | BEscEof

definition scan_text_escape :: "scalar \<Rightarrow> Lexer \<Rightarrow> EscapeResult \<times> Lexer" where
  "scan_text_escape quote l =
     (case peek l of
        None \<Rightarrow> (EscEof, l)
      | Some c \<Rightarrow>
          (if c = 110 then EscChar 10
           else if c = 116 then EscChar 9
           else if c = 114 then EscChar 13
           else if c = 92 then EscChar 92
           else if c = quote then EscChar c
           else EscUnknown c, advance l))"

text \<open>\<open>u8::from_str_radix(hex, 16)\<close>: an optional \<open>+\<close>, then at least one hex digit of either case.\<close>

definition hex_value :: "scalar \<Rightarrow> nat option" where
  "hex_value c =
     (if 48 \<le> c \<and> c \<le> 57 then Some (c - 48)
      else if 97 \<le> c \<and> c \<le> 102 then Some (c - 97 + 10)
      else if 65 \<le> c \<and> c \<le> 70 then Some (c - 65 + 10) else None)"

fun hex_digits :: "nat \<Rightarrow> rstr \<Rightarrow> nat option" where
  "hex_digits acc [] = Some acc"
| "hex_digits acc (c # s) =
     (case hex_value c of Some d \<Rightarrow> if acc * 16 + d < 256 then hex_digits (acc * 16 + d) s else None | None \<Rightarrow> None)"

definition u8_from_hex :: "rstr \<Rightarrow> nat option" where
  "u8_from_hex s =
     (let body = (case s of c # t \<Rightarrow> if c = 43 \<and> t \<noteq> [] then t else s | [] \<Rightarrow> [])
      in if body = [] then None else hex_digits 0 body)"

definition take_char :: "Lexer \<Rightarrow> rstr \<times> Lexer" where
  "take_char l = (case peek l of Some c \<Rightarrow> ([c], advance l) | None \<Rightarrow> ([], l))"

definition scan_byte_escape :: "scalar \<Rightarrow> Lexer \<Rightarrow> ByteEscapeResult \<times> Lexer" where
  "scan_byte_escape quote l =
     (case peek l of
        None \<Rightarrow> (BEscEof, l)
      | Some c \<Rightarrow>
          if c = 110 then (BEscByte 10, advance l)
          else if c = 116 then (BEscByte 9, advance l)
          else if c = 114 then (BEscByte 13, advance l)
          else if c = 92 then (BEscByte 92, advance l)
          else if c = 48 then (BEscByte 0, advance l)
          else if c = 120 then
            (let (h1, l1) = take_char (advance l);
                 (h2, l2) = take_char l1;
                 hex = h1 @ h2
             in (case u8_from_hex hex of Some b \<Rightarrow> BEscHex (word_of_nat b) | None \<Rightarrow> BEscHexError hex, l2))
          else if c = quote then (BEscByte (word_of_nat c), advance l)
          else (BEscUnknown (word_of_nat c), advance l))"

lemma scan_text_escape_le:
  "scan_text_escape q l = (r, l') \<Longrightarrow> length (rest l') \<le> length (rest l)"
  by (auto simp: scan_text_escape_def peek_def advance_def split: option.splits list.splits)

lemma advance_le: "length (rest (advance l)) \<le> length (rest l)"
  by (auto simp: advance_def split: list.splits)

lemma take_char_le: "take_char l = (h, l') \<Longrightarrow> length (rest l') \<le> length (rest l)"
  by (auto simp: take_char_def advance_le split: option.splits)

lemma scan_byte_escape_le:
  "scan_byte_escape q l = (r, l') \<Longrightarrow> length (rest l') \<le> length (rest l)"
proof -
  assume "scan_byte_escape q l = (r, l')"
  then consider "l' = l" | "l' = advance l"
    | h1 l1 h2 where "take_char (advance l) = (h1, l1)" "take_char l1 = (h2, l')"
    by (auto simp: scan_byte_escape_def Let_def split: option.splits if_splits prod.splits)
  then show ?thesis
    using advance_le [of l] take_char_le by cases (auto, meson le_trans)
qed

lemma text_escape_progress:
  "peek l = Some c \<Longrightarrow> (r, l') = scan_text_escape q (advance l) \<Longrightarrow> length (rest l') < length (rest l)"
  using length_rest_advance [of l c] scan_text_escape_le [of q "advance l" r l'] by simp

lemma byte_escape_progress:
  "peek l = Some c \<Longrightarrow> (r, l') = scan_byte_escape q (advance l) \<Longrightarrow> length (rest l') < length (rest l)"
  using length_rest_advance [of l c] scan_byte_escape_le [of q "advance l" r l'] by simp

text \<open>The loop of \<open>scan_string\<close>: the collected text and the state behind the literal.\<close>

function string_loop :: "nat \<Rightarrow> scalar \<Rightarrow> bool \<Rightarrow> rstr \<Rightarrow> Lexer \<Rightarrow> rstr \<times> Lexer" where
  "string_loop s quote triple v l =
     (case peek l of
        None \<Rightarrow> (v, push_error Unterminated_string s l)
      | Some c \<Rightarrow>
          if c = quote then
            (if triple then
               (let l1 = advance l in
                if peek l1 = Some quote then
                  (let l2 = advance l1 in
                   if peek l2 = Some quote then (v, advance l2)
                   else string_loop s quote triple (v @ [quote, quote]) l2)
                else string_loop s quote triple (v @ [quote]) l1)
             else (v, advance l))
          else if c = 10 \<and> \<not> triple then (v, push_error Unterminated_string_newline s l)
          else if c = 92 then
            (case scan_text_escape quote (advance l) of
               (EscChar e, l') \<Rightarrow> string_loop s quote triple (v @ [e]) l'
             | (EscUnknown e, l') \<Rightarrow> string_loop s quote triple (v @ [92, e]) l'
             | (EscEof, l') \<Rightarrow> (v, push_error Unterminated_escape_sequence s l'))
          else string_loop s quote triple (v @ [c]) (advance l))"
  by pat_completeness auto
termination
proof (relation "measure (\<lambda>(s, q, t, v, l). length (rest l))", goal_cases)
  case (2 s q t v l c l1 l2)
  then show ?case using length_rest_advance [of l c] advance_le [of l1] by simp
qed (auto intro: length_rest_advance text_escape_progress)

declare string_loop.simps [simp del]

definition scan_string :: "nat \<Rightarrow> scalar \<Rightarrow> Lexer \<Rightarrow> Lexer" where
  "scan_string s quote l =
     (let (triple, l) =
            (if peek l = Some quote
             then (if peek_next l = Some quote then (True, advance (advance l)) else (False, l))
             else (False, l));
          (v, l) = string_loop s quote triple [] l
      in push_token (StringTok v) s (current_pos l) l)"

function byte_string_loop :: "nat \<Rightarrow> scalar \<Rightarrow> byte list \<Rightarrow> Lexer \<Rightarrow> byte list \<times> Lexer" where
  "byte_string_loop s quote v l =
     (case peek l of
        None \<Rightarrow> (v, push_error Unterminated_byte_string s l)
      | Some c \<Rightarrow>
          if c = quote then (v, advance l)
          else if c = 10 then (v, push_error Unterminated_byte_string_newline s l)
          else if c = 92 then
            (case scan_byte_escape quote (advance l) of
               (BEscByte b, l') \<Rightarrow> byte_string_loop s quote (v @ [b]) l'
             | (BEscHex b, l') \<Rightarrow> byte_string_loop s quote (v @ [b]) l'
             | (BEscUnknown b, l') \<Rightarrow> byte_string_loop s quote (v @ [92, b]) l'
             | (BEscHexError hex, l') \<Rightarrow> byte_string_loop s quote v (push_error (Invalid_hex_escape hex) s l')
             | (BEscEof, l') \<Rightarrow> (v, push_error Unterminated_escape_sequence s l'))
          else if is_ascii c then byte_string_loop s quote (v @ [word_of_nat c]) (advance l)
          else byte_string_loop s quote v (advance (push_error (Non_ascii_in_byte_string c) s l)))"
  by pat_completeness auto
termination
proof (relation "measure (\<lambda>(s, q, v, l). length (rest l))", goal_cases)
  case (7 s q v l c)
  have "peek (push_error (Non_ascii_in_byte_string c) s l) = Some c" using 7 by (simp add: push_error_def peek_def)
  from length_rest_advance [OF this] show ?case by (simp add: push_error_def)
qed (auto intro: length_rest_advance byte_escape_progress simp: push_error_def)

declare byte_string_loop.simps [simp del]

definition scan_byte_string :: "nat \<Rightarrow> scalar \<Rightarrow> Lexer \<Rightarrow> Lexer" where
  "scan_byte_string s quote l =
     (let (v, l) = byte_string_loop s quote [] l in push_token (Bytes v) s (current_pos l) l)"

section \<open>F-strings\<close>

function fstring_expr_loop :: "nat \<Rightarrow> rstr \<Rightarrow> Lexer \<Rightarrow> rstr \<times> Lexer" where
  "fstring_expr_loop depth expr l =
     (if depth = 0 then (expr, l)
      else case peek l of
             None \<Rightarrow> (expr, l)
           | Some c \<Rightarrow>
               if c = 123 then fstring_expr_loop (depth + 1) (expr @ [123]) (advance l)
               else if c = 125 then
                 fstring_expr_loop (depth - 1) (if depth - 1 > 0 then expr @ [125] else expr) (advance l)
               else fstring_expr_loop depth (expr @ [c]) (advance l))"
  by pat_completeness auto
termination
  by (relation "measure (\<lambda>(d, e, l). length (rest l))") (auto intro: length_rest_advance)

declare fstring_expr_loop.simps [simp del]

definition scan_fstring_expr :: "Lexer \<Rightarrow> rstr \<times> Lexer" where
  "scan_fstring_expr l = fstring_expr_loop 1 [] l"

lemma fstring_expr_loop_le: "fstring_expr_loop d e l = (x, l') \<Longrightarrow> length (rest l') \<le> length (rest l)"
proof (induction d e l arbitrary: x l' rule: fstring_expr_loop.induct)
  case (1 d e l)
  show ?case
  proof (cases "d = 0 \<or> peek l = None")
    case True
    then show ?thesis using "1.prems" by (subst (asm) fstring_expr_loop.simps) (auto split: if_splits)
  next
    case False
    then obtain c where c: "peek l = Some c" and d: "d \<noteq> 0" by auto
    have "length (rest l') \<le> length (rest (advance l))"
      using "1.prems" "1.IH" [OF d c] d c
      by (subst (asm) fstring_expr_loop.simps) (auto split: if_splits)
    then show ?thesis using advance_le [of l] by linarith
  qed
qed

lemma scan_fstring_expr_le: "(x, l') = scan_fstring_expr l \<Longrightarrow> length (rest l') \<le> length (rest l)"
  using fstring_expr_loop_le by (metis scan_fstring_expr_def)

definition flush_literal :: "rstr \<Rightarrow> FStringPart list \<Rightarrow> FStringPart list" where
  "flush_literal literal parts = (if literal \<noteq> [] then parts @ [FLiteral literal] else parts)"

function fstring_loop ::
  "nat \<Rightarrow> scalar \<Rightarrow> FStringPart list \<Rightarrow> rstr \<Rightarrow> Lexer \<Rightarrow> (FStringPart list \<times> rstr) \<times> Lexer" where
  "fstring_loop s quote parts literal l =
     (case peek l of
        None \<Rightarrow> ((parts, literal), push_error Unterminated_fstring s l)
      | Some c \<Rightarrow>
          if c = quote then ((parts, literal), advance l)
          else if c = 123 then
            (let l1 = advance l in
             if peek l1 = Some 123 then fstring_loop s quote parts (literal @ [123]) (advance l1)
             else
               (let expr_offset = current_pos l1 - 1;
                    parts = flush_literal literal parts
                in case scan_fstring_expr l1 of
                     (expr, l2) \<Rightarrow> fstring_loop s quote (parts @ [FExpr expr expr_offset]) [] l2))
          else if c = 125 then
            (let l1 = advance l in
             if peek l1 = Some 125 then fstring_loop s quote parts (literal @ [125]) (advance l1)
             else fstring_loop s quote parts literal (push_error Unmatched_right_brace_in_fstring s l1))
          else if c = 92 then
            (case scan_text_escape quote (advance l) of
               (EscChar e, l') \<Rightarrow> fstring_loop s quote parts (literal @ [e]) l'
             | (EscUnknown e, l') \<Rightarrow> fstring_loop s quote parts (literal @ [92, e]) l'
             | (EscEof, l') \<Rightarrow> ((parts, literal), push_error Unterminated_fstring_escape s l'))
          else if c = 10 then ((parts, literal), push_error Unterminated_fstring s l)
          else fstring_loop s quote parts (literal @ [c]) (advance l))"
  by pat_completeness auto
termination
proof (relation "measure (\<lambda>(s, q, p, t, l). length (rest l))", goal_cases)
  case (2 s q p t l c l1)
  then show ?case using length_rest_advance [of l c] advance_le [of l1] by simp
next
  case (3 s q p t l c l1 off p' x l2)
  then show ?case using length_rest_advance [of l c] scan_fstring_expr_le [of x l2 l1] by simp
next
  case (4 s q p t l c l1)
  then show ?case using length_rest_advance [of l c] advance_le [of l1] by simp
next
  case (5 s q p t l c l1)
  then show ?case using length_rest_advance [of l c] by (simp add: push_error_def)
qed (auto intro: length_rest_advance text_escape_progress)

declare fstring_loop.simps [simp del]

definition scan_fstring :: "nat \<Rightarrow> scalar \<Rightarrow> Lexer \<Rightarrow> Lexer" where
  "scan_fstring s quote l =
     (let ((parts, literal), l) = fstring_loop s quote [] [] l
      in push_token (FString (flush_literal literal parts)) s (current_pos l) l)"

section \<open>Numbers\<close>

definition suffix_boundary :: "rstr \<Rightarrow> bool" where
  "suffix_boundary r \<longleftrightarrow> (case r of [] \<Rightarrow> True | next_c # _ \<Rightarrow> \<not> is_ascii_alphanumeric next_c \<and> next_c \<noteq> 95)"

definition find_numeric_suffix :: "rstr \<Rightarrow> NumericTypeInfo option" where
  "find_numeric_suffix remaining =
     find (\<lambda>info. num_family info \<noteq> BoolFamily
             \<and> (case strip_prefix (num_canonical info) remaining of Some r \<Rightarrow> suffix_boundary r | None \<Rightarrow> False))
       NUMERIC_TYPES"

definition scan_numeric_suffix :: "Lexer \<Rightarrow> NumericTypeId option \<times> Lexer" where
  "scan_numeric_suffix l =
     (case find_numeric_suffix (drop_bytes (current_pos l) (source l)) of
        Some info \<Rightarrow> (Some (num_id info), (advance ^^ length (num_canonical info)) l)
      | None \<Rightarrow> (None, l))"

definition digit_or_sep :: "scalar \<Rightarrow> bool" where
  "digit_or_sep c \<longleftrightarrow> is_ascii_digit c \<or> c = 95"

text \<open>The integer, fraction and exponent parts; the flag is \<open>is_float\<close>.\<close>

definition scan_fraction :: "Lexer \<Rightarrow> bool \<times> Lexer" where
  "scan_fraction l =
     (if peek l = Some 46 \<and> (case peek_next l of Some c \<Rightarrow> is_ascii_digit c | None \<Rightarrow> False)
      then (True, advance_while digit_or_sep (advance l)) else (False, l))"

definition scan_exponent :: "bool \<Rightarrow> Lexer \<Rightarrow> bool \<times> Lexer" where
  "scan_exponent is_float l =
     (if peek l = Some 101 \<or> peek l = Some 69
      then (let l = advance l;
                l = (if peek l = Some 43 \<or> peek l = Some 45 then advance l else l)
            in (True, advance_while digit_or_sep l))
      else (is_float, l))"

definition number_repr :: "nat \<Rightarrow> Lexer \<Rightarrow> rstr" where
  "number_repr s l = slice_bytes (source l) s (current_pos l)"

definition scan_decimal_literal :: "nat \<Rightarrow> Lexer \<Rightarrow> Lexer" where
  "scan_decimal_literal s l =
     (let l = advance l;
          repr = number_repr s l;
          numeric_repr = (case strip_suffix [100] repr of Some r \<Rightarrow> r | None \<Rightarrow> repr)
      in case normalize_numeric_string numeric_repr of
           None \<Rightarrow> push_error (Invalid_decimal_literal repr) s l
         | Some body \<Rightarrow> add_token (DecimalTok \<lparr>decimal_body = body, decimal_repr = repr\<rparr>) s l)"

definition scan_float_literal ::
  "(rstr \<Rightarrow> f64 option) \<Rightarrow> nat \<Rightarrow> rstr \<Rightarrow> rstr \<Rightarrow> NumericTypeId option \<Rightarrow> Lexer \<Rightarrow> Lexer" where
  "scan_float_literal parse_f64 s repr numeric_repr suffix l =
     (case normalize_numeric_string numeric_repr of
        None \<Rightarrow> push_error (Invalid_float_literal repr) s l
      | Some v \<Rightarrow>
          (case parse_f64 v of
             Some f \<Rightarrow> add_token (FloatTok \<lparr>float_value = f, float_repr = repr, float_suffix = suffix\<rparr>) s l
           | None \<Rightarrow> push_error (Invalid_float_literal repr) s l))"

text \<open>\<open>magnitude.try_into().unwrap_or(i64::MAX)\<close>\<close>

definition int_literal_value :: "nat \<Rightarrow> int" where
  "int_literal_value m = (if in_i64 (int m) then int m else 2 ^ 63 - 1)"

definition scan_int_literal :: "nat \<Rightarrow> rstr \<Rightarrow> rstr \<Rightarrow> NumericTypeId option \<Rightarrow> Lexer \<Rightarrow> Lexer" where
  "scan_int_literal s repr numeric_repr suffix l =
     (case normalize_numeric_string numeric_repr of
        None \<Rightarrow> push_error (Invalid_integer_literal repr) s l
      | Some v \<Rightarrow>
          (case parse_unsigned 128 v of
             Some m \<Rightarrow> add_token (IntTok \<lparr>int_value = int_literal_value m, int_magnitude = m,
                                         int_repr = repr, int_suffix = suffix\<rparr>) s l
           | None \<Rightarrow> push_error (Invalid_integer_literal repr) s l))"

definition scan_number :: "(rstr \<Rightarrow> f64 option) \<Rightarrow> nat \<Rightarrow> Lexer \<Rightarrow> Lexer" where
  "scan_number parse_f64 s l =
     (let l = advance_while digit_or_sep l;
          (is_float, l) = scan_fraction l;
          (is_float, l) = scan_exponent is_float l
      in if peek l = Some 100 then scan_decimal_literal s l
         else
           (let (suffix, l) = scan_numeric_suffix l;
                repr = number_repr s l;
                numeric_repr =
                  (case Option.bind suffix (\<lambda>k. strip_suffix (numeric_as_str k) repr) of
                     Some r \<Rightarrow> r | None \<Rightarrow> repr)
            in if is_float then scan_float_literal parse_f64 s repr numeric_repr suffix l
               else scan_int_literal s repr numeric_repr suffix l))"

section \<open>Indentation\<close>

definition skip_line :: "Lexer \<Rightarrow> Lexer" where
  "skip_line l = advance_while (\<lambda>c. c \<noteq> 10) l"

datatype IndentScan = LineDone Lexer | Measured nat Lexer

function measure_indent :: "nat \<Rightarrow> nat \<Rightarrow> Lexer \<Rightarrow> IndentScan" where
  "measure_indent s indent l =
     (case peek l of
        None \<Rightarrow> Measured indent l
      | Some c \<Rightarrow>
          if c = 32 then measure_indent s (indent + 1) (advance l)
          else if c = 9 then measure_indent s (indent + 4) (advance l)
          else if c = 35 then
            (let l = skip_line l in LineDone (if peek l = Some 10 then advance l else l))
          else if c = 10 then
            (let l = advance l in LineDone (push_token Newline s (current_pos l) l))
          else if c = 13 then measure_indent s indent (advance l)
          else Measured indent l)"
  by pat_completeness auto
termination
  by (relation "measure (\<lambda>(s, i, l). length (rest l))") (auto intro: length_rest_advance)

declare measure_indent.simps [simp del]

text \<open>Levels above the new indentation, counted from the top of the stack.\<close>

definition dedent_count :: "nat \<Rightarrow> nat list \<Rightarrow> nat" where
  "dedent_count indent stack = length (takeWhile (\<lambda>level. \<not> indent \<ge> level) (rev stack))"

function pop_levels :: "nat \<Rightarrow> nat list \<Rightarrow> nat list" where
  "pop_levels indent stack =
     (if stack = [] then []
      else if indent \<ge> last stack then stack
      else let stack = butlast stack in if stack = [] then [0] else pop_levels indent stack)"
  by pat_completeness auto
termination
  by (relation "measure (\<lambda>(i, s). length s)") auto

declare pop_levels.simps [simp del]

definition stack_top :: "nat list \<Rightarrow> nat" where
  "stack_top stack = (if stack = [] then 0 else last stack)"

definition apply_dedent :: "nat \<Rightarrow> nat \<Rightarrow> Lexer \<Rightarrow> Lexer" where
  "apply_dedent s indent l =
     (let count = dedent_count indent (indent_stack l);
          l = l\<lparr>indent_stack := pop_levels indent (indent_stack l)\<rparr>;
          final_indent = stack_top (indent_stack l);
          l = (if indent \<noteq> final_indent then push_error (Inconsistent_indentation final_indent indent) s l else l)
      in if count > 0 then
           (let l = push_token Dedent s (current_pos l) l
            in if count > 1 then l\<lparr>pending_dedents := count - 1\<rparr> else l)
         else l)"

definition apply_indent :: "nat \<Rightarrow> nat \<Rightarrow> Lexer \<Rightarrow> Lexer" where
  "apply_indent s indent l =
     (let current_indent = stack_top (indent_stack l)
      in if indent > current_indent then
           push_token Indent s (current_pos l) (l\<lparr>indent_stack := indent_stack l @ [indent]\<rparr>)
         else if indent < current_indent then apply_dedent s indent l
         else l)"

definition handle_indentation :: "Lexer \<Rightarrow> Lexer" where
  "handle_indentation l =
     (let s = current_pos l in
      case measure_indent s 0 l of
        LineDone l \<Rightarrow> l
      | Measured indent l \<Rightarrow>
          if is_at_end l then l\<lparr>at_line_start := False\<rparr>
          else (apply_indent s indent l)\<lparr>at_line_start := False\<rparr>)"

section \<open>Dispatch\<close>

definition skip_blanks :: "Lexer \<Rightarrow> Lexer" where
  "skip_blanks l = advance_while (\<lambda>c. c = 32 \<or> c = 9) l"

definition scan_newline :: "nat \<Rightarrow> Lexer \<Rightarrow> Lexer" where
  "scan_newline s l =
     (if bracket_depth l > 0 then l
      else let l = (if \<not> at_line_start l then push_token Newline s (current_pos l) l else l)
           in l\<lparr>at_line_start := True\<rparr>)"

definition scan_bang :: "nat \<Rightarrow> Lexer \<Rightarrow> Lexer" where
  "scan_bang s = if_match 61 (add_op OpNotEq s) (push_error Unexpected_bang s)"

definition scan_dot :: "nat \<Rightarrow> Lexer \<Rightarrow> Lexer" where
  "scan_dot s =
     if_match 46
       (if_match 46 (add_punct PunctEllipsis s)
         (if_match 61 (add_op OpDotDotEq s) (add_op OpDotDot s)))
       (add_punct PunctDot s)"

definition is_quote :: "scalar option \<Rightarrow> bool" where
  "is_quote c \<longleftrightarrow> c = Some 34 \<or> c = Some 39"

text \<open>
  The \<open>match\<close> on the character just consumed: the symbol arms, then the literals and identifiers.
\<close>

definition scan_symbol :: "nat \<Rightarrow> scalar \<Rightarrow> (Lexer \<Rightarrow> Lexer) option" where
  "scan_symbol s c =
     (if c = 35 then Some skip_line
      else if c = 10 then Some (scan_newline s)
      else if c = 13 then Some (\<lambda>l. l)
      else if c = 43 then Some (operator s OpPlus [(61, OpPlusEq)])
      else if c = 45 then Some (if_match 62 (add_punct PunctArrow s) (if_match 61 (add_op OpMinusEq s) (add_op OpMinus s)))
      else if c = 42 then Some (operator s OpStar [(42, OpStarStar), (61, OpStarEq)])
      else if c = 47 then Some (scan_slash s)
      else if c = 37 then Some (operator s OpPercent [(61, OpPercentEq)])
      else if c = 63 then Some (add_punct PunctQuestion s)
      else if c = 64 then Some (if_match 61 (add_op OpMatMulEq s) (add_punct PunctAt s))
      else if c = 38 then Some (operator s OpAmp [(61, OpAmpEq)])
      else if c = 124 then Some (scan_pipe s)
      else if c = 94 then Some (operator s OpCaret [(61, OpCaretEq)])
      else if c = 126 then Some (add_op OpTilde s)
      else if c = 44 then Some (add_punct PunctComma s)
      else if c = 40 then Some (open_bracket PunctLParen s)
      else if c = 41 then Some (close_bracket PunctRParen s)
      else if c = 91 then Some (open_bracket PunctLBracket s)
      else if c = 93 then Some (close_bracket PunctRBracket s)
      else if c = 123 then Some (open_bracket PunctLBrace s)
      else if c = 125 then Some (close_bracket PunctRBrace s)
      else if c = 58 then Some (if_match 58 (add_punct PunctColonColon s) (add_punct PunctColon s))
      else if c = 61 then Some (if_match 61 (add_op OpEqEq s) (if_match 62 (add_punct PunctFatArrow s) (add_op OpEq s)))
      else if c = 33 then Some (scan_bang s)
      else if c = 60 then Some (scan_less s)
      else if c = 62 then Some (scan_greater s)
      else if c = 46 then Some (scan_dot s)
      else None)"

definition scan_literal :: "(rstr \<Rightarrow> f64 option) \<Rightarrow> nat \<Rightarrow> scalar \<Rightarrow> Lexer \<Rightarrow> Lexer" where
  "scan_literal parse_f64 s c l =
     (if c = 34 then scan_string s 34 l
      else if c = 39 then scan_string s 39 l
      else if c = 102 \<and> is_quote (peek l) then
        (case peek l of Some quote \<Rightarrow> scan_fstring s quote (advance l) | None \<Rightarrow> l)
      else if c = 98 \<and> is_quote (peek l) then
        (case peek l of Some quote \<Rightarrow> scan_byte_string s quote (advance l) | None \<Rightarrow> l)
      else if 48 \<le> c \<and> c \<le> 57 then scan_number parse_f64 s l
      else if is_ident_start c then scan_identifier s l
      else push_error (Unexpected_character c) s l)"

definition scan_lexeme :: "(rstr \<Rightarrow> f64 option) \<Rightarrow> nat \<Rightarrow> scalar \<Rightarrow> Lexer \<Rightarrow> Lexer" where
  "scan_lexeme parse_f64 s c l =
     (case scan_symbol s c of Some f \<Rightarrow> f l | None \<Rightarrow> scan_literal parse_f64 s c l)"

definition scan_token :: "(rstr \<Rightarrow> f64 option) \<Rightarrow> Lexer \<Rightarrow> Lexer" where
  "scan_token parse_f64 l =
     (if pending_dedents l > 0 then
        push_token Dedent (current_pos l) (current_pos l) (l\<lparr>pending_dedents := pending_dedents l - 1\<rparr>)
      else if at_line_start l then handle_indentation l
      else
        (let l = skip_blanks l;
             s = current_pos l
         in case peek l of
              None \<Rightarrow> l
            | Some c \<Rightarrow> scan_lexeme parse_f64 s c (advance l)))"

end
