(* ===== verification/Lexer_Driver.thy ===== *)
theory Lexer_Driver
  imports Lexer
begin

text \<open>
  What one scanning step does to the lexer state, and the driver built on it.

  \<open>quiet\<close> relates a state to one that has only consumed input and possibly recorded errors; an
  \<open>emitter\<close> consumes input and adds at most one token, whose span ends at the new position.  Every
  scanner of the dispatch is shown to be one or the other.  Each step either consumes a character or
  lowers a bounded counter, which is the termination argument of the main loop.
\<close>

section \<open>Effects\<close>

definition moves :: "Lexer \<Rightarrow> Lexer \<Rightarrow> bool" where
  "moves l l' \<longleftrightarrow> source l' = source l
     \<and> (\<exists>p. rest l = p @ rest l' \<and> current_pos l' = current_pos l + str_bytes_len p)"

definition quiet :: "Lexer \<Rightarrow> Lexer \<Rightarrow> bool" where
  "quiet l l' \<longleftrightarrow> moves l l' \<and> indent_stack l' = indent_stack l \<and> pending_dedents l' = pending_dedents l
     \<and> at_line_start l' = at_line_start l \<and> bracket_depth l' = bracket_depth l \<and> tokens l' = tokens l"

definition is_layout :: "TokenKind \<Rightarrow> bool" where
  "is_layout k \<longleftrightarrow> k \<in> {Newline, Indent, Dedent, Eof}"

definition bracket_step :: "TokenKind \<Rightarrow> nat \<Rightarrow> nat" where
  "bracket_step k d =
     (if k \<in> {Punctuation PunctLParen, Punctuation PunctLBracket, Punctuation PunctLBrace} then d + 1
      else if k \<in> {Punctuation PunctRParen, Punctuation PunctRBracket, Punctuation PunctRBrace} then d - 1
      else d)"

definition emits :: "nat \<Rightarrow> Lexer \<Rightarrow> Lexer \<Rightarrow> bool" where
  "emits s l l' \<longleftrightarrow> quiet l l'
     \<or> (\<exists>k. \<not> is_layout k \<and> moves l l' \<and> indent_stack l' = indent_stack l
          \<and> pending_dedents l' = pending_dedents l \<and> at_line_start l' = at_line_start l
          \<and> bracket_depth l' = bracket_step k (bracket_depth l)
          \<and> tokens l' = tokens l @ [token_new k (span_new s (current_pos l'))])"

definition emitter :: "nat \<Rightarrow> (Lexer \<Rightarrow> Lexer) \<Rightarrow> bool" where
  "emitter s f \<longleftrightarrow> (\<forall>l. emits s l (f l))"

lemma moves_refl [simp]: "moves l l"
  by (simp add: moves_def)

lemma moves_trans: "moves a b \<Longrightarrow> moves b c \<Longrightarrow> moves a c"
  unfolding moves_def by (metis add.assoc append.assoc str_bytes_len_simps(3))

lemma moves_length: "moves l l' \<Longrightarrow> length (rest l') \<le> length (rest l)"
  by (auto simp: moves_def)

lemma moves_pos: "moves l l' \<Longrightarrow> current_pos l \<le> current_pos l'"
  by (auto simp: moves_def)

lemma quiet_refl [simp]: "quiet l l"
  by (simp add: quiet_def)

lemma quiet_trans [trans]: "quiet a b \<Longrightarrow> quiet b c \<Longrightarrow> quiet a c"
  unfolding quiet_def using moves_trans by (metis (no_types))

lemma quiet_moves: "quiet l l' \<Longrightarrow> moves l l'"
  by (simp add: quiet_def)

lemma emits_moves: "emits s l l' \<Longrightarrow> moves l l'"
  by (auto simp: emits_def quiet_def)

lemma quiet_emits: "quiet l l' \<Longrightarrow> emits s l l'"
  by (simp add: emits_def)

lemma quiet_then_emits: "quiet a b \<Longrightarrow> emits s b c \<Longrightarrow> emits s a c"
proof -
  assume ab: "quiet a b" and bc: "emits s b c"
  show ?thesis
  proof (cases "quiet b c")
    case True
    then show ?thesis using ab quiet_trans quiet_emits by blast
  next
    case False
    then obtain k where k: "\<not> is_layout k" "moves b c" "indent_stack c = indent_stack b"
      "pending_dedents c = pending_dedents b" "at_line_start c = at_line_start b"
      "bracket_depth c = bracket_step k (bracket_depth b)"
      "tokens c = tokens b @ [token_new k (span_new s (current_pos c))]"
      using bc unfolding emits_def by blast
    have "moves a c" using quiet_moves [OF ab] k(2) by (rule moves_trans)
    then show ?thesis
      unfolding emits_def using ab k by (intro disjI2 exI [of _ k]) (simp add: quiet_def)
  qed
qed

named_theorems quietI "steps that add no token"
named_theorems emitterI "scanners that add at most one token"

lemma quiet_advance [quietI]: "quiet l (advance l)"
  by (auto simp: quiet_def moves_def advance_def split: list.splits)

lemma quiet_push_error [quietI]: "quiet l (push_error k s l)"
  by (simp add: quiet_def moves_def push_error_def)

lemma quiet_advance_while [quietI]: "quiet l (advance_while p l)"
proof (induction p l rule: advance_while.induct)
  case (1 p l)
  show ?case
  proof (cases "peek l")
    case None
    then show ?thesis by (subst advance_while.simps) simp
  next
    case (Some c)
    then show ?thesis
      using "1.IH" [OF Some] quiet_trans [OF quiet_advance] by (subst advance_while.simps) simp
  qed
qed

lemma quiet_advance_after: "quiet l l' \<Longrightarrow> quiet l (advance l')"
  using quiet_trans quiet_advance by blast

lemma quiet_push_error_after: "quiet l l' \<Longrightarrow> quiet l (push_error k s l')"
  using quiet_trans quiet_push_error by blast

lemma quiet_funpow_advance: "quiet l ((advance ^^ n) l)"
  by (induction n) (simp_all add: quiet_advance_after)

lemma quiet_text_escape: "scan_text_escape q l = (r, l') \<Longrightarrow> quiet l l'"
  by (auto simp: scan_text_escape_def quiet_advance split: option.splits)

lemma quiet_take_char: "take_char l = (h, l') \<Longrightarrow> quiet l l'"
  by (auto simp: take_char_def quiet_advance split: option.splits)

lemma quiet_byte_escape: "scan_byte_escape q l = (r, l') \<Longrightarrow> quiet l l'"
proof -
  assume "scan_byte_escape q l = (r, l')"
  then consider "l' = l" | "l' = advance l"
    | h1 l1 h2 where "take_char (advance l) = (h1, l1)" "take_char l1 = (h2, l')"
    by (auto simp: scan_byte_escape_def Let_def split: option.splits if_splits prod.splits)
  then show ?thesis
    using quiet_advance [of l] quiet_take_char quiet_trans by cases (auto, meson)
qed

lemma quiet_string_loop: "quiet l (snd (string_loop s q t v l))"
proof (induction s q t v l rule: string_loop.induct)
  case (1 s q t v l)
  show ?case
  proof (cases "peek l")
    case None
    then show ?thesis by (subst string_loop.simps) (simp add: quiet_push_error)
  next
    case (Some c)
    note IH = "1.IH" [OF Some]
    show ?thesis
    proof (cases "c = q")
      case q: True
      let ?l1 = "advance l" and ?l2 = "advance (advance l)"
      have adv: "quiet l ?l1" "quiet l ?l2" "quiet l (advance ?l2)"
        by (simp_all add: quiet_advance_after)
      consider "\<not> t" | "t" "peek ?l1 \<noteq> Some q" | "t" "peek ?l1 = Some q" "peek ?l2 \<noteq> Some q"
        | "t" "peek ?l1 = Some q" "peek ?l2 = Some q" by blast
      then show ?thesis
      proof cases
        case 1
        then show ?thesis using Some q adv(1) by (subst string_loop.simps) simp
      next
        case 2
        then show ?thesis
          using Some q quiet_trans [OF adv(1) IH(2) [OF q 2(1) refl 2(2)]]
          by (subst string_loop.simps) (simp add: Let_def)
      next
        case 3
        then show ?thesis
          using Some q quiet_trans [OF adv(2) IH(1) [OF q 3(1) refl 3(2) refl 3(3)]]
          by (subst string_loop.simps) (simp add: Let_def)
      next
        case 4
        then show ?thesis using Some q adv(3) by (subst string_loop.simps) (simp add: Let_def)
      qed
    next
      case q: False
      show ?thesis
      proof (cases "c = 10 \<and> \<not> t")
        case True
        then show ?thesis using Some q by (subst string_loop.simps) (auto simp: quiet_push_error)
      next
        case n: False
        show ?thesis
        proof (cases "c = 92")
          case b: True
          obtain r l' where e: "scan_text_escape q (advance l) = (r, l')" by fastforce
          have l': "quiet l l'" using quiet_text_escape [OF e] quiet_trans [OF quiet_advance] by blast
          show ?thesis
          proof (cases r)
            case (EscChar x)
            show ?thesis using quiet_trans [OF l' IH(3) [OF q n b e [symmetric] EscChar]] e EscChar q n b Some
              by (subst string_loop.simps) simp
          next
            case (EscUnknown x)
            show ?thesis using quiet_trans [OF l' IH(4) [OF q n b e [symmetric] EscUnknown]] e EscUnknown q n b Some
              by (subst string_loop.simps) simp
          next
            case EscEof
            then show ?thesis using quiet_push_error_after [OF l'] e q n b Some by (subst string_loop.simps) simp
          qed
        next
          case b: False
          then show ?thesis
            using IH(5) [OF q n b] quiet_trans [OF quiet_advance] q n Some
            by (subst string_loop.simps) auto
        qed
      qed
    qed
  qed
qed

lemma quiet_byte_string_loop: "quiet l (snd (byte_string_loop s q v l))"
proof (induction s q v l rule: byte_string_loop.induct)
  case (1 s q v l)
  show ?case
  proof (cases "peek l")
    case None
    then show ?thesis by (subst byte_string_loop.simps) (simp add: quiet_push_error)
  next
    case (Some c)
    note IH = "1.IH" [OF Some]
    consider "c = q \<or> c = 10" | "c \<noteq> q" "c \<noteq> 10" "c = 92" | "c \<noteq> q" "c \<noteq> 10" "c \<noteq> 92" "is_ascii c"
      | "c \<noteq> q" "c \<noteq> 10" "c \<noteq> 92" "\<not> is_ascii c" by blast
    then show ?thesis
    proof cases
      case 1
      then show ?thesis using Some by (subst byte_string_loop.simps) (auto simp: quiet_advance quiet_push_error)
    next
      case 2
      obtain r l' where e: "scan_byte_escape q (advance l) = (r, l')" by fastforce
      have l': "quiet l l'" using quiet_byte_escape [OF e] quiet_trans [OF quiet_advance] by blast
      show ?thesis
      proof (cases r)
        case (BEscByte x)
        show ?thesis using quiet_trans [OF l' IH(1) [OF 2 e [symmetric] BEscByte]] e BEscByte 2 Some
          by (subst byte_string_loop.simps) simp
      next
        case (BEscUnknown x)
        show ?thesis using quiet_trans [OF l' IH(2) [OF 2 e [symmetric] BEscUnknown]] e BEscUnknown 2 Some
          by (subst byte_string_loop.simps) simp
      next
        case (BEscHex x)
        show ?thesis using quiet_trans [OF l' IH(3) [OF 2 e [symmetric] BEscHex]] e BEscHex 2 Some
          by (subst byte_string_loop.simps) simp
      next
        case (BEscHexError x)
        show ?thesis
          using quiet_trans [OF quiet_push_error_after [OF l'] IH(4) [OF 2 e [symmetric] BEscHexError]] e BEscHexError 2 Some
          by (subst byte_string_loop.simps) simp
      next
        case BEscEof
        then show ?thesis using quiet_push_error_after [OF l'] e 2 Some by (subst byte_string_loop.simps) simp
      qed
    next
      case 3
      show ?thesis using quiet_trans [OF quiet_advance IH(5) [OF 3]] 3 Some by (subst byte_string_loop.simps) simp
    next
      case 4
      show ?thesis
        using quiet_trans [OF quiet_advance_after [OF quiet_push_error] IH(6) [OF 4]] 4 Some
        by (subst byte_string_loop.simps) simp
    qed
  qed
qed

lemma quiet_fstring_expr_loop: "quiet l (snd (fstring_expr_loop d e l))"
proof (induction d e l rule: fstring_expr_loop.induct)
  case (1 d e l)
  show ?case
  proof (cases "d = 0 \<or> peek l = None")
    case True
    then have "fstring_expr_loop d e l = (e, l)" by (subst fstring_expr_loop.simps) auto
    then show ?thesis by simp
  next
    case False
    then obtain c where c: "peek l = Some c" and d: "d \<noteq> 0" by auto
    consider "c = 123" | "c \<noteq> 123" "c = 125" | "c \<noteq> 123" "c \<noteq> 125" by blast
    then show ?thesis
    proof cases
      case 1
      then show ?thesis using quiet_trans [OF quiet_advance "1.IH"(1) [OF d c 1]] c d
        by (subst fstring_expr_loop.simps) simp
    next
      case 2
      then show ?thesis using quiet_trans [OF quiet_advance "1.IH"(2) [OF d c 2]] c d
        by (subst fstring_expr_loop.simps) simp
    next
      case 3
      then show ?thesis using quiet_trans [OF quiet_advance "1.IH"(3) [OF d c 3]] c d
        by (subst fstring_expr_loop.simps) simp
    qed
  qed
qed

lemma quiet_fstring_expr: "scan_fstring_expr l = (x, l') \<Longrightarrow> quiet l l'"
  using quiet_fstring_expr_loop by (metis scan_fstring_expr_def snd_conv)

lemma quiet_fstring_loop: "quiet l (snd (fstring_loop s q p t l))"
proof (induction s q p t l rule: fstring_loop.induct)
  case (1 s q p t l)
  show ?case
  proof (cases "peek l")
    case None
    then show ?thesis by (subst fstring_loop.simps) (simp add: quiet_push_error)
  next
    case (Some c)
    note IH = "1.IH" [OF Some]
    let ?l1 = "advance l"
    have adv: "quiet l ?l1" "quiet l (advance ?l1)" by (simp_all add: quiet_advance_after)
    consider "c = q" | "c \<noteq> q" "c = 123" | "c \<noteq> q" "c \<noteq> 123" "c = 125" | "c \<noteq> q" "c \<noteq> 123" "c \<noteq> 125" "c = 92"
      | "c \<noteq> q" "c \<noteq> 123" "c \<noteq> 125" "c \<noteq> 92" "c = 10" | "c \<noteq> q" "c \<noteq> 123" "c \<noteq> 125" "c \<noteq> 92" "c \<noteq> 10" by blast
    then show ?thesis
    proof cases
      case 1
      then show ?thesis using Some adv by (subst fstring_loop.simps) simp
    next
      case 2
      show ?thesis
      proof (cases "peek ?l1 = Some 123")
        case True
        show ?thesis using quiet_trans [OF adv(2) IH(1) [OF 2 refl True]] True 2 Some
          by (subst fstring_loop.simps) (simp add: Let_def)
      next
        case False
        obtain x l2 where e: "scan_fstring_expr ?l1 = (x, l2)" by fastforce
        have "quiet l l2" using quiet_trans [OF adv(1) quiet_fstring_expr [OF e]] .
        from quiet_trans [OF this IH(2) [OF 2 refl False refl refl e [symmetric]]]
        show ?thesis using False e 2 Some by (subst fstring_loop.simps) (simp add: Let_def)
      qed
    next
      case 3
      show ?thesis
      proof (cases "peek ?l1 = Some 125")
        case True
        show ?thesis using quiet_trans [OF adv(2) IH(3) [OF 3 refl True]] True 3 Some
          by (subst fstring_loop.simps) (simp add: Let_def)
      next
        case False
        show ?thesis using quiet_trans [OF quiet_push_error_after [OF adv(1)] IH(4) [OF 3 refl False]] False 3 Some
          by (subst fstring_loop.simps) (simp add: Let_def)
      qed
    next
      case 4
      obtain r l' where e: "scan_text_escape q ?l1 = (r, l')" by fastforce
      have l': "quiet l l'" using quiet_trans [OF adv(1) quiet_text_escape [OF e]] .
      show ?thesis
      proof (cases r)
        case (EscChar x)
        show ?thesis using quiet_trans [OF l' IH(5) [OF 4 e [symmetric] EscChar]] e EscChar 4 Some
          by (subst fstring_loop.simps) simp
      next
        case (EscUnknown x)
        show ?thesis using quiet_trans [OF l' IH(6) [OF 4 e [symmetric] EscUnknown]] e EscUnknown 4 Some
          by (subst fstring_loop.simps) simp
      next
        case EscEof
        then show ?thesis using quiet_push_error_after [OF l'] e 4 Some by (subst fstring_loop.simps) simp
      qed
    next
      case 5
      then show ?thesis using Some by (subst fstring_loop.simps) (simp add: quiet_push_error)
    next
      case 6
      show ?thesis using quiet_trans [OF quiet_advance IH(7) [OF 6]] 6 Some by (subst fstring_loop.simps) simp
    qed
  qed
qed

section \<open>Scanners\<close>

lemma emits_push_token:
  "\<not> is_layout k \<Longrightarrow> bracket_step k = id \<Longrightarrow> quiet l m \<Longrightarrow> emits s l (push_token k s (current_pos m) m)"
  unfolding emits_def by (intro disjI2 exI [of _ k]) (auto simp: push_token_def quiet_def moves_def)

lemma bracket_step_plain:
  "bracket_step (Keyword i) = id" "bracket_step (Operator oi) = id" "bracket_step (Ident w) = id"
  "bracket_step (IntTok n) = id" "bracket_step (FloatTok f) = id" "bracket_step (DecimalTok d) = id"
  "bracket_step (StringTok w) = id" "bracket_step (Bytes b) = id" "bracket_step (FString ps) = id"
  by (simp_all add: bracket_step_def fun_eq_iff)

lemma emits_add_token: "\<not> is_layout k \<Longrightarrow> bracket_step k = id \<Longrightarrow> quiet l m \<Longrightarrow> emits s l (add_token k s m)"
  unfolding add_token_def by (rule emits_push_token)

lemma emitter_add_op [emitterI]: "emitter s (add_op i s)"
  by (simp add: emitter_def add_op_def emits_add_token is_layout_def bracket_step_plain)

definition is_bracket :: "PunctuationId \<Rightarrow> bool" where
  "is_bracket i \<longleftrightarrow> i \<in> {PunctLParen, PunctLBracket, PunctLBrace, PunctRParen, PunctRBracket, PunctRBrace}"

lemma emitter_add_punct [emitterI]: "\<not> is_bracket i \<Longrightarrow> emitter s (add_punct i s)"
  unfolding emitter_def add_punct_def
  by (intro allI emits_add_token) (auto simp: is_layout_def bracket_step_def is_bracket_def fun_eq_iff)

lemma emitter_push_error [emitterI]: "emitter s (push_error k s)"
  by (simp add: emitter_def quiet_emits quiet_push_error)

lemma emitter_if_match [emitterI]:
  "emitter s yes \<Longrightarrow> emitter s no \<Longrightarrow> emitter s (if_match c yes no)"
  by (auto simp: emitter_def if_match_def match_char_def intro: quiet_then_emits quiet_advance)

lemma emitter_operator [emitterI]: "emitter s (operator s i cs)"
  unfolding emitter_def
proof
  fix l show "emits s l (operator s i cs l)"
  proof (induction s i cs l rule: operator.induct)
    case (1 s simple l)
    then show ?case using emitter_add_op [of s simple] by (simp add: emitter_def)
  next
    case (2 s simple c i cs l)
    have "emits s (advance l) (add_op i s (advance l))" using emitter_add_op by (simp add: emitter_def)
    then show ?case
      using 2 quiet_then_emits [OF quiet_advance] by (simp add: if_match_def match_char_def)
  qed
qed

lemma emitter_open [emitterI]:
  "k \<in> {PunctLParen, PunctLBracket, PunctLBrace} \<Longrightarrow> emitter s (open_bracket k s)"
  unfolding emitter_def emits_def
  by (intro allI disjI2 exI [of _ "Punctuation k"])
    (auto simp: open_bracket_def add_punct_def add_token_def push_token_def is_layout_def bracket_step_def moves_def)

lemma emitter_close [emitterI]:
  "k \<in> {PunctRParen, PunctRBracket, PunctRBrace} \<Longrightarrow> emitter s (close_bracket k s)"
  unfolding emitter_def emits_def
  by (intro allI disjI2 exI [of _ "Punctuation k"])
    (auto simp: close_bracket_def add_punct_def add_token_def push_token_def push_error_def is_layout_def
      bracket_step_def moves_def)

lemmas emitter_defs = scan_slash_def scan_pipe_def scan_less_def scan_greater_def scan_bang_def scan_dot_def

lemma emitter_compound [emitterI]:
  "emitter s (scan_slash s)" "emitter s (scan_pipe s)" "emitter s (scan_less s)" "emitter s (scan_greater s)"
  "emitter s (scan_bang s)" "emitter s (scan_dot s)"
  unfolding emitter_defs by (intro emitterI; simp add: is_bracket_def)+

lemma emitter_skip_line [emitterI]: "emitter s skip_line"
  by (simp add: emitter_def skip_line_def quiet_emits quiet_advance_while)

lemma emitter_id [emitterI]: "emitter s (\<lambda>l. l)"
  by (simp add: emitter_def quiet_emits)

lemma emitter_scan_symbol: "scan_symbol s c = Some f \<Longrightarrow> c \<noteq> 10 \<Longrightarrow> emitter s f"
  unfolding scan_symbol_def
  by (auto split: if_split_asm simp: is_bracket_def intro!: emitterI)

lemma emitter_scan_string: "emitter s (scan_string s q)"
  unfolding emitter_def
proof
  fix l
  obtain t l1 where o: "(if peek l = Some q
      then if peek_next l = Some q then (True, advance (advance l)) else (False, l) else (False, l)) = (t, l1)"
    by fastforce
  then have l1: "quiet l l1" by (auto simp: quiet_advance_after split: if_splits)
  obtain v l2 where v: "string_loop s q t [] l1 = (v, l2)" by fastforce
  have "quiet l l2" using quiet_trans [OF l1 quiet_string_loop [of l1 s q t "[]"]] by (simp add: v)
  then show "emits s l (scan_string s q l)"
    by (simp add: scan_string_def o v emits_push_token is_layout_def bracket_step_plain)
qed

lemma emitter_scan_byte_string: "emitter s (scan_byte_string s q)"
  unfolding emitter_def
proof
  fix l
  obtain v l2 where v: "byte_string_loop s q [] l = (v, l2)" by fastforce
  have "quiet l l2" using quiet_byte_string_loop [of l s q "[]"] by (simp add: v)
  then show "emits s l (scan_byte_string s q l)"
    by (simp add: scan_byte_string_def v emits_push_token is_layout_def bracket_step_plain)
qed

lemma emitter_scan_fstring: "emitter s (scan_fstring s q)"
  unfolding emitter_def
proof
  fix l
  obtain p t l2 where v: "fstring_loop s q [] [] l = ((p, t), l2)" by (metis surj_pair)
  have "quiet l l2" using quiet_fstring_loop [of l s q "[]" "[]"] by (simp add: v)
  then show "emits s l (scan_fstring s q l)"
    by (simp add: scan_fstring_def v emits_push_token is_layout_def bracket_step_plain)
qed

lemma emitter_scan_identifier: "emitter s (scan_identifier s)"
  unfolding emitter_def scan_identifier_def
  by (auto simp: Let_def is_layout_def bracket_step_plain intro!: emits_add_token quiet_advance_while
      split: option.splits)

lemma quiet_scan_fraction: "scan_fraction l = (b, l') \<Longrightarrow> quiet l l'"
  using quiet_trans [OF quiet_advance quiet_advance_while]
  by (auto simp: scan_fraction_def split: if_splits)

lemma quiet_scan_exponent: "scan_exponent f l = (b, l') \<Longrightarrow> quiet l l'"
  using quiet_trans [OF quiet_advance quiet_advance_while]
    quiet_trans [OF quiet_advance_after [OF quiet_advance] quiet_advance_while]
  by (auto simp: scan_exponent_def Let_def split: if_splits)

lemma quiet_scan_numeric_suffix: "scan_numeric_suffix l = (x, l') \<Longrightarrow> quiet l l'"
  by (auto simp: scan_numeric_suffix_def quiet_funpow_advance split: option.splits)

lemma emits_scan_decimal: "quiet l m \<Longrightarrow> emits s l (scan_decimal_literal s m)"
  by (auto simp: scan_decimal_literal_def Let_def is_layout_def bracket_step_plain quiet_advance_after
      quiet_push_error_after quiet_emits intro!: emits_add_token split: option.splits)

lemma emits_scan_float: "quiet l m \<Longrightarrow> emits s l (scan_float_literal pf s repr nr suffix m)"
  by (auto simp: scan_float_literal_def is_layout_def bracket_step_plain
      quiet_push_error_after quiet_emits intro!: emits_add_token split: option.splits)

lemma emits_scan_int: "quiet l m \<Longrightarrow> emits s l (scan_int_literal s repr nr suffix m)"
  by (auto simp: scan_int_literal_def is_layout_def bracket_step_plain
      quiet_push_error_after quiet_emits intro!: emits_add_token split: option.splits)

lemma emitter_scan_number: "emitter s (scan_number pf s)"
  unfolding emitter_def
proof
  fix l
  let ?l1 = "advance_while digit_or_sep l"
  obtain f2 l2 where f: "scan_fraction ?l1 = (f2, l2)" by fastforce
  obtain f3 l3 where e: "scan_exponent f2 l2 = (f3, l3)" by fastforce
  obtain sx l4 where x: "scan_numeric_suffix l3 = (sx, l4)" by fastforce
  have l3: "quiet l l3"
    using quiet_trans [OF quiet_advance_while quiet_trans [OF quiet_scan_fraction [OF f] quiet_scan_exponent [OF e]]] .
  have l4: "quiet l l4" using quiet_trans [OF l3 quiet_scan_numeric_suffix [OF x]] .
  show "emits s l (scan_number pf s l)"
    by (simp add: scan_number_def f e x Let_def emits_scan_decimal [OF l3] emits_scan_float [OF l4]
        emits_scan_int [OF l4])
qed

lemma emits_scan_literal: "emits s l (scan_literal pf s c l)"
  using emitter_scan_string [of s] emitter_scan_number [of s pf] emitter_scan_identifier [of s]
    emitter_push_error [of s] emitter_scan_fstring [of s] emitter_scan_byte_string [of s]
    quiet_then_emits [OF quiet_advance [of l]]
  by (auto simp: scan_literal_def emitter_def is_quote_def)

lemma emits_scan_lexeme: "c \<noteq> 10 \<Longrightarrow> emits s l (scan_lexeme pf s c l)"
  using emitter_scan_symbol [of s c] emits_scan_literal
  by (auto simp: scan_lexeme_def emitter_def split: option.splits)

lemma scan_lexeme_newline: "scan_lexeme pf s 10 l = scan_newline s l"
  by (simp add: scan_lexeme_def scan_symbol_def)

lemma moves_scan_lexeme: "moves l (scan_lexeme pf s c l)"
proof (cases "c = 10")
  case True
  then show ?thesis by (auto simp: scan_lexeme_newline scan_newline_def moves_def push_token_def)
qed (simp add: emits_moves [OF emits_scan_lexeme])

section \<open>Indentation\<close>

definition line_done :: "nat \<Rightarrow> Lexer \<Rightarrow> Lexer \<Rightarrow> bool" where
  "line_done s l l' \<longleftrightarrow> length (rest l') < length (rest l)
     \<and> (quiet l l' \<or> (\<exists>m. quiet l m \<and> l' = push_token Newline s (current_pos m) m))"

definition indent_result :: "nat \<Rightarrow> Lexer \<Rightarrow> IndentScan \<Rightarrow> bool" where
  "indent_result s l r \<longleftrightarrow> (case r of Measured i l' \<Rightarrow> quiet l l' | LineDone l' \<Rightarrow> line_done s l l')"

lemma line_done_after: "quiet l m \<Longrightarrow> line_done s m l' \<Longrightarrow> line_done s l l'"
proof -
  assume lm: "quiet l m" and d: "line_done s m l'"
  have "length (rest l') < length (rest l)"
    using d moves_length [OF quiet_moves [OF lm]] by (simp add: line_done_def)
  moreover have "quiet l l' \<or> (\<exists>k. quiet l k \<and> l' = push_token Newline s (current_pos k) k)"
    using d quiet_trans [OF lm] unfolding line_done_def by blast
  ultimately show ?thesis by (simp add: line_done_def)
qed

lemma indent_result_after: "quiet l m \<Longrightarrow> indent_result s m r \<Longrightarrow> indent_result s l r"
  by (auto simp: indent_result_def line_done_after intro: quiet_trans split: IndentScan.splits)

lemma skip_line_less: "peek l = Some c \<Longrightarrow> c \<noteq> 10 \<Longrightarrow> length (rest (skip_line l)) < length (rest l)"
proof -
  assume c: "peek l = Some c" "c \<noteq> 10"
  then have "skip_line l = advance_while (\<lambda>c. c \<noteq> 10) (advance l)"
    unfolding skip_line_def by (subst advance_while.simps) simp
  then show ?thesis
    using length_rest_advance [OF c(1)] moves_length [OF quiet_moves [OF quiet_advance_while [of "advance l" "\<lambda>c. c \<noteq> 10"]]]
    by simp
qed

lemma measure_indent_result: "indent_result s l (measure_indent s n l)"
proof (induction s n l rule: measure_indent.induct)
  case (1 s n l)
  show ?case
  proof (cases "peek l")
    case None
    then show ?thesis by (subst measure_indent.simps) (simp add: indent_result_def)
  next
    case (Some c)
    have less: "length (rest (advance l)) < length (rest l)" using length_rest_advance [OF Some] .
    consider "c = 32" | "c \<noteq> 32" "c = 9" | "c \<noteq> 32" "c \<noteq> 9" "c = 35" | "c \<noteq> 32" "c \<noteq> 9" "c \<noteq> 35" "c = 10"
      | "c \<noteq> 32" "c \<noteq> 9" "c \<noteq> 35" "c \<noteq> 10" "c = 13" | "c \<noteq> 32" "c \<noteq> 9" "c \<noteq> 35" "c \<noteq> 10" "c \<noteq> 13" by blast
    then show ?thesis
    proof cases
      case 1
      show ?thesis using Some 1 indent_result_after [OF quiet_advance "1.IH"(1) [OF Some 1]]
        by (subst measure_indent.simps) simp
    next
      case 2
      show ?thesis using Some 2 indent_result_after [OF quiet_advance "1.IH"(2) [OF Some 2]]
        by (subst measure_indent.simps) simp
    next
      case 3
      have "length (rest (skip_line l)) < length (rest l)" using skip_line_less [OF Some] 3 by simp
      moreover have q: "quiet l (skip_line l)" by (simp add: skip_line_def quiet_advance_while)
      moreover have "length (rest (advance (skip_line l))) \<le> length (rest (skip_line l))" by (rule advance_le)
      ultimately show ?thesis using Some 3 quiet_advance_after [OF q]
        by (subst measure_indent.simps) (simp add: indent_result_def line_done_def Let_def)
    next
      case 4
      then show ?thesis using Some less quiet_advance [of l]
        by (subst measure_indent.simps) (auto simp: indent_result_def line_done_def Let_def push_token_def)
    next
      case 5
      show ?thesis using Some 5 indent_result_after [OF quiet_advance "1.IH"(3) [OF Some 5]]
        by (subst measure_indent.simps) simp
    next
      case 6
      then show ?thesis using Some by (subst measure_indent.simps) (simp add: indent_result_def)
    qed
  qed
qed

lemma apply_indent_frame:
  "rest (apply_indent s i l) = rest l" "current_pos (apply_indent s i l) = current_pos l"
  "source (apply_indent s i l) = source l" "bracket_depth (apply_indent s i l) = bracket_depth l"
  by (simp_all add: apply_indent_def apply_dedent_def Let_def push_token_def push_error_def)

section \<open>Progress and the main loop\<close>

definition lex_order :: "(Lexer \<times> Lexer) set" where
  "lex_order = inv_image (less_than <*lex*> less_than <*lex*> less_than)
     (\<lambda>l. (length (rest l), if at_line_start l then 1 else 0 :: nat, pending_dedents l))"

lemma wf_lex_order: "wf lex_order"
  by (auto simp: lex_order_def)

lemma handle_indentation_progress:
  "at_line_start l \<Longrightarrow> (handle_indentation l, l) \<in> lex_order"
  using measure_indent_result [of "current_pos l" l 0]
  by (cases "measure_indent (current_pos l) 0 l")
    (auto simp: handle_indentation_def indent_result_def line_done_def lex_order_def apply_indent_frame
      dest: moves_length [OF quiet_moves] le_imp_less_or_eq)

lemma scan_token_progress: "\<not> is_at_end l \<Longrightarrow> (scan_token pf l, l) \<in> lex_order"
proof -
  assume ne: "\<not> is_at_end l"
  consider "pending_dedents l > 0" | "pending_dedents l = 0" "at_line_start l"
    | "pending_dedents l = 0" "\<not> at_line_start l" by blast
  then show ?thesis
  proof cases
    case 1
    then show ?thesis by (simp add: scan_token_def lex_order_def push_token_def)
  next
    case 2
    then show ?thesis using handle_indentation_progress by (simp add: scan_token_def)
  next
    case 3
    let ?l1 = "skip_blanks l"
    have le: "length (rest ?l1) \<le> length (rest l)"
      using moves_length [OF quiet_moves [OF quiet_advance_while]] by (simp add: skip_blanks_def)
    have "length (rest (scan_token pf l)) < length (rest l)"
    proof (cases "peek ?l1")
      case None
      then have "rest ?l1 = []" by (simp add: peek_def split: list.splits)
      then show ?thesis using 3 ne None by (simp add: scan_token_def is_at_end_def)
    next
      case (Some c)
      have "length (rest (advance ?l1)) < length (rest ?l1)" using length_rest_advance [OF Some] .
      moreover have "length (rest (scan_lexeme pf (current_pos ?l1) c (advance ?l1))) \<le> length (rest (advance ?l1))"
        by (rule moves_length [OF moves_scan_lexeme])
      ultimately show ?thesis using 3 Some le by (simp add: scan_token_def Let_def)
    qed
    then show ?thesis by (simp add: lex_order_def)
  qed
qed

text \<open>\<open>while !self.is_at_end() { self.scan_token(); }\<close>\<close>

function scan_all :: "(rstr \<Rightarrow> f64 option) \<Rightarrow> Lexer \<Rightarrow> Lexer" where
  "scan_all pf l = (if is_at_end l then l else scan_all pf (scan_token pf l))"
  by pat_completeness auto
termination
  by (relation "inv_image lex_order snd") (auto simp: wf_lex_order scan_token_progress)

declare scan_all.simps [simp del]

text \<open>The dedents still open at the end of the file.\<close>

function close_levels :: "Lexer \<Rightarrow> Lexer" where
  "close_levels l =
     (if length (indent_stack l) > 1 then
        close_levels (push_token Dedent (current_pos l) (current_pos l) (l\<lparr>indent_stack := butlast (indent_stack l)\<rparr>))
      else l)"
  by pat_completeness auto
termination
  by (relation "measure (\<lambda>l. length (indent_stack l))") (auto simp: push_token_def)

declare close_levels.simps [simp del]

definition tokenize_tolerant :: "(rstr \<Rightarrow> f64 option) \<Rightarrow> Lexer \<Rightarrow> Token list \<times> CompileError list" where
  "tokenize_tolerant pf l =
     (let l = close_levels (scan_all pf l);
          l = push_token Eof (current_pos l) (current_pos l) l
      in (tokens l, errors l))"

definition tokenize :: "(rstr \<Rightarrow> f64 option) \<Rightarrow> Lexer \<Rightarrow> CompileError list + Token list" where
  "tokenize pf l = (case tokenize_tolerant pf l of (ts, es) \<Rightarrow> if es = [] then Inr ts else Inl es)"

definition lex :: "(rstr \<Rightarrow> f64 option) \<Rightarrow> rstr \<Rightarrow> CompileError list + Token list" where
  "lex pf src = tokenize pf (lexer_new src)"

definition lex_tolerant :: "(rstr \<Rightarrow> f64 option) \<Rightarrow> rstr \<Rightarrow> Token list \<times> CompileError list" where
  "lex_tolerant pf src = tokenize_tolerant pf (lexer_new src)"

end
