(* ===== verification/Lexer_Layout.thy ===== *)
theory Lexer_Layout
  imports Lexer_Driver
begin

text \<open>
  The invariant of the lexer and what it means for the token stream: blocks nest, the spans are
  ordered, non-overlapping and on character boundaries, and layout tokens occur only outside
  brackets.  The invariant is kept by every step of the main loop, whatever the input, errors
  included.
\<close>

section \<open>Properties of token streams\<close>

text \<open>Block depth after a token list; \<open>None\<close> when a dedent closes more than was opened.\<close>

fun nest :: "nat \<Rightarrow> Token list \<Rightarrow> nat option" where
  "nest d [] = Some d"
| "nest d (t # ts) =
     (if kind t = Indent then nest (d + 1) ts
      else if kind t = Dedent then (if d = 0 then None else nest (d - 1) ts)
      else nest d ts)"

fun brackets :: "nat \<Rightarrow> Token list \<Rightarrow> nat" where
  "brackets d [] = d"
| "brackets d (t # ts) = brackets (bracket_step (kind t) d) ts"

text \<open>Layout tokens only at bracket depth zero.\<close>

fun layout_ok :: "nat \<Rightarrow> Token list \<Rightarrow> bool" where
  "layout_ok d [] = True"
| "layout_ok d (t # ts) = ((is_layout (kind t) \<longrightarrow> d = 0) \<and> layout_ok (bracket_step (kind t) d) ts)"

definition boundary :: "rstr \<Rightarrow> nat \<Rightarrow> bool" where
  "boundary src n \<longleftrightarrow> (\<exists>a b. src = a @ b \<and> n = str_bytes_len a)"

definition spans_ok :: "rstr \<Rightarrow> Token list \<Rightarrow> nat \<Rightarrow> bool" where
  "spans_ok src ts n \<longleftrightarrow> sorted_wrt (\<lambda>a b. end_pos (span a) \<le> start (span b)) ts
     \<and> (\<forall>t \<in> set ts. start (span t) \<le> end_pos (span t) \<and> end_pos (span t) \<le> n
          \<and> boundary src (start (span t)) \<and> boundary src (end_pos (span t)))"

lemma nest_append: "nest d (xs @ ys) = Option.bind (nest d xs) (\<lambda>e. nest e ys)"
  by (induction d xs rule: nest.induct) auto

lemma brackets_append: "brackets d (xs @ ys) = brackets (brackets d xs) ys"
  by (induction d xs rule: brackets.induct) auto

lemma layout_ok_append: "layout_ok d (xs @ ys) \<longleftrightarrow> layout_ok d xs \<and> layout_ok (brackets d xs) ys"
  by (induction d xs rule: layout_ok.induct) auto

lemma spans_ok_mono: "spans_ok src ts n \<Longrightarrow> n \<le> m \<Longrightarrow> spans_ok src ts m"
  unfolding spans_ok_def by (meson order_trans)

lemma spans_ok_snoc:
  assumes "spans_ok src ts n" "n \<le> s" "s \<le> e" "boundary src s" "boundary src e"
  shows "spans_ok src (ts @ [token_new k (span_new s e)]) e"
  using assms unfolding spans_ok_def
  by (auto simp: sorted_wrt_append token_new_def span_new_def)

lemma layout_kinds [simp]: "is_layout Newline" "is_layout Indent" "is_layout Dedent" "is_layout Eof"
  by (simp_all add: is_layout_def)

lemma bracket_step_layout [simp]: "is_layout k \<Longrightarrow> bracket_step k d = d"
  by (auto simp: is_layout_def bracket_step_def)

lemma kind_token_new [simp]: "kind (token_new k sp) = k"
  by (simp add: token_new_def)

section \<open>The invariant\<close>

definition stack_ok :: "nat list \<Rightarrow> bool" where
  "stack_ok st \<longleftrightarrow> st \<noteq> [] \<and> hd st = 0 \<and> sorted_wrt (<) st"

definition position_ok :: "Lexer \<Rightarrow> bool" where
  "position_ok l \<longleftrightarrow> (\<exists>c. source l = c @ rest l \<and> current_pos l = str_bytes_len c)"

definition lexer_inv :: "Lexer \<Rightarrow> bool" where
  "lexer_inv l \<longleftrightarrow> position_ok l \<and> stack_ok (indent_stack l)
     \<and> nest 0 (tokens l) = Some (length (indent_stack l) - 1 + pending_dedents l)
     \<and> (pending_dedents l > 0 \<longrightarrow> rest l \<noteq> [] \<and> \<not> at_line_start l)
     \<and> (at_line_start l \<or> pending_dedents l > 0 \<longrightarrow> bracket_depth l = 0)
     \<and> brackets 0 (tokens l) = bracket_depth l \<and> layout_ok 0 (tokens l)
     \<and> spans_ok (source l) (tokens l) (current_pos l)
     \<and> list_all (\<lambda>t. kind t \<noteq> Eof) (tokens l)"

lemma lexer_inv_new: "lexer_inv (lexer_new src)"
  by (simp add: lexer_inv_def lexer_new_def position_ok_def stack_ok_def spans_ok_def)

lemma position_ok_moves: "position_ok l \<Longrightarrow> moves l l' \<Longrightarrow> position_ok l'"
  unfolding position_ok_def moves_def by (metis append.assoc str_bytes_len_simps(3))

lemma position_boundary: "position_ok l \<Longrightarrow> boundary (source l) (current_pos l)"
  unfolding position_ok_def boundary_def by blast

lemma moves_source: "moves l l' \<Longrightarrow> source l' = source l"
  by (simp add: moves_def)

lemma inv_quiet:
  assumes "lexer_inv l" "quiet l l'" "pending_dedents l = 0"
  shows "lexer_inv l'"
proof -
  have m: "moves l l'" using assms(2) by (rule quiet_moves)
  have f: "indent_stack l' = indent_stack l" "pending_dedents l' = 0" "at_line_start l' = at_line_start l"
    "bracket_depth l' = bracket_depth l" "tokens l' = tokens l" "source l' = source l"
    using assms(2,3) m by (simp_all add: quiet_def moves_def)
  have "spans_ok (source l) (tokens l) (current_pos l')"
    using assms(1) moves_pos [OF m] spans_ok_mono by (auto simp: lexer_inv_def)
  then show ?thesis using assms(1,3) position_ok_moves [OF _ m] by (simp add: lexer_inv_def f)
qed

lemma inv_emits:
  assumes "lexer_inv l" "emits s l l'" "pending_dedents l = 0" "\<not> at_line_start l"
    and "boundary (source l) s" "s \<le> current_pos l" "spans_ok (source l) (tokens l) s"
  shows "lexer_inv l'"
proof (cases "quiet l l'")
  case True
  then show ?thesis using inv_quiet assms(1,3) by blast
next
  case False
  then obtain k where k: "\<not> is_layout k" "moves l l'" "indent_stack l' = indent_stack l"
      "pending_dedents l' = pending_dedents l" "at_line_start l' = at_line_start l"
      "bracket_depth l' = bracket_step k (bracket_depth l)"
      "tokens l' = tokens l @ [token_new k (span_new s (current_pos l'))]"
    using assms(2) unfolding emits_def by blast
  have p: "position_ok l'" using assms(1) position_ok_moves [OF _ k(2)] by (simp add: lexer_inv_def)
  have src: "source l' = source l" using moves_source [OF k(2)] .
  have "s \<le> current_pos l'" using assms(6) moves_pos [OF k(2)] by linarith
  then have "spans_ok (source l) (tokens l') (current_pos l')"
    using spans_ok_snoc [OF assms(7)] position_boundary [OF p] assms(5) by (simp add: k(7) src)
  moreover have "k \<noteq> Eof" "k \<noteq> Indent" "k \<noteq> Dedent" using k(1) by (auto simp: is_layout_def)
  ultimately show ?thesis
    using assms(1,3,4) p k by (simp add: lexer_inv_def src nest_append brackets_append layout_ok_append)
qed

lemma inv_newline_token:
  assumes "lexer_inv l" "pending_dedents l = 0" "bracket_depth l = 0"
    and "spans_ok (source l) (tokens l) s" "s \<le> current_pos l" "boundary (source l) s"
  shows "lexer_inv (push_token Newline s (current_pos l) l)"
proof -
  have "boundary (source l) (current_pos l)" using assms(1) position_boundary by (simp add: lexer_inv_def)
  from spans_ok_snoc [OF assms(4) order_refl assms(5,6) this]
  show ?thesis using assms(1,2,3)
    by (simp add: lexer_inv_def push_token_def position_ok_def nest_append brackets_append layout_ok_append)
qed

lemma inv_line_start:
  "lexer_inv l \<Longrightarrow> pending_dedents l = 0 \<Longrightarrow> bracket_depth l = 0 \<Longrightarrow> lexer_inv (l\<lparr>at_line_start := b\<rparr>)"
  by (simp add: lexer_inv_def position_ok_def)

lemma inv_scan_newline:
  assumes "lexer_inv l" "pending_dedents l = 0"
    and "spans_ok (source l) (tokens l) s" "s \<le> current_pos l" "boundary (source l) s"
  shows "lexer_inv (scan_newline s l)"
proof (cases "bracket_depth l = 0")
  case True
  have "lexer_inv (push_token Newline s (current_pos l) l)" by (rule inv_newline_token [OF assms(1,2) True assms(3-5)])
  then show ?thesis
    using True assms(1,2) inv_line_start by (simp add: scan_newline_def push_token_def)
qed (simp add: scan_newline_def assms(1))

section \<open>Indentation steps\<close>

lemma pop_levels_simps:
  "x \<le> i \<Longrightarrow> pop_levels i (st @ [x]) = st @ [x]"
  "\<not> x \<le> i \<Longrightarrow> st \<noteq> [] \<Longrightarrow> pop_levels i (st @ [x]) = pop_levels i st"
  by (simp_all add: pop_levels.simps [of i "st @ [x]"])

lemma dedent_count_simps:
  "x \<le> i \<Longrightarrow> dedent_count i (st @ [x]) = 0"
  "\<not> x \<le> i \<Longrightarrow> dedent_count i (st @ [x]) = Suc (dedent_count i st)"
  by (simp_all add: dedent_count_def)

lemma pop_levels_spec:
  "stack_ok st \<Longrightarrow> stack_ok (pop_levels i st) \<and> length (pop_levels i st) + dedent_count i st = length st
     \<and> last (pop_levels i st) \<le> i"
proof (induction st rule: rev_induct)
  case Nil
  then show ?case by (simp add: stack_ok_def)
next
  case (snoc x st)
  show ?case
  proof (cases "x \<le> i")
    case True
    then show ?thesis using snoc.prems by (simp add: pop_levels_simps dedent_count_simps)
  next
    case False
    then have "st \<noteq> []" using snoc.prems by (auto simp: stack_ok_def)
    moreover from this have "stack_ok st" using snoc.prems by (simp add: stack_ok_def sorted_wrt_append)
    ultimately show ?thesis using snoc.IH False by (simp add: pop_levels_simps dedent_count_simps)
  qed
qed

lemma stack_ok_push: "stack_ok st \<Longrightarrow> last st < i \<Longrightarrow> stack_ok (st @ [i])"
proof -
  assume st: "stack_ok st" "last st < i"
  have "x \<le> last st" if "x \<in> set st" for x
  proof -
    have "st = butlast st @ [last st]" using st(1) by (simp add: stack_ok_def)
    then have "sorted_wrt (<) (butlast st @ [last st])" using st(1) by (metis stack_ok_def)
    then have "\<forall>y \<in> set (butlast st). y < last st" by (simp add: sorted_wrt_append)
    moreover have "x \<in> set (butlast st) \<or> x = last st"
      using that \<open>st = _\<close> by (metis in_set_conv_decomp_first append_is_Nil_conv insert_iff list.set(2) rotate1.simps(2) set_rotate1)
    ultimately show ?thesis by auto
  qed
  then have "\<forall>x \<in> set st. x < i" using st(2) by (meson le_less_trans)
  then show ?thesis using st(1) by (auto simp: stack_ok_def sorted_wrt_append)
qed

lemma stack_top_ok: "stack_ok st \<Longrightarrow> stack_top st = last st"
  by (simp add: stack_top_def stack_ok_def)

lemma dedent_count_pos: "stack_ok st \<Longrightarrow> i < last st \<Longrightarrow> 0 < dedent_count i st"
  by (metis append_butlast_last_id dedent_count_simps(2) not_le stack_ok_def zero_less_Suc)

text \<open>What \<open>handle_indentation\<close> adds, in terms of the fields the invariant reads.\<close>

lemma apply_dedent_fields:
  "tokens (apply_dedent s i l) =
     (if dedent_count i (indent_stack l) > 0 then tokens l @ [token_new Dedent (span_new s (current_pos l))] else tokens l)"
  "indent_stack (apply_dedent s i l) = pop_levels i (indent_stack l)"
  "pending_dedents (apply_dedent s i l) =
     (if dedent_count i (indent_stack l) > 1 then dedent_count i (indent_stack l) - 1 else pending_dedents l)"
  "rest (apply_dedent s i l) = rest l" "current_pos (apply_dedent s i l) = current_pos l"
  "source (apply_dedent s i l) = source l" "bracket_depth (apply_dedent s i l) = bracket_depth l"
  "at_line_start (apply_dedent s i l) = at_line_start l"
  by (simp_all add: apply_dedent_def Let_def push_token_def push_error_def)

lemma inv_indent_token:
  assumes "lexer_inv l" "pending_dedents l = 0" "bracket_depth l = 0" "rest l \<noteq> []"
    and "spans_ok (source l) (tokens l) s" "s \<le> current_pos l" "boundary (source l) s"
  shows "lexer_inv ((apply_indent s i l)\<lparr>at_line_start := False\<rparr>)"
proof -
  have st: "stack_ok (indent_stack l)" and n: "nest 0 (tokens l) = Some (length (indent_stack l) - 1)"
    using assms(1,2) by (simp_all add: lexer_inv_def)
  have sp: "spans_ok (source l) (tokens l @ [token_new k (span_new s (current_pos l))]) (current_pos l)" for k
    using spans_ok_snoc [OF assms(5) order_refl assms(6,7)] position_boundary assms(1) by (simp add: lexer_inv_def)
  have len: "0 < length (indent_stack l)" using st by (simp add: stack_ok_def)
  consider "i > last (indent_stack l)" | "i < last (indent_stack l)" | "i = last (indent_stack l)" by linarith
  then show ?thesis
  proof cases
    case 1
    then show ?thesis
      using assms(1-3) sp [of Indent] stack_ok_push [OF st 1] n len
      by (simp add: apply_indent_def stack_top_ok [OF st] lexer_inv_def push_token_def position_ok_def
          nest_append brackets_append layout_ok_append)
  next
    case 2
    let ?n = "dedent_count i (indent_stack l)"
    have d: "0 < ?n" using dedent_count_pos [OF st 2] .
    have p: "stack_ok (pop_levels i (indent_stack l))"
      "length (pop_levels i (indent_stack l)) + ?n = length (indent_stack l)"
      using pop_levels_spec [OF st] by auto
    obtain a where a: "length (pop_levels i (indent_stack l)) = Suc a"
      using p(1) by (cases "pop_levels i (indent_stack l)") (auto simp: stack_ok_def)
    obtain b where b: "?n = Suc b" using d by (cases ?n) auto
    have "length (indent_stack l) = Suc (Suc (a + b))" using p(2) a b by simp
    then show ?thesis
      using assms(1-4) sp [of Dedent] p(1) a b 2
      by (simp add: apply_indent_def stack_top_ok [OF st] lexer_inv_def apply_dedent_fields position_ok_def
          nest_append brackets_append layout_ok_append)
  next
    case 3
    then show ?thesis using assms(1-3) inv_line_start [OF assms(1-3)]
      by (simp add: apply_indent_def stack_top_ok [OF st])
  qed
qed

lemma inv_handle_indentation:
  assumes "lexer_inv l" "pending_dedents l = 0" "at_line_start l"
  shows "lexer_inv (handle_indentation l)"
proof -
  let ?s = "current_pos l"
  have b: "bracket_depth l = 0" and sp: "spans_ok (source l) (tokens l) ?s" and bd: "boundary (source l) ?s"
    using assms position_boundary by (simp_all add: lexer_inv_def)
  have q: "lexer_inv m \<and> pending_dedents m = 0 \<and> bracket_depth m = 0 \<and> ?s \<le> current_pos m
      \<and> source m = source l \<and> tokens m = tokens l" if "quiet l m" for m
    using inv_quiet [OF assms(1) that assms(2)] that assms(2) b moves_pos [OF quiet_moves [OF that]]
      moves_source [OF quiet_moves [OF that]] by (simp add: quiet_def)
  have res: "indent_result ?s l (measure_indent ?s 0 l)" by (rule measure_indent_result)
  show ?thesis
  proof (cases "measure_indent ?s 0 l")
    case (LineDone l')
    then consider "quiet l l'" | m where "quiet l m" "l' = push_token Newline ?s (current_pos m) m"
      using res by (auto simp: indent_result_def line_done_def)
    then have "lexer_inv l'"
    proof cases
      case (2 m)
      then show ?thesis using q [OF 2(1)] inv_newline_token [of m ?s] sp bd by simp
    qed (use q in blast)
    then show ?thesis by (simp add: handle_indentation_def LineDone)
  next
    case (Measured i m)
    then have m: "quiet l m" using res by (simp add: indent_result_def)
    note mq = q [OF m]
    show ?thesis
    proof (cases "is_at_end m")
      case True
      then show ?thesis using mq inv_line_start [of m False] by (simp add: handle_indentation_def Measured)
    next
      case False
      then have "rest m \<noteq> []" by (simp add: is_at_end_def)
      then show ?thesis using False mq inv_indent_token [of m ?s i] sp bd
        by (simp add: handle_indentation_def Measured)
    qed
  qed
qed

section \<open>Preservation\<close>

lemma inv_pending:
  assumes "lexer_inv l" "pending_dedents l > 0"
  shows "lexer_inv (push_token Dedent (current_pos l) (current_pos l) (l\<lparr>pending_dedents := pending_dedents l - 1\<rparr>))"
proof -
  have "spans_ok (source l) (tokens l @ [token_new Dedent (span_new (current_pos l) (current_pos l))]) (current_pos l)"
    using assms(1) position_boundary spans_ok_snoc [of "source l" "tokens l" "current_pos l" "current_pos l" "current_pos l"]
    by (simp add: lexer_inv_def)
  then show ?thesis using assms
    by (auto simp: lexer_inv_def push_token_def position_ok_def nest_append brackets_append layout_ok_append)
qed

lemma inv_scan_token:
  assumes "lexer_inv l" "\<not> is_at_end l"
  shows "lexer_inv (scan_token pf l)"
proof -
  consider "pending_dedents l > 0" | "pending_dedents l = 0" "at_line_start l"
    | "pending_dedents l = 0" "\<not> at_line_start l" by blast
  then show ?thesis
  proof cases
    case 1
    then show ?thesis using inv_pending [OF assms(1)] by (simp add: scan_token_def)
  next
    case 2
    then show ?thesis using inv_handle_indentation [OF assms(1)] by (simp add: scan_token_def)
  next
    case 3
    let ?l1 = "skip_blanks l"
    let ?s = "current_pos ?l1"
    have q1: "quiet l ?l1" by (simp add: skip_blanks_def quiet_advance_while)
    have i1: "lexer_inv ?l1" using inv_quiet [OF assms(1) q1 3(1)] .
    show ?thesis
    proof (cases "peek ?l1")
      case None
      then show ?thesis using i1 3 by (simp add: scan_token_def)
    next
      case (Some c)
      let ?l2 = "advance ?l1"
      have q2: "quiet ?l1 ?l2" by (rule quiet_advance)
      have f1: "pending_dedents ?l1 = 0" "\<not> at_line_start ?l1" using q1 3 by (simp_all add: quiet_def)
      have f2: "pending_dedents ?l2 = 0" "\<not> at_line_start ?l2" "source ?l2 = source ?l1" "tokens ?l2 = tokens ?l1"
        "?s \<le> current_pos ?l2"
        using q2 f1 moves_pos [OF quiet_moves [OF q2]] by (simp_all add: quiet_def moves_def)
      have i2: "lexer_inv ?l2" using inv_quiet [OF i1 q2 f1(1)] .
      have sp: "spans_ok (source ?l2) (tokens ?l2) ?s" "boundary (source ?l2) ?s"
        using i1 f2 position_boundary by (simp_all add: lexer_inv_def)
      have "lexer_inv (scan_lexeme pf ?s c ?l2)"
      proof (cases "c = 10")
        case True
        then show ?thesis using inv_scan_newline [OF i2 f2(1) sp(1) f2(5) sp(2)] by (simp add: scan_lexeme_newline)
      next
        case False
        show ?thesis by (rule inv_emits [OF i2 emits_scan_lexeme [OF False] f2(1,2) sp(2) f2(5) sp(1)])
      qed
      then show ?thesis using 3 Some by (simp add: scan_token_def Let_def)
    qed
  qed
qed

lemma inv_scan_all: "lexer_inv l \<Longrightarrow> lexer_inv (scan_all pf l) \<and> is_at_end (scan_all pf l)"
proof (induction pf l rule: scan_all.induct)
  case (1 pf l)
  then show ?case using inv_scan_token [of l pf] by (subst (1 2) scan_all.simps) simp
qed

lemma source_scan_token: "source (scan_token pf l) = source l"
proof -
  have "source (handle_indentation l) = source l"
    using measure_indent_result [of "current_pos l" l 0]
    by (cases "measure_indent (current_pos l) 0 l")
      (auto simp: handle_indentation_def indent_result_def line_done_def apply_indent_frame push_token_def
        dest!: moves_source [OF quiet_moves])
  moreover have "source (skip_blanks l) = source l"
    unfolding skip_blanks_def by (rule moves_source [OF quiet_moves [OF quiet_advance_while]])
  moreover have "source (advance m) = source m" for m by (rule moves_source [OF quiet_moves [OF quiet_advance]])
  ultimately show ?thesis
    using moves_source [OF moves_scan_lexeme] by (simp add: scan_token_def Let_def push_token_def split: option.splits)
qed

lemma source_scan_all: "source (scan_all pf l) = source l"
proof (induction pf l rule: scan_all.induct)
  case (1 pf l)
  then show ?case by (subst scan_all.simps) (simp add: source_scan_token)
qed

section \<open>The end of the file\<close>

lemma close_levels_spec:
  assumes "spans_ok (source l) (tokens l) (current_pos l)" "boundary (source l) (current_pos l)"
    and "nest 0 (tokens l) = Some (length (indent_stack l) - 1)"
    and "list_all (\<lambda>t. kind t \<noteq> Eof) (tokens l)"
  shows "\<exists>ds. tokens (close_levels l) = tokens l @ ds \<and> length ds = length (indent_stack l) - 1
      \<and> list_all (\<lambda>t. kind t = Dedent) ds \<and> nest 0 (tokens (close_levels l)) = Some 0
      \<and> spans_ok (source l) (tokens (close_levels l)) (current_pos l)
      \<and> list_all (\<lambda>t. kind t \<noteq> Eof) (tokens (close_levels l))
      \<and> current_pos (close_levels l) = current_pos l \<and> errors (close_levels l) = errors l"
  using assms
proof (induction l rule: close_levels.induct)
  case (1 l)
  show ?case
  proof (cases "length (indent_stack l) > 1")
    case False
    then show ?thesis using "1.prems" by (subst (1 2 3 4 5 6) close_levels.simps) auto
  next
    case True
    let ?t = "token_new Dedent (span_new (current_pos l) (current_pos l))"
    let ?l = "push_token Dedent (current_pos l) (current_pos l) (l\<lparr>indent_stack := butlast (indent_stack l)\<rparr>)"
    have f: "tokens ?l = tokens l @ [?t]" "source ?l = source l" "current_pos ?l = current_pos l"
      "indent_stack ?l = butlast (indent_stack l)" "errors ?l = errors l" by (simp_all add: push_token_def)
    have c: "close_levels l = close_levels ?l" using True by (subst close_levels.simps) simp
    have "spans_ok (source l) (tokens l @ [?t]) (current_pos l)"
      using spans_ok_snoc [OF "1.prems"(1)] "1.prems"(2) by simp
    moreover have "nest 0 (tokens l @ [?t]) = Some (length (butlast (indent_stack l)) - 1)"
      using "1.prems"(3) True by (simp add: nest_append)
    ultimately obtain ds where ds: "tokens (close_levels ?l) = tokens ?l @ ds"
      "length ds = length (indent_stack ?l) - 1" "list_all (\<lambda>t. kind t = Dedent) ds"
      "nest 0 (tokens (close_levels ?l)) = Some 0"
      "spans_ok (source l) (tokens (close_levels ?l)) (current_pos l)"
      "list_all (\<lambda>t. kind t \<noteq> Eof) (tokens (close_levels ?l))"
      "current_pos (close_levels ?l) = current_pos l" "errors (close_levels ?l) = errors l"
      using "1.IH" [OF True] "1.prems"(2,4) unfolding f by auto
    show ?thesis unfolding c
      using ds True by (intro exI [of _ "?t # ds"]) (simp add: f)
  qed
qed

text \<open>The whole stream: scanned tokens, the closing dedents, the end marker.\<close>

lemma tokenize_tolerant_stream:
  fixes pf src
  defines "l \<equiv> scan_all pf (lexer_new src)"
  shows "\<exists>ds. fst (tokenize_tolerant pf (lexer_new src))
        = tokens l @ ds @ [token_new Eof (span_new (str_bytes_len src) (str_bytes_len src))]
      \<and> list_all (\<lambda>t. kind t = Dedent) ds \<and> length ds = length (indent_stack l) - 1
      \<and> lexer_inv l \<and> pending_dedents l = 0 \<and> source l = src \<and> current_pos l = str_bytes_len src
      \<and> nest 0 (tokens l @ ds) = Some 0 \<and> spans_ok src (tokens l @ ds) (str_bytes_len src)
      \<and> list_all (\<lambda>t. kind t \<noteq> Eof) (tokens l @ ds)"
proof -
  have inv: "lexer_inv l" and e: "is_at_end l" using inv_scan_all [OF lexer_inv_new] by (simp_all add: l_def)
  have src: "source l = src" by (simp add: l_def source_scan_all) (simp add: lexer_new_def)
  have p: "pending_dedents l = 0" using inv e by (auto simp: lexer_inv_def is_at_end_def)
  have pos: "current_pos l = str_bytes_len src"
    using inv e src by (auto simp: lexer_inv_def position_ok_def is_at_end_def)
  have "boundary (source l) (current_pos l)" using inv position_boundary by (simp add: lexer_inv_def)
  moreover have "nest 0 (tokens l) = Some (length (indent_stack l) - 1)" using inv p by (simp add: lexer_inv_def)
  ultimately obtain ds where ds: "tokens (close_levels l) = tokens l @ ds" "length ds = length (indent_stack l) - 1"
      "list_all (\<lambda>t. kind t = Dedent) ds" "nest 0 (tokens (close_levels l)) = Some 0"
      "spans_ok (source l) (tokens (close_levels l)) (current_pos l)"
      "list_all (\<lambda>t. kind t \<noteq> Eof) (tokens (close_levels l))"
      "current_pos (close_levels l) = current_pos l"
    using close_levels_spec [of l] inv unfolding lexer_inv_def by blast
  then show ?thesis using inv p src pos
    by (intro exI [of _ ds]) (simp add: tokenize_tolerant_def push_token_def flip: l_def)
qed

section \<open>Properties\<close>

definition count_kind :: "TokenKind \<Rightarrow> Token list \<Rightarrow> nat" where
  "count_kind k ts = length (filter (\<lambda>t. kind t = k) ts)"

lemma nest_counts: "nest d ts = Some e \<Longrightarrow> d + count_kind Indent ts = e + count_kind Dedent ts"
  by (induction d ts rule: nest.induct) (auto simp: count_kind_def split: if_splits)

lemma nest_prefix: "nest d (xs @ ys) = Some e \<Longrightarrow> \<exists>f. nest d xs = Some f"
  by (simp add: nest_append bind_eq_Some_conv) blast

text \<open>
  C1: Lexing ends on every input and blocks always nest: in the token stream, with or without
  lexical errors, no prefix closes more blocks than it opens, at the end every opened block is
  closed, and the stream ends with its only end marker, placed at the end of the source.
\<close>
theorem lexer_blocks_balance:
  "\<exists>ts. fst (lex_tolerant pf src) = ts @ [token_new Eof (span_new (str_bytes_len src) (str_bytes_len src))]
     \<and> list_all (\<lambda>t. kind t \<noteq> Eof) ts
     \<and> count_kind Indent ts = count_kind Dedent ts
     \<and> list_all (\<lambda>n. count_kind Dedent (take n ts) \<le> count_kind Indent (take n ts)) [0..<Suc (length ts)]"
proof -
  obtain ts where ts: "fst (lex_tolerant pf src) = ts @ [token_new Eof (span_new (str_bytes_len src) (str_bytes_len src))]"
    and n: "nest 0 ts = Some 0" and e: "list_all (\<lambda>t. kind t \<noteq> Eof) ts"
    using tokenize_tolerant_stream [of pf src] unfolding lex_tolerant_def by (metis append.assoc)
  have "count_kind Dedent (take k ts) \<le> count_kind Indent (take k ts)" for k
  proof -
    obtain f where "nest 0 (take k ts) = Some f"
      using nest_prefix [of 0 "take k ts" "drop k ts"] n by auto
    from nest_counts [OF this] show ?thesis by linarith
  qed
  then show ?thesis using ts e nest_counts [OF n] by (intro exI [of _ ts]) (simp add: list_all_iff)
qed

text \<open>
  C21: Source positions are usable by every later phase: the spans of the stream lie in the source,
  start and end on character boundaries, never overlap and never go backwards.
\<close>
theorem lexer_spans_ordered:
  "spans_ok src (fst (lex_tolerant pf src)) (str_bytes_len src)"
proof -
  obtain ts where ts: "fst (lex_tolerant pf src) = ts @ [token_new Eof (span_new (str_bytes_len src) (str_bytes_len src))]"
    and s: "spans_ok src ts (str_bytes_len src)"
    using tokenize_tolerant_stream [of pf src] unfolding lex_tolerant_def by (metis append.assoc)
  have "boundary src (str_bytes_len src)" unfolding boundary_def by (rule exI [of _ src]) simp
  from spans_ok_snoc [OF s order_refl order_refl this this] show ?thesis by (simp add: ts)
qed

text \<open>
  C22: Implicit line continuation: newline, indent and dedent tokens are only produced at bracket
  depth zero, apart from the dedents that close the blocks still open at the end of the file.
\<close>
theorem lexer_layout_outside_brackets:
  "\<exists>ts ds. fst (lex_tolerant pf src) = ts @ ds @ [token_new Eof (span_new (str_bytes_len src) (str_bytes_len src))]
     \<and> list_all (\<lambda>t. kind t = Dedent) ds \<and> layout_ok 0 ts"
proof -
  obtain ds where "fst (lex_tolerant pf src)
      = tokens (scan_all pf (lexer_new src)) @ ds @ [token_new Eof (span_new (str_bytes_len src) (str_bytes_len src))]"
    and "list_all (\<lambda>t. kind t = Dedent) ds" and "lexer_inv (scan_all pf (lexer_new src))"
    using tokenize_tolerant_stream [of pf src] unfolding lex_tolerant_def by blast
  then show ?thesis unfolding lexer_inv_def by blast
qed

text \<open>
  C20: One step of the main loop keeps the lexer's invariant and makes progress, so the loop stops
  with the input consumed and no dedent pending: the indent stack stays strictly increasing from
  zero, its depth matches the blocks open in the tokens so far, and brackets match their counter.
\<close>
theorem lexer_step_invariant:
  assumes "lexer_inv l" and "\<not> is_at_end l"
  shows "lexer_inv (scan_token pf l) \<and> (scan_token pf l, l) \<in> lex_order
    \<and> is_at_end (scan_all pf l) \<and> pending_dedents (scan_all pf l) = 0"
  using inv_scan_token [OF assms, of pf] scan_token_progress [OF assms(2), of pf] inv_scan_all [OF assms(1), of pf]
  by (auto simp: lexer_inv_def is_at_end_def)

theorem lexer_step_invariant_witness:
  "lexer_inv (scan_token (\<lambda>_. None) (lexer_new (lit ''if x:'')))"
  using lexer_step_invariant [OF lexer_inv_new [of "lit ''if x:''"], of "\<lambda>_. None"]
  by (simp add: lexer_new_def is_at_end_def)

end
