(* ===== verification/Lexer_Roundtrip.thy ===== *)
theory Lexer_Roundtrip
  imports Lexer_Layout
begin

text \<open>
  Printing and lexing.  \<open>lexeme\<close> spells a token through the vocabulary registries (operators,
  punctuation, keywords), as its name or in decimal; \<open>spell\<close> concatenates spellings with a number of
  blanks before each.  Lexing such a line gives back the printed tokens when no spelling runs into the
  next one (\<open>separates\<close>), so the scanner's hand-written symbol arms agree with the registries that the
  rest of the compiler spells tokens with.  \<open>print_tokens\<close> is the case of single blanks.
\<close>

section \<open>Spelling tokens\<close>

fun lexeme :: "TokenKind \<Rightarrow> rstr" where
  "lexeme (Keyword k) = keyword_as_str k"
| "lexeme (Operator i) = hd (op_spellings (operator_info_for i))"
| "lexeme (Punctuation p) = punctuation_as_str p"
| "lexeme (Ident s) = s"
| "lexeme (IntTok i) = int_repr i"
| "lexeme _ = []"

definition int_token :: "nat \<Rightarrow> TokenKind" where
  "int_token m = IntTok \<lparr>int_value = int_literal_value m, int_magnitude = m, int_repr = show_nat m, int_suffix = None\<rparr>"

text \<open>
  The tokens that have a spelling of their own: word operators are keywords, and \<open>@\<close> and \<open>|\<close> are
  punctuation to the lexer.
\<close>

fun printable :: "TokenKind \<Rightarrow> bool" where
  "printable (Keyword k) = is_hard k"
| "printable (Operator i) = (\<not> op_is_keyword_spelling (operator_info_for i) \<and> i \<noteq> OpMatMul \<and> i \<noteq> OpPipe)"
| "printable (Punctuation p) = True"
| "printable (Ident s) = (s \<noteq> [] \<and> is_ident_start (hd s) \<and> list_all is_ident_continue s \<and> from_str_hard_only s = None)"
| "printable (IntTok i) = (IntTok i = int_token (int_magnitude i) \<and> int_magnitude i < 2 ^ 128)"
| "printable _ = False"

definition is_open :: "TokenKind \<Rightarrow> bool" where
  "is_open k \<longleftrightarrow> k \<in> {Punctuation PunctLParen, Punctuation PunctLBracket, Punctuation PunctLBrace}"

definition is_close :: "TokenKind \<Rightarrow> bool" where
  "is_close k \<longleftrightarrow> k \<in> {Punctuation PunctRParen, Punctuation PunctRBracket, Punctuation PunctRBrace}"

text \<open>No bracket is closed that was not opened.\<close>

fun closes_opened :: "nat \<Rightarrow> TokenKind list \<Rightarrow> bool" where
  "closes_opened d [] = True"
| "closes_opened d (k # ks) = ((is_close k \<longrightarrow> d > 0) \<and> closes_opened (bracket_step k d) ks)"

fun print_tokens :: "TokenKind list \<Rightarrow> rstr" where
  "print_tokens [] = []"
| "print_tokens [k] = lexeme k"
| "print_tokens (k # ks) = lexeme k @ 32 # print_tokens ks"

text \<open>Tokens with the number of blanks before each, and the text that follows without running into it.\<close>

type_synonym placed = "nat \<times> TokenKind"

definition spell :: "placed list \<Rightarrow> rstr" where
  "spell ks = concat (map (\<lambda>(b, k). replicate b 32 @ lexeme k) ks)"

fun separates :: "TokenKind \<Rightarrow> rstr \<Rightarrow> bool" where
  "separates k [] = True"
| "separates k (c # r) =
     (case k of
        Punctuation i \<Rightarrow> i \<in> {PunctComma, PunctLParen, PunctRParen, PunctLBracket, PunctRBracket, PunctColonColon, PunctArrow}
          \<or> c \<notin> {42, 46, 47, 58, 60, 61, 62, 124}
      | Operator i \<Rightarrow> c \<notin> {42, 46, 47, 58, 60, 61, 62, 124}
      | IntTok i \<Rightarrow> \<not> is_ident_continue c \<and> c \<noteq> 46
      | _ \<Rightarrow> \<not> is_ident_continue c \<and> c \<noteq> 34 \<and> c \<noteq> 39)"

fun well_spaced :: "placed list \<Rightarrow> bool" where
  "well_spaced [] = True"
| "well_spaced ((b, k) # ks) = (separates k (spell ks) \<and> well_spaced ks)"

section \<open>Reading a text\<close>

definition take_text :: "rstr \<Rightarrow> Lexer \<Rightarrow> Lexer" where
  "take_text w l = l\<lparr>rest := drop (length w) (rest l), current_pos := current_pos l + str_bytes_len w\<rparr>"

lemma advance_while_text:
  "rest l = w @ r \<Longrightarrow> list_all p w \<Longrightarrow> r = [] \<or> \<not> p (hd r) \<Longrightarrow> advance_while p l = take_text w l"
proof (induction w arbitrary: l)
  case Nil
  then show ?case by (subst advance_while.simps) (auto simp: peek_def take_text_def split: list.splits)
next
  case (Cons c w)
  then have "advance_while p (advance l) = take_text w (advance l)" by (simp add: advance_def)
  then show ?case using Cons.prems
    by (subst advance_while.simps) (simp add: peek_def take_text_def advance_def)
qed

lemma drop_bytes_prefix [simp]: "drop_bytes (str_bytes_len c) (c @ s) = s"
proof (induction c)
  case Nil then show ?case by (cases s) simp_all
next
  case (Cons x c) then show ?case using len_utf8_pos [of x] by simp
qed

lemma take_bytes_prefix [simp]: "take_bytes (str_bytes_len w) (w @ s) = w"
proof (induction w)
  case Nil then show ?case by (cases s) simp_all
next
  case (Cons x c) then show ?case using len_utf8_pos [of x] by simp
qed

lemma rest_of_source: "position_ok l \<Longrightarrow> drop_bytes (current_pos l) (source l) = rest l"
  by (auto simp: position_ok_def)

lemma text_of_source:
  "position_ok l \<Longrightarrow> rest l = w @ r \<Longrightarrow> slice_bytes (source l) (current_pos l) (current_pos l + str_bytes_len w) = w"
  by (auto simp: position_ok_def slice_bytes_def)

lemma position_ok_take_text: "position_ok l \<Longrightarrow> rest l = w @ r \<Longrightarrow> position_ok (take_text w l)"
  by (auto simp: position_ok_def take_text_def intro: exI [of _ "_ @ w"])

lemma take_text_append: "take_text w (take_text v l) = take_text (v @ w) l"
  by (simp add: take_text_def add.commute add.left_commute)

lemma advance_take_text: "rest l = c # r \<Longrightarrow> advance l = take_text [c] l"
  by (simp add: advance_def take_text_def)

definition emit :: "TokenKind \<Rightarrow> Lexer \<Rightarrow> Lexer" where
  "emit k l = (take_text (lexeme k) l)
     \<lparr>tokens := tokens l @ [token_new k (span_new (current_pos l) (current_pos l + str_bytes_len (lexeme k)))],
      bracket_depth := bracket_step k (bracket_depth l)\<rparr>"

lemma emitted:
  "\<not> is_open k \<Longrightarrow> \<not> is_close k \<Longrightarrow> add_token k (current_pos l) (take_text (lexeme k) l) = emit k l"
  by (simp add: emit_def add_token_def push_token_def take_text_def bracket_step_def is_open_def is_close_def)

section \<open>Identifiers and keywords\<close>

lemma scan_name:
  assumes "position_ok l" and "rest l = c # cs @ r" and "list_all is_ident_continue cs"
    and "r = [] \<or> \<not> is_ident_continue (hd r)"
  shows "scan_identifier (current_pos l) (advance l) =
     (case from_str_hard_only (c # cs) of Some i \<Rightarrow> add_token (Keyword i) (current_pos l) (take_text (c # cs) l)
      | None \<Rightarrow> add_token (Ident (c # cs)) (current_pos l) (take_text (c # cs) l))"
proof -
  have adv: "advance l = take_text [c] l" using assms(2) by (simp add: advance_take_text)
  have "rest (take_text [c] l) = cs @ r" using assms(2) by (simp add: take_text_def)
  then have run: "advance_while is_ident_continue (advance l) = take_text (c # cs) l"
    using advance_while_text [of "take_text [c] l" cs r] assms(3,4) by (simp add: adv take_text_append)
  have "source (take_text (c # cs) l) = source l" "current_pos (take_text (c # cs) l) = current_pos l + str_bytes_len (c # cs)"
    by (simp_all add: take_text_def)
  then show ?thesis
    using text_of_source [OF assms(1), of "c # cs" r] assms(2) by (simp add: scan_identifier_def run keyword_id_def Let_def split: option.split)
qed

definition symbol_chars :: "scalar set" where
  "symbol_chars = {35, 10, 13, 43, 45, 42, 47, 37, 63, 64, 38, 124, 94, 126, 44, 40, 41, 91, 93, 123, 125, 58, 61, 33, 60, 62, 46}"

lemma scan_symbol_None: "c \<notin> symbol_chars \<Longrightarrow> scan_symbol s c = None"
  by (simp add: scan_symbol_def symbol_chars_def)

lemma word_chars:
  "is_ident_start c \<Longrightarrow> c \<notin> symbol_chars \<and> c \<noteq> 34 \<and> c \<noteq> 39 \<and> \<not> (48 \<le> c \<and> c \<le> 57)"
  "is_ascii_digit c \<Longrightarrow> c \<notin> symbol_chars \<and> c \<noteq> 34 \<and> c \<noteq> 39 \<and> c \<noteq> 102 \<and> c \<noteq> 98 \<and> 48 \<le> c \<and> c \<le> 57"
  by (auto simp: is_ident_start_def is_ascii_alphabetic_def is_ascii_digit_def symbol_chars_def)

lemma ident_start_scan: "is_ident_start c \<Longrightarrow> \<not> is_quote (peek l) \<Longrightarrow> scan_lexeme pf s c l = scan_identifier s l"
  using word_chars(1) [of c] by (auto simp: scan_lexeme_def scan_symbol_None scan_literal_def)

lemma scan_word:
  assumes "position_ok l" and "rest l = lexeme k @ r" and "r = [] \<or> \<not> is_ident_continue (hd r) \<and> hd r \<noteq> 34 \<and> hd r \<noteq> 39"
    and "lexeme k = c # cs" and "is_ident_start c" and "list_all is_ident_continue cs"
    and "k = (case from_str_hard_only (c # cs) of Some i \<Rightarrow> Keyword i | None \<Rightarrow> Ident (c # cs))"
  shows "scan_lexeme pf (current_pos l) c (advance l) = emit k l"
proof -
  have "\<not> is_quote (peek (advance l))"
    using assms(2,3,4,6) by (cases cs; cases r) (auto simp: advance_def peek_def is_quote_def
        is_ident_continue_def is_ascii_alphanumeric_def is_ascii_alphabetic_def is_ascii_digit_def)
  moreover have "bracket_step k d = d" for d
    using assms(7) by (auto simp: bracket_step_def is_open_def is_close_def split: option.splits)
  ultimately show ?thesis
    using scan_name [OF assms(1) _ assms(6), of c r] assms(2,3,4,5,7)
    by (auto simp: ident_start_scan emit_def add_token_def push_token_def take_text_def split: option.splits)
qed

lemma keyword_words:
  "list_all (\<lambda>k. case kw_canonical k of [] \<Rightarrow> False | c # cs \<Rightarrow> is_ident_start c \<and> list_all is_ident_continue cs) KEYWORDS"
  by (simp add: keyword_table is_ident_start_def is_ident_continue_def is_ascii_alphabetic_def is_ascii_alphanumeric_def is_ascii_digit_def)

lemma keyword_spelling_word:
  obtains c cs where "keyword_as_str k = c # cs" "is_ident_start c" "list_all is_ident_continue cs"
proof -
  have "case keyword_as_str k of [] \<Rightarrow> False | c # cs \<Rightarrow> is_ident_start c \<and> list_all is_ident_continue cs"
    using keyword_words keyword_info_in [of k] by (auto simp: list_all_iff keyword_as_str_def)
  then show ?thesis using that by (cases "keyword_as_str k") auto
qed

lemma hard_keyword_lookup: "is_hard k \<Longrightarrow> from_str_hard_only (keyword_as_str k) = Some k"
  using kw_reg.lookup_iff [of "keyword_as_str k" k] by (simp add: from_str_hard_only_def)

section \<open>Integer literals\<close>

lemma no_numeric_suffix: "r = [] \<or> \<not> is_ident_continue (hd r) \<Longrightarrow> find_numeric_suffix r = None"
  by (cases r) (auto simp: is_ident_continue_def is_ascii_alphanumeric_def is_ascii_alphabetic_def find_numeric_suffix_def
      find_None_iff strip_prefix_Some_iff registry_defs split: option.splits)

lemma scan_integer:
  assumes "position_ok l" and "rest l = show_nat m @ r" and "m < 2 ^ 128"
    and "r = [] \<or> \<not> is_ident_continue (hd r) \<and> hd r \<noteq> 46"
  shows "scan_lexeme pf (current_pos l) (hd (show_nat m)) (advance l) = emit (int_token m) l"
proof -
  obtain c cs where w: "show_nat m = c # cs" by (cases "show_nat m") auto
  have dig: "is_ascii_digit c" "list_all is_ascii_digit cs" using show_nat_digits [of m] w by simp_all
  have adv: "advance l = take_text [c] l" using assms(2) w by (simp add: advance_take_text)
  let ?l = "take_text (show_nat m) l"
  have r: "rest ?l = r" using assms(2) by (simp add: take_text_def)
  have "list_all digit_or_sep cs" using dig(2) by (auto simp: list_all_iff digit_or_sep_def)
  moreover have "r = [] \<or> \<not> digit_or_sep (hd r)"
    using assms(4) by (auto simp: digit_or_sep_def is_ident_continue_def is_ascii_alphanumeric_def)
  moreover have "rest (take_text [c] l) = cs @ r" using assms(2) w by (simp add: take_text_def)
  ultimately have run: "advance_while digit_or_sep (advance l) = ?l"
    using advance_while_text [of "take_text [c] l" cs r digit_or_sep] by (simp add: adv take_text_append w)
  have peek: "peek ?l \<notin> {Some 46, Some 101, Some 69, Some 100}"
    using assms(4) r by (auto simp: peek_def is_ident_continue_def is_ascii_alphanumeric_def is_ascii_alphabetic_def split: list.splits)
  have pos: "position_ok ?l" using position_ok_take_text [OF assms(1,2)] .
  have suffix: "scan_numeric_suffix ?l = (None, ?l)"
    using rest_of_source [OF pos] r no_numeric_suffix [of r] assms(4) by (auto simp: scan_numeric_suffix_def)
  have repr: "number_repr (current_pos l) ?l = show_nat m"
    using text_of_source [OF assms(1,2)] by (simp add: number_repr_def take_text_def)
  have "95 \<notin> set (show_nat m)" using show_nat_digits [of m] by (auto simp: list_all_iff is_ascii_digit_def)
  then have norm: "normalize_numeric_string (show_nat m) = Some (show_nat m)" by (simp add: normalize_numeric_string_def)
  have parse: "parse_unsigned 128 (show_nat m) = Some m" using assms(3) by (simp add: parse_unsigned_show_nat in_unsigned_def)
  have "scan_number pf (current_pos l) (advance l) = add_token (int_token m) (current_pos l) ?l"
    using peek unfolding scan_number_def run scan_int_literal_def int_token_def
    by (simp add: scan_fraction_def scan_exponent_def suffix repr norm parse Let_def)
  also have "\<dots> = emit (int_token m) l"
    using emitted [of "int_token m" l] by (simp add: int_token_def is_open_def is_close_def)
  finally show ?thesis using word_chars(2) [OF dig(1)] by (auto simp: w scan_lexeme_def scan_symbol_None scan_literal_def)
qed

section \<open>Symbols\<close>

lemma operator_lexemes:
  "hd (op_spellings (operator_info_for OpPlus)) = [43]"
  "hd (op_spellings (operator_info_for OpMinus)) = [45]"
  "hd (op_spellings (operator_info_for OpStar)) = [42]"
  "hd (op_spellings (operator_info_for OpStarStar)) = [42, 42]"
  "hd (op_spellings (operator_info_for OpSlash)) = [47]"
  "hd (op_spellings (operator_info_for OpSlashSlash)) = [47, 47]"
  "hd (op_spellings (operator_info_for OpPercent)) = [37]"
  "hd (op_spellings (operator_info_for OpMatMul)) = [64]"
  "hd (op_spellings (operator_info_for OpPipeForward)) = [124, 62]"
  "hd (op_spellings (operator_info_for OpPipeBackward)) = [60, 124]"
  "hd (op_spellings (operator_info_for OpAmp)) = [38]"
  "hd (op_spellings (operator_info_for OpPipe)) = [124]"
  "hd (op_spellings (operator_info_for OpCaret)) = [94]"
  "hd (op_spellings (operator_info_for OpShl)) = [60, 60]"
  "hd (op_spellings (operator_info_for OpShr)) = [62, 62]"
  "hd (op_spellings (operator_info_for OpTilde)) = [126]"
  "hd (op_spellings (operator_info_for OpEqEq)) = [61, 61]"
  "hd (op_spellings (operator_info_for OpNotEq)) = [33, 61]"
  "hd (op_spellings (operator_info_for OpLt)) = [60]"
  "hd (op_spellings (operator_info_for OpLtEq)) = [60, 61]"
  "hd (op_spellings (operator_info_for OpGt)) = [62]"
  "hd (op_spellings (operator_info_for OpGtEq)) = [62, 61]"
  "hd (op_spellings (operator_info_for OpEq)) = [61]"
  "hd (op_spellings (operator_info_for OpPlusEq)) = [43, 61]"
  "hd (op_spellings (operator_info_for OpMinusEq)) = [45, 61]"
  "hd (op_spellings (operator_info_for OpStarEq)) = [42, 61]"
  "hd (op_spellings (operator_info_for OpSlashEq)) = [47, 61]"
  "hd (op_spellings (operator_info_for OpSlashSlashEq)) = [47, 47, 61]"
  "hd (op_spellings (operator_info_for OpPercentEq)) = [37, 61]"
  "hd (op_spellings (operator_info_for OpMatMulEq)) = [64, 61]"
  "hd (op_spellings (operator_info_for OpAmpEq)) = [38, 61]"
  "hd (op_spellings (operator_info_for OpPipeEq)) = [124, 61]"
  "hd (op_spellings (operator_info_for OpCaretEq)) = [94, 61]"
  "hd (op_spellings (operator_info_for OpShlEq)) = [60, 60, 61]"
  "hd (op_spellings (operator_info_for OpShrEq)) = [62, 62, 61]"
  "hd (op_spellings (operator_info_for OpDotDot)) = [46, 46]"
  "hd (op_spellings (operator_info_for OpDotDotEq)) = [46, 46, 61]"
  by code_simp+

lemma word_operators:
  "op_is_keyword_spelling (operator_info_for OpAnd)"
  "op_is_keyword_spelling (operator_info_for OpOr)"
  "op_is_keyword_spelling (operator_info_for OpNot)"
  "op_is_keyword_spelling (operator_info_for OpIn)"
  "op_is_keyword_spelling (operator_info_for OpIs)"
  by code_simp+

lemma punctuation_lexemes:
  "punctuation_as_str PunctComma = [44]"
  "punctuation_as_str PunctColon = [58]"
  "punctuation_as_str PunctQuestion = [63]"
  "punctuation_as_str PunctAt = [64]"
  "punctuation_as_str PunctPipe = [124]"
  "punctuation_as_str PunctDot = [46]"
  "punctuation_as_str PunctColonColon = [58, 58]"
  "punctuation_as_str PunctArrow = [45, 62]"
  "punctuation_as_str PunctFatArrow = [61, 62]"
  "punctuation_as_str PunctEllipsis = [46, 46, 46]"
  "punctuation_as_str PunctLParen = [40]"
  "punctuation_as_str PunctRParen = [41]"
  "punctuation_as_str PunctLBracket = [91]"
  "punctuation_as_str PunctRBracket = [93]"
  "punctuation_as_str PunctLBrace = [123]"
  "punctuation_as_str PunctRBrace = [125]"
  by code_simp+

lemma symbol_dispatch:
  "scan_symbol s 43 = Some (operator s OpPlus [(61, OpPlusEq)])"
  "scan_symbol s 45 = Some (if_match 62 (add_punct PunctArrow s) (if_match 61 (add_op OpMinusEq s) (add_op OpMinus s)))"
  "scan_symbol s 42 = Some (operator s OpStar [(42, OpStarStar), (61, OpStarEq)])"
  "scan_symbol s 47 = Some (scan_slash s)"
  "scan_symbol s 37 = Some (operator s OpPercent [(61, OpPercentEq)])"
  "scan_symbol s 63 = Some (add_punct PunctQuestion s)"
  "scan_symbol s 64 = Some (if_match 61 (add_op OpMatMulEq s) (add_punct PunctAt s))"
  "scan_symbol s 38 = Some (operator s OpAmp [(61, OpAmpEq)])"
  "scan_symbol s 124 = Some (scan_pipe s)"
  "scan_symbol s 94 = Some (operator s OpCaret [(61, OpCaretEq)])"
  "scan_symbol s 126 = Some (add_op OpTilde s)"
  "scan_symbol s 44 = Some (add_punct PunctComma s)"
  "scan_symbol s 40 = Some (open_bracket PunctLParen s)"
  "scan_symbol s 41 = Some (close_bracket PunctRParen s)"
  "scan_symbol s 91 = Some (open_bracket PunctLBracket s)"
  "scan_symbol s 93 = Some (close_bracket PunctRBracket s)"
  "scan_symbol s 123 = Some (open_bracket PunctLBrace s)"
  "scan_symbol s 125 = Some (close_bracket PunctRBrace s)"
  "scan_symbol s 58 = Some (if_match 58 (add_punct PunctColonColon s) (add_punct PunctColon s))"
  "scan_symbol s 61 = Some (if_match 61 (add_op OpEqEq s) (if_match 62 (add_punct PunctFatArrow s) (add_op OpEq s)))"
  "scan_symbol s 33 = Some (scan_bang s)"
  "scan_symbol s 60 = Some (scan_less s)"
  "scan_symbol s 62 = Some (scan_greater s)"
  "scan_symbol s 46 = Some (scan_dot s)"
  by (simp_all add: scan_symbol_def)

text \<open>What the scanner sees behind a prefix \<open>w\<close> of the text it still has.\<close>

lemma if_match_text:
  "if_match c yes no (take_text v l) =
     (if drop (length v) (rest l) \<noteq> [] \<and> hd (drop (length v) (rest l)) = c
      then yes (take_text (v @ [c]) l) else no (take_text v l))"
  by (cases "drop (length v) (rest l)")
    (auto simp: if_match_def match_char_def peek_def take_text_def advance_def add.assoc drop_Suc simp flip: drop_drop tl_drop)

lemma emitted_bracket:
  "is_open (Punctuation p) \<Longrightarrow> open_bracket p (current_pos l) (take_text (punctuation_as_str p) l) = emit (Punctuation p) l"
  "is_close (Punctuation p) \<Longrightarrow> bracket_depth l > 0 \<Longrightarrow>
     close_bracket p (current_pos l) (take_text (punctuation_as_str p) l) = emit (Punctuation p) l"
  by (auto simp: emit_def open_bracket_def close_bracket_def add_punct_def add_token_def push_token_def take_text_def
      bracket_step_def is_open_def is_close_def)

lemmas symbol_arms = scan_slash_def scan_pipe_def scan_less_def scan_greater_def scan_bang_def scan_dot_def add_op_def add_punct_def

lemma symbol_text:
  assumes "rest l = lexeme (Operator i) @ r" and "separates (Operator i) r" and "printable (Operator i)"
  shows "scan_lexeme pf p (hd (lexeme (Operator i))) (take_text [hd (lexeme (Operator i))] l)
     = add_token (Operator i) p (take_text (lexeme (Operator i)) l)"
proof -
  consider "r = []" | c q where "r = c # q" "c \<notin> {42, 46, 47, 58, 60, 61, 62, 124}" using assms(2) by (cases r) auto
  then show ?thesis using assms(1,3)
    by cases (cases i; simp add: operator_lexemes word_operators scan_lexeme_def symbol_dispatch symbol_arms if_match_text)+
qed

lemma punctuation_text:
  assumes "rest l = lexeme (Punctuation p) @ r" and "separates (Punctuation p) r"
  shows "scan_lexeme pf q (hd (lexeme (Punctuation p))) (take_text [hd (lexeme (Punctuation p))] l)
     = (if is_open (Punctuation p) then open_bracket p else if is_close (Punctuation p) then close_bracket p else add_punct p)
         q (take_text (lexeme (Punctuation p)) l)"
proof -
  consider "r = []" | c q where "r = c # q" using assms(2) by (cases r) auto
  then show ?thesis using assms
    by cases (cases p; simp add: punctuation_lexemes scan_lexeme_def symbol_dispatch symbol_arms if_match_text is_open_def is_close_def)+
qed

section \<open>One token\<close>

lemma lexeme_start: "printable k \<Longrightarrow> lexeme k \<noteq> [] \<and> hd (lexeme k) \<notin> {32, 9, 35, 10, 13}"
proof (cases k)
  case (Keyword i)
  obtain c cs where "keyword_as_str i = c # cs" "is_ident_start c" by (rule keyword_spelling_word)
  then show ?thesis using Keyword by (auto simp: is_ident_start_def is_ascii_alphabetic_def)
next
  case (Operator i)
  moreover assume "printable k"
  ultimately show ?thesis by (cases i) (simp_all add: operator_lexemes word_operators)
next
  case (Punctuation p)
  then show ?thesis by (cases p) (simp_all add: punctuation_lexemes)
next
  case (IntTok i)
  moreover assume "printable k"
  then have "int_repr i = show_nat (int_magnitude i)" using IntTok by (simp add: int_token_def) (metis IntLiteral.select_convs(3))
  ultimately show ?thesis using show_nat_digits [of "int_magnitude i"]
    by (cases "show_nat (int_magnitude i)") (auto simp: is_ascii_digit_def)
qed (auto simp: is_ident_start_def is_ascii_alphabetic_def)

lemma scan_printable:
  assumes "position_ok l" and "rest l = lexeme k @ r" and "separates k r" and "printable k"
    and "is_close k \<Longrightarrow> bracket_depth l > 0"
  shows "scan_lexeme pf (current_pos l) (hd (lexeme k)) (advance l) = emit k l"
proof -
  have adv: "advance l = take_text [hd (lexeme k)] l"
    using assms(2) lexeme_start [OF assms(4)] by (cases "lexeme k") (simp_all add: advance_take_text)
  show ?thesis
  proof (cases k)
    case (Keyword i)
    obtain c cs where "keyword_as_str i = c # cs" "is_ident_start c" "list_all is_ident_continue cs"
      by (rule keyword_spelling_word)
    then show ?thesis
      using scan_word [OF assms(1,2), of c cs pf] hard_keyword_lookup [of i] assms(3,4) Keyword by (cases r) auto
  next
    case (Operator i)
    then show ?thesis
      using symbol_text [of l i r pf "current_pos l"] emitted [of k l] assms(2,3,4) adv by (simp add: is_open_def is_close_def)
  next
    case (Punctuation p)
    then show ?thesis
      using punctuation_text [of l p r pf "current_pos l"] emitted [of k l] emitted_bracket [of p l] assms(2,3,5) adv
      by (auto simp: add_punct_def)
  next
    case (Ident w)
    then show ?thesis
      using scan_word [OF assms(1,2), of "hd w" "tl w" pf] assms(3,4) by (cases w; cases r) auto
  next
    case (IntTok i)
    then have "k = int_token (int_magnitude i)" "lexeme k = show_nat (int_magnitude i)" "int_magnitude i < 2 ^ 128"
      using assms(4) by (simp_all add: int_token_def) (metis IntLiteral.select_convs(3))
    then show ?thesis
      using scan_integer [OF assms(1), of "int_magnitude i" r pf] assms(2,3) by (cases r) (simp_all add: int_token_def)
  qed (use assms(4) in simp_all)
qed

text \<open>A state in the middle of a line, with the text \<open>t\<close> still to come.\<close>

definition in_line :: "rstr \<Rightarrow> Lexer \<Rightarrow> bool" where
  "in_line t l \<longleftrightarrow> position_ok l \<and> rest l = t \<and> pending_dedents l = 0 \<and> \<not> at_line_start l"

lemma in_line_emit:
  "in_line (lexeme k @ r) l \<Longrightarrow> in_line r (emit k l)"
  using position_ok_take_text [of l "lexeme k" r] by (simp add: in_line_def emit_def) (simp add: position_ok_def take_text_def)

lemma scan_token_emit:
  assumes "in_line (b @ lexeme k @ r) l" and "list_all (\<lambda>c. c = 32) b" and "separates k r" and "printable k"
    and "is_close k \<Longrightarrow> bracket_depth l > 0"
  shows "scan_token pf l = emit k (take_text b l)" and "in_line r (emit k (take_text b l))"
proof -
  note start = lexeme_start [OF assms(4)]
  let ?l = "take_text b l"
  have line: "in_line (lexeme k @ r) ?l"
    using assms(1) position_ok_take_text [of l b "lexeme k @ r"] by (simp add: in_line_def) (simp add: take_text_def)
  then show "in_line r (emit k ?l)" by (rule in_line_emit)
  have "list_all (\<lambda>c. c = 32 \<or> c = 9) b" using assms(2) by (auto simp: list_all_iff)
  then have skip: "skip_blanks l = ?l"
    using advance_while_text [of l b "lexeme k @ r"] assms(1) start by (simp add: skip_blanks_def in_line_def hd_append)
  have "scan_lexeme pf (current_pos ?l) (hd (lexeme k)) (advance ?l) = emit k ?l"
    using line assms(3-5) by (intro scan_printable) (auto simp: in_line_def take_text_def)
  moreover have "peek ?l = Some (hd (lexeme k))"
    using line start by (cases "lexeme k") (simp_all add: in_line_def peek_def)
  ultimately show "scan_token pf l = emit k ?l"
    using assms(1) by (simp add: scan_token_def skip in_line_def)
qed

section \<open>Whole lines\<close>

lemma spell_Cons [simp]: "spell ((b, k) # ks) = replicate b 32 @ lexeme k @ spell ks"
  by (simp add: spell_def)

lemma spell_Nil [simp]: "spell [] = []"
  by (simp add: spell_def)

lemma scan_all_step: "in_line t l \<Longrightarrow> t \<noteq> [] \<Longrightarrow> scan_all pf l = scan_all pf (scan_token pf l)"
  by (subst scan_all.simps) (auto simp: is_at_end_def in_line_def)

lemma scan_all_spelled:
  "in_line (spell ks) l \<Longrightarrow> list_all (printable \<circ> snd) ks \<Longrightarrow> well_spaced ks \<Longrightarrow> closes_opened (bracket_depth l) (map snd ks) \<Longrightarrow>
   map kind (tokens (scan_all pf l)) = map kind (tokens l) @ map snd ks
   \<and> errors (scan_all pf l) = errors l \<and> indent_stack (scan_all pf l) = indent_stack l"
proof (induction ks arbitrary: l)
  case Nil
  then show ?case by (subst (1 2 3) scan_all.simps) (simp add: in_line_def is_at_end_def)
next
  case (Cons x ks)
  obtain b k where x: "x = (b, k)" by (cases x)
  let ?l = "emit k (take_text (replicate b 32) l)"
  have line: "in_line (replicate b 32 @ lexeme k @ spell ks) l" using Cons.prems(1) by (simp add: x)
  have step: "scan_token pf l = ?l" "in_line (spell ks) ?l"
    using scan_token_emit [OF line] Cons.prems(2-4) by (simp_all add: x list_all_iff)
  have "closes_opened (bracket_depth ?l) (map snd ks)" using Cons.prems(4) by (simp add: x emit_def take_text_def)
  moreover have "map kind (tokens ?l) = map kind (tokens l) @ [k]" "errors ?l = errors l" "indent_stack ?l = indent_stack l"
    by (simp_all add: emit_def take_text_def token_new_def)
  moreover have "scan_all pf l = scan_all pf ?l"
    using scan_all_step [OF line] lexeme_start [of k] Cons.prems(2) step(1) by (simp add: x)
  ultimately show ?case using Cons.IH [OF step(2)] Cons.prems(2,3) by (simp add: x)
qed

lemma start_of_line:
  assumes "src \<noteq> []" and "hd src \<notin> {32, 9, 35, 10, 13}"
  shows "scan_token pf (lexer_new src) = (lexer_new src)\<lparr>at_line_start := False\<rparr>"
proof -
  let ?l = "lexer_new src"
  have "measure_indent (current_pos ?l) 0 ?l = Measured 0 ?l"
    using assms by (subst measure_indent.simps) (cases src; simp add: peek_def lexer_new_def)
  then show ?thesis
    using assms(1)
    by (simp add: scan_token_def handle_indentation_def is_at_end_def apply_indent_def stack_top_def)
      (simp add: lexer_new_def)
qed

lemma scan_all_line:
  assumes "list_all (printable \<circ> snd) ks" and "well_spaced ks" and "closes_opened 0 (map snd ks)"
    and "ks = [] \<or> fst (hd ks) = 0"
  shows "map kind (tokens (scan_all pf (lexer_new (spell ks)))) = map snd ks
    \<and> errors (scan_all pf (lexer_new (spell ks))) = [] \<and> indent_stack (scan_all pf (lexer_new (spell ks))) = [0]"
proof (cases "ks = []")
  case True
  then show ?thesis by (subst (1 2 3) scan_all.simps) (simp add: is_at_end_def lexer_new_def)
next
  case False
  let ?l0 = "lexer_new (spell ks)"
  let ?l1 = "(lexer_new (spell ks))\<lparr>at_line_start := False\<rparr>"
  obtain k js where ks: "ks = (0, k) # js" using False assms(4) by (cases ks) auto
  have nonblank: "spell ks \<noteq> []" "hd (spell ks) \<notin> {32, 9, 35, 10, 13}"
    using lexeme_start [of k] assms(1) by (simp_all add: ks)
  have run: "scan_all pf ?l0 = scan_all pf ?l1"
    using start_of_line [OF nonblank, of pf] nonblank(1) by (subst scan_all.simps) (simp add: is_at_end_def lexer_new_def)
  have "in_line (spell ks) ?l1" by (simp add: in_line_def lexer_new_def position_ok_def)
  then show ?thesis
    unfolding run using scan_all_spelled [of ks ?l1 pf] assms(1-3) by (simp add: lexer_new_def)
qed

lemma lex_spelled:
  assumes "list_all (printable \<circ> snd) ks" and "well_spaced ks" and "closes_opened 0 (map snd ks)"
    and "ks = [] \<or> fst (hd ks) = 0"
  shows "\<exists>ts. lex pf (spell ks) = Inr ts \<and> map kind ts = map snd ks @ [Eof]"
proof -
  let ?l = "scan_all pf (lexer_new (spell ks))"
  have "close_levels ?l = ?l" using scan_all_line [OF assms] by (subst close_levels.simps) simp
  then show ?thesis
    using scan_all_line [OF assms, of pf]
    by (simp add: lex_def tokenize_def tokenize_tolerant_def push_token_def token_new_def Let_def)
qed

fun single_blanks :: "TokenKind list \<Rightarrow> placed list" where
  "single_blanks [] = []"
| "single_blanks (k # ks) = (0, k) # map (Pair 1) ks"

lemma separates_blank [simp]: "separates k (32 # r)"
  by (cases k) (simp_all add: is_ident_continue_def is_ascii_alphanumeric_def is_ascii_alphabetic_def is_ascii_digit_def)

lemma blanks_between:
  "spell (single_blanks ks) = print_tokens ks" "well_spaced (single_blanks ks)" "map snd (single_blanks ks) = ks"
  "single_blanks ks = [] \<or> fst (hd (single_blanks ks)) = 0"
proof -
  have after: "lexeme k @ spell (map (Pair 1) ks) = print_tokens (k # ks)" for k ks
    by (induction ks arbitrary: k) simp_all
  have spaced: "well_spaced (map (Pair 1) ks)" for ks
  proof (induction ks)
    case (Cons k ks)
    then show ?case by (cases ks) (simp_all del: separates.simps(2))
  qed simp
  have "separates k (spell (map (Pair 1) ks))" for k ks by (cases ks) (simp_all del: separates.simps(2))
  then show "well_spaced (single_blanks ks)" using spaced by (cases ks) simp_all
  show "spell (single_blanks ks) = print_tokens ks" using after by (cases ks) simp_all
  show "map snd (single_blanks ks) = ks" by (cases ks) (simp_all add: comp_def)
  show "single_blanks ks = [] \<or> fst (hd (single_blanks ks)) = 0" by (cases ks) simp_all
qed

lemma lex_printed:
  assumes "list_all printable ks" and "closes_opened 0 ks"
  shows "\<exists>ts. lex pf (print_tokens ks) = Inr ts \<and> map kind ts = ks @ [Eof]"
proof -
  have "list_all (printable \<circ> snd) (single_blanks ks)"
    using assms(1) blanks_between(3) [of ks] by (metis list.pred_map)
  then have "\<exists>ts. lex pf (spell (single_blanks ks)) = Inr ts \<and> map kind ts = map snd (single_blanks ks) @ [Eof]"
    using assms(2) blanks_between [of ks] by (intro lex_spelled) simp_all
  then show ?thesis by (simp add: blanks_between)
qed



end
