(* ===== verification/Resolved_Types.thy ===== *)
theory Resolved_Types
  imports Vocabulary Numeric_Types
begin

text \<open>
  The checker's types and the registries that name them: the builtin collection types
  (\<open>incan_lang/src/lang/types/collections.rs\<close>), the prelude constructors
  (\<open>incan_lang/src/lang/surface/constructors.rs\<close>), \<open>ResolvedType\<close> with its predicates
  (\<open>incan_frontend/src/symbols.rs\<close>) and the substitution of type parameters
  (\<open>incan_frontend/src/resolved_type_subst.rs\<close>).  Documentation fields of the registries are left out.
\<close>

section \<open>Registries\<close>

datatype CollectionTypeId =
  ListType | DictType | SetType | TupleType | OptionType | ResultType | FrozenListType | FrozenDictType
  | FrozenSetType | GeneratorType

record 'i LangItemInfo =
  item_id :: 'i
  item_canonical :: rstr
  item_aliases :: "rstr list"
  item_introduced_in_rfc :: RfcId
  item_since :: Since
  item_stability :: Stability

definition item_info :: "'i \<Rightarrow> rstr \<Rightarrow> rstr list \<Rightarrow> RfcId \<Rightarrow> Since \<Rightarrow> 'i LangItemInfo" where
  "item_info i canonical aliases rfc since =
     \<lparr>item_id = i, item_canonical = canonical, item_aliases = aliases, item_introduced_in_rfc = rfc,
      item_since = since, item_stability = Stable\<rparr>"

definition COLLECTION_TYPES :: "CollectionTypeId LangItemInfo list" where
  "COLLECTION_TYPES =
    [item_info ListType (lit ''List'') [lit ''list'', lit ''Vec''] 0 (0, 1),
     item_info DictType (lit ''Dict'') [lit ''dict'', lit ''HashMap''] 0 (0, 1),
     item_info SetType (lit ''Set'') [lit ''set''] 0 (0, 1),
     item_info TupleType (lit ''Tuple'') [lit ''tuple''] 0 (0, 1),
     item_info OptionType (lit ''Option'') [lit ''option''] 0 (0, 1),
     item_info ResultType (lit ''Result'') [lit ''result''] 0 (0, 1),
     item_info FrozenListType (lit ''FrozenList'') [lit ''frozenlist''] 9 (0, 1),
     item_info FrozenDictType (lit ''FrozenDict'') [lit ''frozendict''] 9 (0, 1),
     item_info FrozenSetType (lit ''FrozenSet'') [lit ''frozenset''] 9 (0, 1),
     item_info GeneratorType (lit ''Generator'') [lit ''generator''] 6 (0, 3)]"

text \<open>The shared shape of \<open>from_str\<close>: canonical spellings first, then aliases.\<close>

definition item_from_str :: "'i LangItemInfo list \<Rightarrow> rstr \<Rightarrow> 'i option" where
  "item_from_str tab name =
     (case find (\<lambda>t. item_canonical t = name) tab of
        Some t \<Rightarrow> Some (item_id t)
      | None \<Rightarrow> map_option item_id (find (\<lambda>t. name \<in> set (item_aliases t)) tab))"

definition collection_from_str :: "rstr \<Rightarrow> CollectionTypeId option" where
  "collection_from_str = item_from_str COLLECTION_TYPES"

text \<open>\<open>rsplit("::").next()\<close> and \<open>rsplit_once("::")\<close>: the text behind the last separator.\<close>

fun rsplit_path :: "rstr \<Rightarrow> (rstr \<times> rstr) option" where
  "rsplit_path (a # b # s) =
     (case rsplit_path (b # s) of
        Some (q, v) \<Rightarrow> Some (a # q, v)
      | None \<Rightarrow> if a = 58 \<and> b = 58 then Some ([], s) else None)"
| "rsplit_path _ = None"

definition path_tail :: "rstr \<Rightarrow> rstr" where
  "path_tail s = (case rsplit_path s of Some (_, v) \<Rightarrow> v | None \<Rightarrow> s)"

definition collection_from_rust_display_base :: "rstr \<Rightarrow> CollectionTypeId option" where
  "collection_from_rust_display_base base =
     (let tail = path_tail base in
      if tail = lit ''HashMap'' then Some DictType
      else if tail = lit ''HashSet'' then Some SetType
      else collection_from_str tail)"

fun collection_index :: "CollectionTypeId \<Rightarrow> nat" where
  "collection_index ListType = 0" | "collection_index DictType = 1" | "collection_index SetType = 2"
| "collection_index TupleType = 3" | "collection_index OptionType = 4" | "collection_index ResultType = 5"
| "collection_index FrozenListType = 6" | "collection_index FrozenDictType = 7"
| "collection_index FrozenSetType = 8" | "collection_index GeneratorType = 9"

definition collection_info_for :: "CollectionTypeId \<Rightarrow> CollectionTypeId LangItemInfo" where
  "collection_info_for i = COLLECTION_TYPES ! collection_index i"

definition collection_as_str :: "CollectionTypeId \<Rightarrow> rstr" where
  "collection_as_str i = item_canonical (collection_info_for i)"

datatype ConstructorId = OkCtor | ErrCtor | SomeCtor | NoneCtor

definition CONSTRUCTORS :: "ConstructorId LangItemInfo list" where
  "CONSTRUCTORS =
    [item_info OkCtor (lit ''Ok'') [] 0 (0, 1),
     item_info ErrCtor (lit ''Err'') [] 0 (0, 1),
     item_info SomeCtor (lit ''Some'') [] 0 (0, 1),
     item_info NoneCtor (lit ''None'') [] 0 (0, 1)]"

definition constructor_from_str :: "rstr \<Rightarrow> ConstructorId option" where
  "constructor_from_str = item_from_str CONSTRUCTORS"

fun constructor_index :: "ConstructorId \<Rightarrow> nat" where
  "constructor_index OkCtor = 0" | "constructor_index ErrCtor = 1"
| "constructor_index SomeCtor = 2" | "constructor_index NoneCtor = 3"

definition constructor_info_for :: "ConstructorId \<Rightarrow> ConstructorId LangItemInfo" where
  "constructor_info_for i = CONSTRUCTORS ! constructor_index i"

definition constructor_as_str :: "ConstructorId \<Rightarrow> rstr" where
  "constructor_as_str i = item_canonical (constructor_info_for i)"

section \<open>Resolved types\<close>

datatype ParamKind = NormalParam | RestPositional | RestKeyword

datatype ResolvedType =
    TyNever | TyInt | TyFloat | TyNumeric NumericTypeId | TyBool | TyStr | TyBytes | TyFrozenStr | TyFrozenBytes
  | TyFrozenList ResolvedType | TyFrozenDict ResolvedType ResolvedType | TyFrozenSet ResolvedType | TyUnit
  | TyNamed rstr | TyGeneric rstr "ResolvedType list"
  | TyFunction "CallableParam list" ResolvedType | TyTypeToken ResolvedType | TyTuple "ResolvedType list"
  | TyVar rstr | TySelf | TyRef ResolvedType | TyRefMut ResolvedType | TyRustPath rstr | TyCallSiteInfer
  | TyUnknown
and CallableParam =
    CallableParam (param_name: "rstr option") (param_ty: ResolvedType) (param_kind: ParamKind)
      (param_has_default: bool) (param_is_partial_preset: bool) (param_is_mut: bool)

fun from_numeric_id :: "NumericTypeId \<Rightarrow> ResolvedType" where
  "from_numeric_id i = (if i = I64 then TyInt else if i = F64 then TyFloat else if i = BoolId then TyBool else TyNumeric i)"

definition is_result :: "ResolvedType \<Rightarrow> bool" where
  "is_result t = (case t of TyGeneric name _ \<Rightarrow> collection_from_str name = Some ResultType | _ \<Rightarrow> False)"

definition is_option :: "ResolvedType \<Rightarrow> bool" where
  "is_option t = (case t of TyGeneric name _ \<Rightarrow> collection_from_str name = Some OptionType | _ \<Rightarrow> False)"

definition result_ok_type :: "ResolvedType \<Rightarrow> ResolvedType option" where
  "result_ok_type t =
     (case t of
        TyGeneric name args \<Rightarrow>
          (if collection_from_str name = Some ResultType \<and> args \<noteq> [] then Some (args ! 0) else None)
      | _ \<Rightarrow> None)"

definition result_err_type :: "ResolvedType \<Rightarrow> ResolvedType option" where
  "result_err_type t =
     (case t of
        TyGeneric name args \<Rightarrow>
          (if collection_from_str name = Some ResultType \<and> length args \<ge> 2 then Some (args ! 1) else None)
      | _ \<Rightarrow> None)"

definition option_inner_type :: "ResolvedType \<Rightarrow> ResolvedType option" where
  "option_inner_type t =
     (case t of
        TyGeneric name args \<Rightarrow>
          (if collection_from_str name = Some OptionType \<and> args \<noteq> [] then Some (args ! 0) else None)
      | _ \<Rightarrow> None)"

section \<open>Substitution\<close>

text \<open>Collecting pairs into a hash map keeps the last value of a repeated key.\<close>

definition type_param_subst_map :: "rstr list \<Rightarrow> ResolvedType list \<Rightarrow> rstr \<Rightarrow> ResolvedType option" where
  "type_param_subst_map params args = map_of (rev (zip params args))"

definition type_param_subst_map_call_site :: "rstr list \<Rightarrow> ResolvedType list \<Rightarrow> rstr \<Rightarrow> ResolvedType option" where
  "type_param_subst_map_call_site params args =
     map_of (rev (filter (\<lambda>(_, a). a \<noteq> TyCallSiteInfer) (zip params args)))"

fun substitute_resolved_type :: "(rstr \<Rightarrow> ResolvedType option) \<Rightarrow> ResolvedType \<Rightarrow> ResolvedType"
and substitute_param :: "(rstr \<Rightarrow> ResolvedType option) \<Rightarrow> CallableParam \<Rightarrow> CallableParam" where
  "substitute_resolved_type m (TyVar name) = (case m name of Some t \<Rightarrow> t | None \<Rightarrow> TyVar name)"
| "substitute_resolved_type m (TyGeneric name args) = TyGeneric name (map (substitute_resolved_type m) args)"
| "substitute_resolved_type m (TyFunction params ret) =
     TyFunction (map (substitute_param m) params) (substitute_resolved_type m ret)"
| "substitute_resolved_type m (TyTypeToken inner) = TyTypeToken (substitute_resolved_type m inner)"
| "substitute_resolved_type m (TyTuple elems) = TyTuple (map (substitute_resolved_type m) elems)"
| "substitute_resolved_type m (TyFrozenList inner) = TyFrozenList (substitute_resolved_type m inner)"
| "substitute_resolved_type m (TyFrozenDict k v) =
     TyFrozenDict (substitute_resolved_type m k) (substitute_resolved_type m v)"
| "substitute_resolved_type m (TyFrozenSet inner) = TyFrozenSet (substitute_resolved_type m inner)"
| "substitute_resolved_type m (TyRef inner) = TyRef (substitute_resolved_type m inner)"
| "substitute_resolved_type m (TyRefMut inner) = TyRefMut (substitute_resolved_type m inner)"
| "substitute_resolved_type m t = t"
| "substitute_param m (CallableParam n t k d p mu) = CallableParam n (substitute_resolved_type m t) k d p mu"

text \<open>\<open>borrowed_pattern_subject\<close>, without the binding mode it also reports.\<close>

fun borrowed_pattern_subject :: "ResolvedType \<Rightarrow> ResolvedType" where
  "borrowed_pattern_subject (TyRef inner) = borrowed_pattern_subject inner"
| "borrowed_pattern_subject (TyRefMut inner) = borrowed_pattern_subject inner"
| "borrowed_pattern_subject t = t"

definition tuple_items :: "ResolvedType \<Rightarrow> ResolvedType list option" where
  "tuple_items t =
     (case t of
        TyTuple types \<Rightarrow> Some types
      | TyGeneric name args \<Rightarrow> if collection_from_str name = Some TupleType then Some args else None
      | _ \<Rightarrow> None)"

section \<open>The registries as interfaces\<close>

lemma item_from_str_iff:
  assumes "distinct (concat (map (\<lambda>t. item_canonical t # item_aliases t) tab))" and "distinct (map item_id tab)"
    and "info i \<in> set tab" and "item_id (info i) = i"
  shows "item_from_str tab s = Some i \<longleftrightarrow> s \<in> set (item_canonical (info i) # item_aliases (info i))"
  using registry_lookup_aliases [where info = info and i = i, OF assms, of s] by (simp add: item_from_str_def)

lemmas collection_table = COLLECTION_TYPES_def item_info_def
lemmas constructor_table = CONSTRUCTORS_def item_info_def

interpretation collection_reg: spelling_registry collection_from_str
  "\<lambda>i. item_canonical (collection_info_for i) # item_aliases (collection_info_for i)"
proof
  fix s i
  show "collection_from_str s = Some i \<longleftrightarrow>
      s \<in> set (item_canonical (collection_info_for i) # item_aliases (collection_info_for i))"
    unfolding collection_from_str_def
    by (rule item_from_str_iff, simp_all only: collection_info_for_def)
      (cases i; simp add: collection_table)+
qed

interpretation constructor_reg: spelling_registry constructor_from_str
  "\<lambda>i. item_canonical (constructor_info_for i) # item_aliases (constructor_info_for i)"
proof
  fix s i
  show "constructor_from_str s = Some i \<longleftrightarrow>
      s \<in> set (item_canonical (constructor_info_for i) # item_aliases (constructor_info_for i))"
    unfolding constructor_from_str_def
    by (rule item_from_str_iff, simp_all only: constructor_info_for_def)
      (cases i; simp add: constructor_table)+
qed

lemma constructor_from_str_None_iff: "constructor_from_str s = Some NoneCtor \<longleftrightarrow> s = lit ''None''"
  by (simp add: constructor_reg.lookup_iff constructor_info_for_def constructor_table)

lemma borrowed_pattern_subject_idem [simp]:
  "borrowed_pattern_subject (borrowed_pattern_subject t) = borrowed_pattern_subject t"
  by (induction t rule: borrowed_pattern_subject.induct) simp_all

end
