(* ===== verification/Match_Coverage.thy ===== *)
theory Match_Coverage
  imports Resolved_Types Lexer Sequences
begin

text \<open>
  Exhaustiveness of \<open>match\<close>: the pattern-matrix walk of
  \<open>incan_frontend/src/typechecker/check_expr/match_coverage.rs\<close>, together with the part of
  \<open>check_match_exhaustiveness\<close> (\<open>match_.rs\<close>) that reports the missing variants of a subject that is
  no anonymous union.  Source spans are left out of the patterns.  The checker's state is the table of
  nominal types it looks names up in; hash maps are association lists in their iteration order.
\<close>

section \<open>Patterns\<close>

datatype Literal =
    IntLit IntLiteral | FloatLit FloatLiteral | DecimalLit DecimalLiteral | StringLit rstr
  | BytesLit "byte list" | BoolLit bool | NoneLit

datatype Pattern =
    Wildcard | Binding rstr | LiteralPat Literal | Constructor rstr "PatternArg list"
  | TuplePat "Pattern list" | Group Pattern | OrPat "Pattern list"
and PatternArg = Positional Pattern | Named rstr Pattern

section \<open>The type table\<close>

record FieldInfo =
  field_ty :: ResolvedType
  field_alias :: "rstr option"

record EnumInfo =
  enum_type_params :: "rstr list"
  variants :: "rstr list"
  variant_fields :: "(rstr \<times> ResolvedType list) list"
  variant_aliases :: "(rstr \<times> rstr) list"

record NominalInfo =
  nominal_type_params :: "rstr list"
  nominal_fields :: "(rstr \<times> FieldInfo) list"
  nominal_field_order :: "rstr list"

datatype TypeInfo =
  BuiltinInfo | ClassInfo NominalInfo | ModelInfo NominalInfo | TypeAliasInfo | NewtypeInfo | EnumTypeInfo EnumInfo

record TypeChecker =
  type_infos :: "rstr \<Rightarrow> TypeInfo option"

definition lookup_type_info :: "TypeChecker \<Rightarrow> rstr \<Rightarrow> TypeInfo option" where
  "lookup_type_info tc name = type_infos tc name"

definition resolve_field_info ::
  "(rstr \<times> FieldInfo) list \<Rightarrow> rstr \<Rightarrow> bool \<Rightarrow> bool \<Rightarrow> (rstr \<times> FieldInfo) option" where
  "resolve_field_info fs field_name allow_alias allow_numeric_alias =
     (case map_of fs field_name of
        Some info \<Rightarrow> Some (field_name, info)
      | None \<Rightarrow>
          if \<not> allow_alias then None
          else if \<not> allow_numeric_alias \<and> parse_unsigned 64 field_name \<noteq> None then None
          else find (\<lambda>(_, info). field_alias info = Some field_name) fs)"

section \<open>Constructors of a column\<close>

type_synonym CoverageRow = "Pattern option list"

datatype CoverageKey = Variant "rstr list" | OptionNone | BoolKey bool | TupleKey | RecordKey rstr

record CoverageConstructor =
  con_key :: CoverageKey
  con_fields :: "ResolvedType list"
  con_field_names :: "rstr list"
  con_record_fields :: "(rstr \<times> FieldInfo) list"

definition unit_constructor :: "CoverageKey \<Rightarrow> CoverageConstructor" where
  "unit_constructor key = \<lparr>con_key = key, con_fields = [], con_field_names = [], con_record_fields = []\<rparr>"

definition variant_constructor :: "rstr \<Rightarrow> rstr list \<Rightarrow> ResolvedType list \<Rightarrow> CoverageConstructor" where
  "variant_constructor name aliases fs =
     \<lparr>con_key = Variant (name # aliases), con_fields = fs, con_field_names = [], con_record_fields = []\<rparr>"

definition join_wildcards :: "nat \<Rightarrow> rstr" where
  "join_wildcards n = concat (case replicate n (lit ''_'') of [] \<Rightarrow> [] | x # xs \<Rightarrow> x # map (\<lambda>y. lit '', '' @ y) xs)"

definition missing_label :: "CoverageConstructor \<Rightarrow> bool \<Rightarrow> rstr" where
  "missing_label c partially_covered =
     (let name = (case con_key c of
                    Variant spellings \<Rightarrow> (case spellings of s # _ \<Rightarrow> s | [] \<Rightarrow> [])
                  | OptionNone \<Rightarrow> constructor_as_str NoneCtor
                  | BoolKey v \<Rightarrow> if v then lit ''true'' else lit ''false''
                  | TupleKey \<Rightarrow> []
                  | RecordKey type_name \<Rightarrow> type_name)
      in if \<not> partially_covered \<or> con_fields c = [] then name
         else name @ lit ''('' @ join_wildcards (length (con_fields c)) @ lit '')'')"

definition record_constructor :: "rstr \<Rightarrow> NominalInfo \<Rightarrow> ResolvedType list \<Rightarrow> CoverageConstructor" where
  "record_constructor type_name info type_args =
     (let m = type_param_subst_map (nominal_type_params info) type_args
      in \<lparr>con_key = RecordKey type_name,
          con_fields = map (\<lambda>name. case map_of (nominal_fields info) name of
                                     Some f \<Rightarrow> substitute_resolved_type m (field_ty f)
                                   | None \<Rightarrow> TyUnknown) (nominal_field_order info),
          con_field_names = nominal_field_order info,
          con_record_fields = nominal_fields info\<rparr>)"

definition enum_variant_types :: "EnumInfo \<Rightarrow> ResolvedType list \<Rightarrow> rstr \<Rightarrow> ResolvedType list" where
  "enum_variant_types info type_args v =
     (case map_of (variant_fields info) v of
        Some fs \<Rightarrow> map (substitute_resolved_type (type_param_subst_map (enum_type_params info) type_args)) fs
      | None \<Rightarrow> [])"

definition enum_constructors :: "EnumInfo \<Rightarrow> ResolvedType list \<Rightarrow> CoverageConstructor list" where
  "enum_constructors info type_args =
     map (\<lambda>v. variant_constructor v (map fst (filter (\<lambda>(_, canonical). canonical = v) (variant_aliases info)))
                (enum_variant_types info type_args v)) (variants info)"

definition nominal_constructors ::
  "TypeChecker \<Rightarrow> rstr \<Rightarrow> ResolvedType list \<Rightarrow> CoverageConstructor list option" where
  "nominal_constructors tc type_name type_args =
     (case lookup_type_info tc type_name of
        Some (EnumTypeInfo info) \<Rightarrow> Some (enum_constructors info type_args)
      | Some (ModelInfo info) \<Rightarrow> Some [record_constructor type_name info type_args]
      | Some (ClassInfo info) \<Rightarrow> Some [record_constructor type_name info type_args]
      | _ \<Rightarrow> None)"

definition or_unknown :: "ResolvedType option \<Rightarrow> ResolvedType" where
  "or_unknown t = (case t of Some t \<Rightarrow> t | None \<Rightarrow> TyUnknown)"

definition coverage_constructors :: "TypeChecker \<Rightarrow> ResolvedType \<Rightarrow> CoverageConstructor list option" where
  "coverage_constructors tc column =
     (if column = TyBool then Some [unit_constructor (BoolKey True), unit_constructor (BoolKey False)]
      else if is_option column then
        Some [variant_constructor (constructor_as_str SomeCtor) [] [or_unknown (option_inner_type column)],
              unit_constructor OptionNone]
      else if is_result column then
        Some [variant_constructor (constructor_as_str OkCtor) [] [or_unknown (result_ok_type column)],
              variant_constructor (constructor_as_str ErrCtor) [] [or_unknown (result_err_type column)]]
      else case tuple_items column of
        Some items \<Rightarrow>
          Some [\<lparr>con_key = TupleKey, con_fields = items, con_field_names = [], con_record_fields = []\<rparr>]
      | None \<Rightarrow>
          (case column of
             TyNamed name \<Rightarrow> nominal_constructors tc name []
           | TyGeneric name args \<Rightarrow> nominal_constructors tc name args
           | _ \<Rightarrow> None))"

section \<open>The walk\<close>

definition row_head :: "CoverageRow \<Rightarrow> Pattern option" where
  "row_head row = (case row of Some p # _ \<Rightarrow> Some p | _ \<Rightarrow> None)"

definition coverage_head_is_wild :: "Pattern option \<Rightarrow> bool" where
  "coverage_head_is_wild head =
     (case head of None \<Rightarrow> True | Some Wildcard \<Rightarrow> True | Some (Binding _) \<Rightarrow> True | _ \<Rightarrow> False)"

definition coverage_row_head_is_wild :: "CoverageRow \<Rightarrow> bool" where
  "coverage_row_head_is_wild row = coverage_head_is_wild (row_head row)"

definition coverage_column_is_open_scalar :: "ResolvedType \<Rightarrow> bool" where
  "coverage_column_is_open_scalar t =
     (case t of TyInt \<Rightarrow> True | TyFloat \<Rightarrow> True | TyNumeric _ \<Rightarrow> True | TyStr \<Rightarrow> True | TyFrozenStr \<Rightarrow> True
      | TyBytes \<Rightarrow> True | TyFrozenBytes \<Rightarrow> True | _ \<Rightarrow> False)"

text \<open>
  \<open>expand_coverage_heads\<close>: the stack \<open>pending\<close> is popped at its end; a grouped head is unwrapped in
  place and an alternation pushes one row per alternative.
\<close>

definition set_head :: "CoverageRow \<Rightarrow> Pattern \<Rightarrow> CoverageRow" where
  "set_head row p = (case row of [] \<Rightarrow> [] | _ # r \<Rightarrow> Some p # r)"

definition head_weight :: "CoverageRow \<Rightarrow> nat" where
  "head_weight row = (case row_head row of None \<Rightarrow> 1 | Some p \<Rightarrow> size p + 1)"

lemma head_weight_set_head: "row_head row = Some q \<Longrightarrow> head_weight (set_head row p) = size p + 1"
  by (auto simp: row_head_def set_head_def head_weight_def split: list.splits option.splits)

lemma sum_list_head_weight_map:
  "row_head row = Some q \<Longrightarrow> sum_list (map (head_weight \<circ> set_head row) ps) = size_list size ps"
  by (induction ps) (auto simp: head_weight_set_head)

lemma sum_list_butlast_last:
  assumes "pending \<noteq> []"
  shows "sum_list (map head_weight pending) = sum_list (map head_weight (butlast pending)) + head_weight (last pending)"
proof -
  have "pending = butlast pending @ [last pending]" using assms by simp
  then have "sum_list (map head_weight pending) = sum_list (map head_weight (butlast pending @ [last pending]))" by simp
  also have "\<dots> = sum_list (map head_weight (butlast pending)) + head_weight (last pending)"
    by (simp only: map_append sum_list_append list.map sum_list.Cons sum_list.Nil add_0_right)
  finally show ?thesis .
qed

lemma head_weight_pos: "0 < head_weight row"
  by (auto simp: head_weight_def split: option.splits)

lemma weight_group:
  "row_head row = Some (Group p) \<Longrightarrow> head_weight (set_head row p) < head_weight row"
  by (simp add: head_weight_set_head) (simp add: head_weight_def)

lemma weight_or:
  "row_head row = Some (OrPat ps) \<Longrightarrow> sum_list (map (head_weight \<circ> set_head row) ps) < head_weight row"
  by (simp add: sum_list_head_weight_map) (simp add: head_weight_def)

function expand_loop :: "CoverageRow list \<Rightarrow> CoverageRow list \<Rightarrow> CoverageRow list" where
  "expand_loop pending expanded =
     (if pending = [] then expanded
      else let row = last pending; pending = butlast pending in
           case row_head row of
             Some (Group inner) \<Rightarrow> expand_loop (pending @ [set_head row inner]) expanded
           | Some (OrPat alternatives) \<Rightarrow> expand_loop (pending @ map (set_head row) alternatives) expanded
           | _ \<Rightarrow> expand_loop pending (expanded @ [row]))"
  by pat_completeness auto
termination
  apply (relation "measure (\<lambda>(pending, _). sum_list (map head_weight pending))")
  apply simp
  using sum_list_butlast_last head_weight_pos weight_group weight_or
  apply (simp_all add: o_def)
  done

declare expand_loop.simps [simp del]

definition expand_coverage_heads :: "CoverageRow list \<Rightarrow> CoverageRow list" where
  "expand_coverage_heads rows = expand_loop rows []"

definition pad_row :: "nat \<Rightarrow> CoverageRow \<Rightarrow> CoverageRow" where
  "pad_row width row = take width row @ replicate (width - length row) None"

definition positional_args :: "PatternArg list \<Rightarrow> Pattern list" where
  "positional_args args = List.map_filter (\<lambda>a. case a of Positional p \<Rightarrow> Some p | Named _ _ \<Rightarrow> None) args"

definition assign_field :: "CoverageConstructor \<Rightarrow> PatternArg \<Rightarrow> CoverageRow \<Rightarrow> CoverageRow" where
  "assign_field c a payload =
     (case a of
        Positional _ \<Rightarrow> payload
      | Named field p \<Rightarrow>
          (case resolve_field_info (con_record_fields c) field True True of
             None \<Rightarrow> payload
           | Some (canonical, _) \<Rightarrow>
               (case position (\<lambda>n. n = canonical) (con_field_names c) of
                  Some i \<Rightarrow> if i < length payload then payload[i := Some p] else payload
                | None \<Rightarrow> payload)))"

definition coverage_head_payload :: "Pattern \<Rightarrow> CoverageConstructor \<Rightarrow> CoverageRow option" where
  "coverage_head_payload head c =
     (let width = length (con_fields c) in
      case (con_key c, head) of
        (BoolKey expected, LiteralPat (BoolLit v)) \<Rightarrow> if expected = v then Some [] else None
      | (OptionNone, LiteralPat NoneLit) \<Rightarrow> Some []
      | (OptionNone, Constructor name _) \<Rightarrow>
          if constructor_from_str (path_tail name) = Some NoneCtor then Some [] else None
      | (Variant spellings, Constructor name args) \<Rightarrow>
          if path_tail name \<notin> set spellings then None
          else Some (pad_row width (map Some (positional_args args)))
      | (TupleKey, TuplePat items) \<Rightarrow> Some (pad_row width (map Some items))
      | (RecordKey type_name, Constructor name args) \<Rightarrow>
          if path_tail name \<noteq> type_name then None
          else Some (fold (assign_field c) args (replicate width None))
      | _ \<Rightarrow> None)"

definition specialize_coverage_row :: "CoverageRow \<Rightarrow> CoverageConstructor \<Rightarrow> CoverageRow option" where
  "specialize_coverage_row row c =
     (let head = row_head row in
      case (if coverage_head_is_wild head then Some (replicate (length (con_fields c)) None)
            else Option.bind head (\<lambda>h. coverage_head_payload h c)) of
        None \<Rightarrow> None
      | Some specialized \<Rightarrow> Some (specialized @ drop 1 row))"

definition specialize_coverage_rows :: "CoverageRow list \<Rightarrow> CoverageConstructor \<Rightarrow> CoverageRow list" where
  "specialize_coverage_rows rows c = List.map_filter (\<lambda>row. specialize_coverage_row row c) rows"

definition MAX_COVERAGE_DEPTH :: nat where
  "MAX_COVERAGE_DEPTH = 32"

definition literal_head :: "CoverageRow \<Rightarrow> bool" where
  "literal_head row = (case row_head row of Some (LiteralPat _) \<Rightarrow> True | _ \<Rightarrow> False)"

definition head_is_placed :: "CoverageConstructor list \<Rightarrow> CoverageRow \<Rightarrow> bool" where
  "head_is_placed cs row \<longleftrightarrow>
     coverage_row_head_is_wild row
     \<or> (case row_head row of
           Some head \<Rightarrow> list_ex (\<lambda>c. coverage_head_payload head c \<noteq> None) cs | None \<Rightarrow> False)"

function coverage_rows_exhaustive :: "TypeChecker \<Rightarrow> CoverageRow list \<Rightarrow> ResolvedType list \<Rightarrow> nat \<Rightarrow> bool" where
  "coverage_rows_exhaustive tc rows columns depth =
     (case columns of
        [] \<Rightarrow> rows \<noteq> []
      | column # others \<Rightarrow>
          if depth > MAX_COVERAGE_DEPTH then True
          else
            let rows = expand_coverage_heads rows in
            if list_all coverage_row_head_is_wild rows
            then coverage_rows_exhaustive tc (map (drop 1) rows) others (depth + 1)
            else
              let column = borrowed_pattern_subject column in
              case coverage_constructors tc column of
                None \<Rightarrow>
                  if \<not> coverage_column_is_open_scalar column
                     \<or> \<not> list_all (\<lambda>row. coverage_row_head_is_wild row \<or> literal_head row) rows
                  then True
                  else coverage_rows_exhaustive tc (map (drop 1) (filter coverage_row_head_is_wild rows)) others (depth + 1)
              | Some column_constructors \<Rightarrow>
                  if \<not> list_all (head_is_placed column_constructors) rows then True
                  else list_all
                         (\<lambda>c. coverage_rows_exhaustive tc (specialize_coverage_rows rows c)
                                (con_fields c @ others) (depth + 1))
                         column_constructors)"
  by pat_completeness auto
termination
  by (relation "measure (\<lambda>(_, _, _, depth). Suc MAX_COVERAGE_DEPTH - depth)") auto

declare coverage_rows_exhaustive.simps [simp del]

section \<open>Reporting the missing cases of a match\<close>

record MatchArm =
  arm_pattern :: Pattern
  arm_guarded :: bool

definition match_subject_variant_constructors ::
  "TypeChecker \<Rightarrow> ResolvedType \<Rightarrow> CoverageConstructor list option" where
  "match_subject_variant_constructors tc subject =
     (let is_enum = (\<lambda>name. case lookup_type_info tc name of Some (EnumTypeInfo _) \<Rightarrow> True | _ \<Rightarrow> False);
          enforced = is_option subject \<or> is_result subject
            \<or> (case subject of TyNamed name \<Rightarrow> is_enum name | TyGeneric name _ \<Rightarrow> is_enum name | _ \<Rightarrow> False)
      in if \<not> enforced then None else coverage_constructors tc subject)"

text \<open>The labels of the \<open>non_exhaustive_match\<close> error; no label, no error.\<close>

definition missing_cases :: "TypeChecker \<Rightarrow> ResolvedType \<Rightarrow> MatchArm list \<Rightarrow> rstr list" where
  "missing_cases tc subject arms =
     (let rows = expand_coverage_heads
                   (map (\<lambda>arm. [Some (arm_pattern arm)]) (filter (\<lambda>arm. \<not> arm_guarded arm) arms))
      in if list_ex coverage_row_head_is_wild rows then []
         else case match_subject_variant_constructors tc subject of
                None \<Rightarrow> if \<not> coverage_rows_exhaustive tc rows [subject] 0 then [lit ''_''] else []
              | Some constructors \<Rightarrow>
                  List.map_filter
                    (\<lambda>c. let payload_rows = specialize_coverage_rows rows c;
                             named = payload_rows \<noteq> []
                         in if \<not> coverage_rows_exhaustive tc payload_rows (con_fields c) 0
                            then Some (missing_label c named) else None)
                    constructors)"

end
