(* ===== verification/Match_Soundness.thy ===== *)
theory Match_Soundness
  imports Match_Coverage
begin

text \<open>
  What the exhaustiveness check of \<open>match\<close> promises, against a semantics of values, their types and
  pattern matching that does not mention the walk: a refusal exhibits a value no arm matches, and an
  accepted match leaves no value out, up to the nesting the walk looks at.
\<close>

section \<open>Values and matching\<close>

text \<open>
  The values a match inspects, independent of the walk: scalars, tuples, variants of the builtin and
  the declared enums, and records with their fields in declaration order.
\<close>

datatype val =
    VInt int | VFloat f64 | VStr rstr | VBytes "byte list" | VBool bool
  | VSome val | VNone | VOk val | VErr val | VTuple "val list"
  | VEnum rstr rstr "val list" | VRecord rstr "val list" | VOpaque nat

definition is_zero_f64 :: "f64 \<Rightarrow> bool" where
  "is_zero_f64 v \<longleftrightarrow> f64_exponent v = 0 \<and> f64_mantissa v = 0"

definition f64_eq :: "f64 \<Rightarrow> f64 \<Rightarrow> bool" where
  "f64_eq a b \<longleftrightarrow> \<not> is_nan a \<and> \<not> is_nan b \<and> (a = b \<or> is_zero_f64 a \<and> is_zero_f64 b)"

fun lit_matches :: "Literal \<Rightarrow> val \<Rightarrow> bool" where
  "lit_matches (IntLit l) (VInt i) = (int (int_magnitude l) = i)"
| "lit_matches (FloatLit l) (VFloat f) = f64_eq (float_value l) f"
| "lit_matches (StringLit s) (VStr t) = (s = t)"
| "lit_matches (BytesLit s) (VBytes t) = (s = t)"
| "lit_matches (BoolLit b) (VBool c) = (b = c)"
| "lit_matches NoneLit VNone = True"
| "lit_matches _ _ = False"

text \<open>A written name denotes a variant by its canonical name or by one of its aliases.\<close>

definition names_variant :: "TypeChecker \<Rightarrow> rstr \<Rightarrow> rstr \<Rightarrow> rstr \<Rightarrow> bool" where
  "names_variant tc type_name v written \<longleftrightarrow>
     written = v
     \<or> (case lookup_type_info tc type_name of
           Some (EnumTypeInfo info) \<Rightarrow> (written, v) \<in> set (variant_aliases info) | _ \<Rightarrow> False)"

definition nominal_info :: "TypeChecker \<Rightarrow> rstr \<Rightarrow> NominalInfo option" where
  "nominal_info tc name =
     (case lookup_type_info tc name of Some (ModelInfo i) \<Rightarrow> Some i | Some (ClassInfo i) \<Rightarrow> Some i | _ \<Rightarrow> None)"

definition field_slot :: "TypeChecker \<Rightarrow> rstr \<Rightarrow> rstr \<Rightarrow> nat option" where
  "field_slot tc type_name field =
     (case nominal_info tc type_name of
        None \<Rightarrow> None
      | Some info \<Rightarrow>
          (case resolve_field_info (nominal_fields info) field True True of
             None \<Rightarrow> None
           | Some (canonical, _) \<Rightarrow> position (\<lambda>n. n = canonical) (nominal_field_order info)))"

lemma size_positional_args [termination_simp]: "p \<in> set (positional_args args) \<Longrightarrow> size p < Suc (size_list size args)"
  by (induction args) (auto simp: positional_args_def List.map_filter_simps split: PatternArg.splits)

lemma size_zip_args [termination_simp]:
  "(p, w) \<in> set (zip ps vs) \<Longrightarrow> size p < Suc (size_list size ps)"
  "(p, w) \<in> set (zip (positional_args args) vs) \<Longrightarrow> size p < Suc (size_list size args)"
  using size_positional_args [of p args] by (auto dest!: set_zip_leftD simp: less_Suc_eq_le intro: size_list_estimation')

fun pmatch :: "TypeChecker \<Rightarrow> Pattern \<Rightarrow> val \<Rightarrow> bool" and amatch :: "TypeChecker \<Rightarrow> rstr \<Rightarrow> val list \<Rightarrow> PatternArg \<Rightarrow> bool" where
  "pmatch tc Wildcard v = True"
| "pmatch tc (Binding _) v = True"
| "pmatch tc (LiteralPat l) v = lit_matches l v"
| "pmatch tc (Group p) v = pmatch tc p v"
| "pmatch tc (OrPat ps) v = list_ex (\<lambda>p. pmatch tc p v) ps"
| "pmatch tc (TuplePat ps) v =
     (case v of VTuple vs \<Rightarrow> length ps = length vs \<and> list_all (\<lambda>(p, w). pmatch tc p w) (zip ps vs) | _ \<Rightarrow> False)"
| "pmatch tc (Constructor name args) v =
     (case v of
        VSome w \<Rightarrow> path_tail name = lit ''Some'' \<and> list_all (\<lambda>(p, w). pmatch tc p w) (zip (positional_args args) [w])
      | VNone \<Rightarrow> path_tail name = lit ''None''
      | VOk w \<Rightarrow> path_tail name = lit ''Ok'' \<and> list_all (\<lambda>(p, w). pmatch tc p w) (zip (positional_args args) [w])
      | VErr w \<Rightarrow> path_tail name = lit ''Err'' \<and> list_all (\<lambda>(p, w). pmatch tc p w) (zip (positional_args args) [w])
      | VEnum t n vs \<Rightarrow> names_variant tc t n (path_tail name) \<and> list_all (\<lambda>(p, w). pmatch tc p w) (zip (positional_args args) vs)
      | VRecord t vs \<Rightarrow> path_tail name = t \<and> list_all (amatch tc t vs) args
      | _ \<Rightarrow> False)"
| "amatch tc t vs (Positional p) = False"
| "amatch tc t vs (Named field p) =
     (case field_slot tc t field of Some i \<Rightarrow> i < length vs \<and> pmatch tc p (vs ! i) | None \<Rightarrow> False)"

definition entry_matches :: "TypeChecker \<Rightarrow> Pattern option \<Rightarrow> val \<Rightarrow> bool" where
  "entry_matches tc e v = (case e of None \<Rightarrow> True | Some p \<Rightarrow> pmatch tc p v)"

definition row_matches :: "TypeChecker \<Rightarrow> CoverageRow \<Rightarrow> val list \<Rightarrow> bool" where
  "row_matches tc row vs \<longleftrightarrow> list_all2 (entry_matches tc) row vs"

section \<open>Typing of values\<close>

fun scalar_values :: "ResolvedType \<Rightarrow> val set" where
  "scalar_values TyInt = VInt ` {i. in_i64 i}"
| "scalar_values TyFloat = range VFloat"
| "scalar_values (TyNumeric i) =
     (if is_integer i then VInt ` type_values 64 i else if is_binary_float i then range VFloat else range VOpaque)"
| "scalar_values TyStr = VStr ` {s. valid_str s}"
| "scalar_values TyFrozenStr = VStr ` {s. valid_str s}"
| "scalar_values TyBytes = range VBytes"
| "scalar_values TyFrozenBytes = range VBytes"
| "scalar_values _ = {}"

definition is_nominal :: "TypeChecker \<Rightarrow> rstr \<Rightarrow> bool" where
  "is_nominal tc name \<longleftrightarrow>
     (case lookup_type_info tc name of
        Some (EnumTypeInfo _) \<Rightarrow> True | Some (ModelInfo _) \<Rightarrow> True | Some (ClassInfo _) \<Rightarrow> True | _ \<Rightarrow> False)"

text \<open>Types whose values the checker knows nothing about; a diverging expression has no value at all.\<close>

fun opaque_type :: "TypeChecker \<Rightarrow> ResolvedType \<Rightarrow> bool" where
  "opaque_type tc (TyNamed name) = (\<not> is_nominal tc name)"
| "opaque_type tc (TyGeneric name _) =
     (collection_from_str name \<notin> {Some OptionType, Some ResultType, Some TupleType} \<and> \<not> is_nominal tc name)"
| "opaque_type tc t =
     (t \<noteq> TyBool \<and> t \<noteq> TyNever \<and> \<not> coverage_column_is_open_scalar t
      \<and> (case t of TyTuple _ \<Rightarrow> False | TyRef _ \<Rightarrow> False | TyRefMut _ \<Rightarrow> False | _ \<Rightarrow> True))"

text \<open>A nominal type as its name and its arguments; the names of the builtin sums and tuples are taken.\<close>

definition nominal_view :: "ResolvedType \<Rightarrow> (rstr \<times> ResolvedType list) option" where
  "nominal_view t =
     (case t of
        TyNamed name \<Rightarrow> Some (name, [])
      | TyGeneric name args \<Rightarrow>
          if collection_from_str name \<in> {Some OptionType, Some ResultType, Some TupleType} then None else Some (name, args)
      | _ \<Rightarrow> None)"

definition record_field_types :: "NominalInfo \<Rightarrow> ResolvedType list \<Rightarrow> ResolvedType list" where
  "record_field_types info args =
     map (\<lambda>n. case map_of (nominal_fields info) n of
                Some f \<Rightarrow> substitute_resolved_type (type_param_subst_map (nominal_type_params info) args) (field_ty f)
              | None \<Rightarrow> TyUnknown) (nominal_field_order info)"

inductive has_type :: "TypeChecker \<Rightarrow> ResolvedType \<Rightarrow> val \<Rightarrow> bool" for tc where
  ty_ref: "has_type tc t v \<Longrightarrow> has_type tc (TyRef t) v"
| ty_ref_mut: "has_type tc t v \<Longrightarrow> has_type tc (TyRefMut t) v"
| ty_scalar: "v \<in> scalar_values t \<Longrightarrow> has_type tc t v"
| ty_bool: "has_type tc TyBool (VBool b)"
| ty_some: "is_option t \<Longrightarrow> has_type tc (or_unknown (option_inner_type t)) v \<Longrightarrow> has_type tc t (VSome v)"
| ty_none: "is_option t \<Longrightarrow> has_type tc t VNone"
| ty_ok: "is_result t \<Longrightarrow> has_type tc (or_unknown (result_ok_type t)) v \<Longrightarrow> has_type tc t (VOk v)"
| ty_err: "is_result t \<Longrightarrow> has_type tc (or_unknown (result_err_type t)) v \<Longrightarrow> has_type tc t (VErr v)"
| ty_tuple: "tuple_items t = Some ts \<Longrightarrow> list_all2 (has_type tc) ts vs \<Longrightarrow> has_type tc t (VTuple vs)"
| ty_enum: "nominal_view t = Some (name, args) \<Longrightarrow> lookup_type_info tc name = Some (EnumTypeInfo info)
    \<Longrightarrow> v \<in> set (variants info) \<Longrightarrow> list_all2 (has_type tc) (enum_variant_types info args v) vs
    \<Longrightarrow> has_type tc t (VEnum name v vs)"
| ty_record: "nominal_view t = Some (name, args) \<Longrightarrow> nominal_info tc name = Some info
    \<Longrightarrow> list_all2 (has_type tc) (record_field_types info args) vs \<Longrightarrow> has_type tc t (VRecord name vs)"
| ty_opaque: "opaque_type tc t \<Longrightarrow> has_type tc t (VOpaque n)"

inductive_simps has_type_ref_iff: "has_type tc (TyRef t) v"
inductive_simps has_type_ref_mut_iff: "has_type tc (TyRefMut t) v"

lemmas type_views = is_option_def is_result_def tuple_items_def nominal_view_def

lemma has_type_borrow: "has_type tc (borrowed_pattern_subject t) v \<longleftrightarrow> has_type tc t v"
  by (induction t rule: borrowed_pattern_subject.induct)
    (simp_all add: has_type_ref_iff has_type_ref_mut_iff type_views)

section \<open>Constructors and the values they build\<close>

definition con_build :: "ResolvedType \<Rightarrow> CoverageConstructor \<Rightarrow> val list \<Rightarrow> val" where
  "con_build t c vs =
     (case con_key c of
        BoolKey b \<Rightarrow> VBool b
      | OptionNone \<Rightarrow> VNone
      | TupleKey \<Rightarrow> VTuple vs
      | RecordKey n \<Rightarrow> VRecord n vs
      | Variant sp \<Rightarrow>
          if is_option t then VSome (hd vs)
          else if is_result t then (if sp = [lit ''Ok''] then VOk (hd vs) else VErr (hd vs))
          else VEnum (fst (the (nominal_view t))) (hd sp) vs)"

lemma constructor_names [simp]:
  "constructor_as_str SomeCtor = lit ''Some''" "constructor_as_str NoneCtor = lit ''None''"
  "constructor_as_str OkCtor = lit ''Ok''" "constructor_as_str ErrCtor = lit ''Err''"
  by (simp_all add: constructor_as_str_def constructor_info_for_def constructor_table)

text \<open>The constructors of an enumerable column, case by case, with the value each builds.\<close>

lemma constructor_shapes:
  assumes "coverage_constructors tc t = Some cs" and "c \<in> set cs"
  obtains (bool) b where "t = TyBool" "c = unit_constructor (BoolKey b)"
  | (some) "is_option t" "c = variant_constructor (lit ''Some'') [] [or_unknown (option_inner_type t)]"
  | (none) "is_option t" "c = unit_constructor OptionNone"
  | (ok) "is_result t" "c = variant_constructor (lit ''Ok'') [] [or_unknown (result_ok_type t)]"
  | (err) "is_result t" "c = variant_constructor (lit ''Err'') [] [or_unknown (result_err_type t)]"
  | (tuple) ts where "tuple_items t = Some ts"
      "c = \<lparr>con_key = TupleKey, con_fields = ts, con_field_names = [], con_record_fields = []\<rparr>"
  | (enum) name args info v where "nominal_view t = Some (name, args)"
      "lookup_type_info tc name = Some (EnumTypeInfo info)" "v \<in> set (variants info)"
      "c = variant_constructor v (map fst (filter (\<lambda>(_, canonical). canonical = v) (variant_aliases info)))
             (enum_variant_types info args v)"
  | (nominal) name args info where "nominal_view t = Some (name, args)" "nominal_info tc name = Some info"
      "c = record_constructor name info args"
proof -
  consider "t = TyBool" | "is_option t" | "is_result t" | ts where "tuple_items t = Some ts"
    | "t \<noteq> TyBool" "\<not> is_option t" "\<not> is_result t" "tuple_items t = None"
    by (cases "tuple_items t") auto
  then show thesis
  proof cases
    case 1
    then show ?thesis using assms bool by (auto simp: coverage_constructors_def)
  next
    case 2
    then have "t \<noteq> TyBool" by (auto simp: is_option_def)
    then show ?thesis using assms some none 2 by (auto simp: coverage_constructors_def)
  next
    case 3
    then have "t \<noteq> TyBool" "\<not> is_option t" by (auto simp: type_views split: ResolvedType.splits)
    then show ?thesis using assms ok err 3 by (auto simp: coverage_constructors_def)
  next
    case (4 ts)
    then have "t \<noteq> TyBool" "\<not> is_option t" "\<not> is_result t" by (auto simp: type_views split: ResolvedType.splits if_splits)
    then show ?thesis using assms tuple 4 by (auto simp: coverage_constructors_def)
  next
    case 5
    then obtain name args where n: "nominal_view t = Some (name, args)" "nominal_constructors tc name args = Some cs"
      using assms(1) by (auto simp: coverage_constructors_def type_views split: ResolvedType.splits if_splits)
    then show ?thesis using assms(2) enum [OF n(1)] nominal [OF n(1)]
      by (auto simp: nominal_constructors_def enum_constructors_def nominal_info_def split: option.splits TypeInfo.splits)
  qed
qed

lemma view_exclusive:
  "is_option t \<Longrightarrow> \<not> is_result t \<and> tuple_items t = None \<and> nominal_view t = None \<and> t \<noteq> TyBool"
  "is_result t \<Longrightarrow> \<not> is_option t \<and> tuple_items t = None \<and> nominal_view t = None \<and> t \<noteq> TyBool"
  "tuple_items t = Some ts \<Longrightarrow> \<not> is_option t \<and> \<not> is_result t \<and> nominal_view t = None \<and> t \<noteq> TyBool"
  "nominal_view t = Some p \<Longrightarrow> \<not> is_option t \<and> \<not> is_result t \<and> tuple_items t = None \<and> t \<noteq> TyBool"
  by (auto simp: type_views split: ResolvedType.splits if_splits)

lemmas con_simps = con_build_def unit_constructor_def variant_constructor_def record_constructor_def Let_def

lemma record_constructor_fields [simp]: "con_fields (record_constructor n info args) = record_field_types info args"
  by (simp add: record_constructor_def record_field_types_def Let_def)

lemma con_build_typed:
  assumes "coverage_constructors tc t = Some cs" and "c \<in> set cs" and "list_all2 (has_type tc) (con_fields c) vs"
  shows "has_type tc t (con_build t c vs)"
  using assms(1,2)
proof (cases rule: constructor_shapes)
  case (nominal name args info)
  then have "list_all2 (has_type tc) (record_field_types info args) vs" using assms(3) by simp
  from ty_record [OF nominal(1,2) this] show ?thesis by (simp add: nominal(3) con_build_def record_constructor_def Let_def)
next
  case (enum name args info v)
  then show ?thesis using assms(3) view_exclusive(4) [OF enum(1)] by (auto simp: con_simps intro: ty_enum)
qed (use assms(3) in \<open>auto simp: con_simps list_all2_Cons1 dest: view_exclusive intro: has_type.intros\<close>)

lemma not_enumerable:
  "coverage_constructors tc (TyRef t) = None" "coverage_constructors tc (TyRefMut t) = None"
  "v \<in> scalar_values t \<Longrightarrow> coverage_constructors tc t = None"
  "opaque_type tc t \<Longrightarrow> coverage_constructors tc t = None"
     apply (simp_all add: coverage_constructors_def type_views)
   apply (cases t; simp)
  apply (cases t; auto simp: nominal_constructors_def is_nominal_def split: option.splits TypeInfo.splits)
  done

lemma enumerable_options:
  "is_option t \<Longrightarrow> coverage_constructors tc t =
     Some [variant_constructor (lit ''Some'') [] [or_unknown (option_inner_type t)], unit_constructor OptionNone]"
  "is_result t \<Longrightarrow> coverage_constructors tc t =
     Some [variant_constructor (lit ''Ok'') [] [or_unknown (result_ok_type t)],
           variant_constructor (lit ''Err'') [] [or_unknown (result_err_type t)]]"
  "tuple_items t = Some ts \<Longrightarrow> coverage_constructors tc t =
     Some [\<lparr>con_key = TupleKey, con_fields = ts, con_field_names = [], con_record_fields = []\<rparr>]"
  "nominal_view t = Some (name, args) \<Longrightarrow> coverage_constructors tc t = nominal_constructors tc name args"
proof -
  show "is_option t \<Longrightarrow> coverage_constructors tc t =
     Some [variant_constructor (lit ''Some'') [] [or_unknown (option_inner_type t)], unit_constructor OptionNone]"
    using view_exclusive(1) [of t] by (simp add: coverage_constructors_def)
  show "is_result t \<Longrightarrow> coverage_constructors tc t =
     Some [variant_constructor (lit ''Ok'') [] [or_unknown (result_ok_type t)],
           variant_constructor (lit ''Err'') [] [or_unknown (result_err_type t)]]"
    using view_exclusive(2) [of t] by (simp add: coverage_constructors_def)
  show "tuple_items t = Some ts \<Longrightarrow> coverage_constructors tc t =
     Some [\<lparr>con_key = TupleKey, con_fields = ts, con_field_names = [], con_record_fields = []\<rparr>]"
    using view_exclusive(3) [of t ts] by (simp add: coverage_constructors_def)
  assume n: "nominal_view t = Some (name, args)"
  then have "t = TyNamed name \<and> args = [] \<or> t = TyGeneric name args"
    by (auto simp: nominal_view_def split: ResolvedType.splits if_splits)
  then show "coverage_constructors tc t = nominal_constructors tc name args"
    using view_exclusive(4) [OF n] by (auto simp: coverage_constructors_def)
qed

fun val_nodes :: "val \<Rightarrow> nat" where
  "val_nodes (VSome v) = 1 + val_nodes v"
| "val_nodes (VOk v) = 1 + val_nodes v"
| "val_nodes (VErr v) = 1 + val_nodes v"
| "val_nodes (VTuple vs) = 1 + sum_list (map val_nodes vs)"
| "val_nodes (VEnum _ _ vs) = 1 + sum_list (map val_nodes vs)"
| "val_nodes (VRecord _ vs) = 1 + sum_list (map val_nodes vs)"
| "val_nodes _ = 1"

lemma val_nodes_pos: "0 < val_nodes v"
  by (cases v) simp_all

definition built_by :: "TypeChecker \<Rightarrow> ResolvedType \<Rightarrow> CoverageConstructor list \<Rightarrow> val \<Rightarrow> bool" where
  "built_by tc t cs v \<longleftrightarrow>
     (\<exists>c vs. c \<in> set cs \<and> list_all2 (has_type tc) (con_fields c) vs \<and> v = con_build t c vs
        \<and> val_nodes v = Suc (sum_list (map val_nodes vs)))"

lemma built_byI:
  "c \<in> set cs \<Longrightarrow> list_all2 (has_type tc) (con_fields c) vs \<Longrightarrow> v = con_build t c vs
    \<Longrightarrow> val_nodes v = Suc (sum_list (map val_nodes vs)) \<Longrightarrow> built_by tc t cs v"
  by (auto simp: built_by_def)

lemma typed_built_by:
  assumes "coverage_constructors tc t = Some cs" and "has_type tc t v"
  shows "built_by tc t cs v"
  using assms(2)
proof (cases rule: has_type.cases)
  case (ty_bool b)
  have "cs = [unit_constructor (BoolKey True), unit_constructor (BoolKey False)]"
    using assms(1) ty_bool by (simp add: coverage_constructors_def)
  then show ?thesis
    by (intro built_byI [of "unit_constructor (BoolKey b)" _ _ "[]"]) (cases b; simp add: ty_bool con_simps)+
next
  case (ty_some v)
  then show ?thesis using assms(1)
    by (intro built_byI [of "variant_constructor (lit ''Some'') [] [or_unknown (option_inner_type t)]" _ _ "[v]"])
      (auto simp: enumerable_options con_simps)
next
  case ty_none
  then show ?thesis using assms(1)
    by (intro built_byI [of "unit_constructor OptionNone" _ _ "[]"]) (auto simp: enumerable_options con_simps)
next
  case (ty_ok v)
  then show ?thesis using assms(1) view_exclusive(2) [of t]
    by (intro built_byI [of "variant_constructor (lit ''Ok'') [] [or_unknown (result_ok_type t)]" _ _ "[v]"])
      (auto simp: enumerable_options con_simps)
next
  case (ty_err v)
  then show ?thesis using assms(1) view_exclusive(2) [of t]
    by (intro built_byI [of "variant_constructor (lit ''Err'') [] [or_unknown (result_err_type t)]" _ _ "[v]"])
      (auto simp: enumerable_options con_simps)
next
  case (ty_tuple ts vs)
  then show ?thesis using assms(1)
    by (intro built_byI [of "\<lparr>con_key = TupleKey, con_fields = ts, con_field_names = [], con_record_fields = []\<rparr>" _ _ vs])
      (auto simp: enumerable_options con_simps)
next
  case (ty_enum name args info n vs)
  have cs: "cs = enum_constructors info args"
    using assms(1) ty_enum by (simp add: enumerable_options(4) [OF ty_enum(2)] nominal_constructors_def)
  show ?thesis using ty_enum view_exclusive(4) [OF ty_enum(2)] unfolding cs
    by (intro built_byI [of "variant_constructor n (map fst (filter (\<lambda>(_, canonical). canonical = n) (variant_aliases info)))
             (enum_variant_types info args n)" _ _ vs]) (auto simp: con_simps enum_constructors_def)
next
  case (ty_record name args info vs)
  have cs: "cs = [record_constructor name info args]"
    using assms(1) ty_record
    by (auto simp: enumerable_options(4) [OF ty_record(2)] nominal_constructors_def nominal_info_def
        split: option.splits TypeInfo.splits)
  show ?thesis using ty_record unfolding cs
    by (intro built_byI [of "record_constructor name info args" _ _ vs])
      (simp_all, simp add: con_build_def record_constructor_def Let_def)
qed (use assms(1) not_enumerable in auto)

section \<open>Head patterns and their payloads\<close>

lemma entry_matches_simps [simp]: "entry_matches tc None v" "entry_matches tc (Some p) v = pmatch tc p v"
  by (simp_all add: entry_matches_def)

lemma length_pad_row [simp]: "length (pad_row n row) = n"
  by (simp add: pad_row_def min_def)

lemma pad_row_match:
  "length vs = n \<Longrightarrow>
     list_all2 (entry_matches tc) (pad_row n (map Some ps)) vs \<longleftrightarrow> list_all (\<lambda>(p, w). pmatch tc p w) (zip ps vs)"
proof (induction ps arbitrary: vs n)
  case Nil
  then show ?case by (simp add: pad_row_def list_all2_conv_all_nth)
next
  case (Cons p ps)
  show ?case
  proof (cases vs)
    case Nil
    then show ?thesis using Cons.prems by (simp add: pad_row_def)
  next
    case (Cons w ws)
    then have n: "n = Suc (length ws)" using Cons.prems by simp
    have "pad_row n (map Some (p # ps)) = Some p # pad_row (length ws) (map Some ps)" by (simp add: n pad_row_def)
    then show ?thesis using Cons.IH [of ws "length ws"] Cons by simp
  qed
qed

lemma names_variant_iff:
  "lookup_type_info tc t = Some (EnumTypeInfo info) \<Longrightarrow>
     w \<in> set (v # map fst (filter (\<lambda>(_, canonical). canonical = v) (variant_aliases info))) \<longleftrightarrow> names_variant tc t v w"
  by (force simp: names_variant_def)

lemma assign_field_named:
  assumes "nominal_info tc n = Some info"
  shows "assign_field (record_constructor n info args) (Named f p) payload =
    (case field_slot tc n f of
       Some i \<Rightarrow> if i < length payload then payload[i := Some p] else payload | None \<Rightarrow> payload)"
  by (simp add: assign_field_def record_constructor_def Let_def field_slot_def assms split: option.splits)

lemma length_assign_field [simp]: "length (assign_field c a payload) = length payload"
  by (simp add: assign_field_def split: PatternArg.splits option.splits)

lemma length_fold_assign [simp]: "length (fold (assign_field c) as payload) = length payload"
  by (induction as arbitrary: payload) simp_all

lemma fold_assign_match:
  assumes "nominal_info tc n = Some info"
  shows "list_all (amatch tc n vs) as \<Longrightarrow> list_all2 (entry_matches tc) payload vs
    \<Longrightarrow> list_all2 (entry_matches tc) (fold (assign_field (record_constructor n info args)) as payload) vs"
proof (induction as arbitrary: payload)
  case (Cons a as)
  obtain f p where a: "a = Named f p" using Cons.prems(1) by (cases a) auto
  have "list_all2 (entry_matches tc) (assign_field (record_constructor n info args) a payload) vs"
    using Cons.prems by (auto simp: a assign_field_named [OF assms] list_all2_conv_all_nth nth_list_update split: option.splits)
  with Cons.IH Cons.prems(1) show ?case by simp
qed simp

fun refutable :: "Pattern \<Rightarrow> bool" where
  "refutable Wildcard = False"
| "refutable (Binding _) = False"
| "refutable (Group _) = False"
| "refutable (OrPat _) = False"
| "refutable _ = True"

lemma literal_payload:
  assumes "coverage_constructors tc t = Some cs" and "c \<in> set cs" and "length vs = length (con_fields c)"
  shows "(\<exists>pl. coverage_head_payload (LiteralPat l) c = Some pl \<and> list_all2 (entry_matches tc) pl vs)
      \<longleftrightarrow> lit_matches l (con_build t c vs)"
  using assms(1,2)
proof (cases rule: constructor_shapes)
  case (enum name args info v)
  then show ?thesis using view_exclusive(4) [OF enum(1)] by (cases l) (simp_all add: con_simps coverage_head_payload_def)
next
  case (ok)
  then show ?thesis using view_exclusive(2) [OF ok(1)] by (cases l) (simp_all add: con_simps coverage_head_payload_def)
next
  case (err)
  then show ?thesis using view_exclusive(2) [OF err(1)] by (cases l) (simp_all add: con_simps coverage_head_payload_def)
qed (use assms(3) in \<open>cases l; auto simp: con_simps coverage_head_payload_def\<close>)+

lemma tuple_payload:
  assumes "coverage_constructors tc t = Some cs" and "c \<in> set cs" and "length vs = length (con_fields c)"
    and "pmatch tc (TuplePat ps) (con_build t c vs)"
  shows "\<exists>pl. coverage_head_payload (TuplePat ps) c = Some pl \<and> list_all2 (entry_matches tc) pl vs"
  using assms(1,2)
proof (cases rule: constructor_shapes)
  case (tuple ts)
  then show ?thesis using assms(3,4) by (simp add: con_simps coverage_head_payload_def pad_row_match)
next
  case (enum name args info v)
  then show ?thesis using assms(4) view_exclusive(4) [OF enum(1)] by (simp add: con_simps)
qed (use assms(4) in \<open>auto simp: con_simps split: if_splits\<close>)

lemma constructor_payload:
  assumes "coverage_constructors tc t = Some cs" and "c \<in> set cs" and "length vs = length (con_fields c)"
    and "pmatch tc (Constructor name as) (con_build t c vs)"
  shows "\<exists>pl. coverage_head_payload (Constructor name as) c = Some pl \<and> list_all2 (entry_matches tc) pl vs"
  using assms(1,2)
proof (cases rule: constructor_shapes)
  case (enum tn args info v)
  have m: "names_variant tc tn v (path_tail name)" "list_all (\<lambda>(p, w). pmatch tc p w) (zip (positional_args as) vs)"
    using assms(4) enum view_exclusive(4) [OF enum(1)] by (simp_all add: con_simps)
  then have "path_tail name \<in> set (v # map fst (filter (\<lambda>(_, canonical). canonical = v) (variant_aliases info)))"
    using names_variant_iff [OF enum(2)] by blast
  then show ?thesis using m(2) assms(3) enum(4)
    by (simp add: coverage_head_payload_def variant_constructor_def pad_row_match del: list.set)
next
  case (nominal tn args info)
  then have "path_tail name = tn" "list_all (amatch tc tn vs) as"
    using assms(4) by (simp_all add: con_build_def record_constructor_def Let_def)
  moreover have "list_all2 (entry_matches tc) (replicate (length vs) None) vs" by (simp add: list_all2_conv_all_nth)
  ultimately show ?thesis using fold_assign_match [OF nominal(2), of vs as _ args] assms(3) nominal(3)
    by (simp add: coverage_head_payload_def) (simp add: record_constructor_def Let_def)
next
  case some
  then show ?thesis using assms(3,4) by (auto simp: con_simps coverage_head_payload_def pad_row_match length_Suc_conv)
next
  case none
  then show ?thesis using assms(3,4) by (auto simp: con_simps coverage_head_payload_def constructor_from_str_None_iff)
next
  case ok
  then show ?thesis using assms(3,4) view_exclusive(2) [OF ok(1)]
    by (auto simp: con_simps coverage_head_payload_def pad_row_match length_Suc_conv)
next
  case err
  then show ?thesis using assms(3,4) view_exclusive(2) [OF err(1)]
    by (auto simp: con_simps coverage_head_payload_def pad_row_match length_Suc_conv)
qed (use assms(4) in \<open>simp_all add: con_simps\<close>)

lemma pmatch_payload:
  assumes "coverage_constructors tc t = Some cs" and "c \<in> set cs" and "length vs = length (con_fields c)"
    and "refutable p" and "pmatch tc p (con_build t c vs)"
  shows "\<exists>pl. coverage_head_payload p c = Some pl \<and> list_all2 (entry_matches tc) pl vs"
proof (cases p)
  case (LiteralPat l)
  then show ?thesis using assms literal_payload [OF assms(1-3), of l] by simp
next
  case (Constructor name as)
  then show ?thesis using assms(5) constructor_payload [OF assms(1-3)] by blast
next
  case (TuplePat ps)
  then show ?thesis using assms(5) tuple_payload [OF assms(1-3)] by blast
qed (use assms(4) in simp_all)

lemma payload_length:
  assumes "coverage_constructors tc t = Some cs" and "c \<in> set cs" and "coverage_head_payload p c = Some pl"
  shows "length pl = length (con_fields c)"
  using assms(1,2)
proof (cases rule: constructor_shapes)
  case (nominal name args info)
  then have "con_key c = RecordKey name" by (simp add: record_constructor_def Let_def)
  then show ?thesis using assms(3) by (auto simp: coverage_head_payload_def Let_def split: Pattern.splits if_splits)
qed (use assms(3) in \<open>auto simp: con_simps coverage_head_payload_def split: Pattern.splits Literal.splits if_splits\<close>)

section \<open>Literals of a matrix\<close>

fun plits :: "Pattern \<Rightarrow> Literal set" and alits :: "PatternArg \<Rightarrow> Literal set" where
  "plits (LiteralPat l) = {l}"
| "plits (Constructor _ as) = \<Union> (alits ` set as)"
| "plits (TuplePat ps) = \<Union> (plits ` set ps)"
| "plits (Group p) = plits p"
| "plits (OrPat ps) = \<Union> (plits ` set ps)"
| "plits _ = {}"
| "alits (Positional p) = plits p"
| "alits (Named _ p) = plits p"

lemma finite_plits [simp]: "finite (plits p)" "finite (alits a)"
  by (induction p and a rule: plits_alits.induct) auto

definition elits :: "Pattern option \<Rightarrow> Literal set" where
  "elits e = (case e of None \<Rightarrow> {} | Some p \<Rightarrow> plits p)"

lemma elits_simps [simp]: "elits None = {}" "elits (Some p) = plits p"
  by (simp_all add: elits_def)

definition row_lits :: "CoverageRow \<Rightarrow> Literal set" where
  "row_lits row = \<Union> (elits ` set row)"

lemma row_lits_simps [simp]:
  "row_lits [] = {}" "row_lits (e # row) = elits e \<union> row_lits row" "row_lits (a @ b) = row_lits a \<union> row_lits b"
  "row_lits (replicate n None) = {}"
  by (auto simp: row_lits_def)

lemma row_lits_drop: "row_lits (drop n row) \<subseteq> row_lits row"
  using set_drop_subset [of n row] by (force simp: row_lits_def)

definition rows_lits :: "CoverageRow list \<Rightarrow> Literal set" where
  "rows_lits rows = \<Union> (row_lits ` set rows)"

lemma finite_rows_lits [simp]: "finite (rows_lits rows)"
  by (auto simp: rows_lits_def row_lits_def elits_def split: option.splits)

lemma row_lits_positional: "row_lits (map Some (positional_args as)) \<subseteq> \<Union> (alits ` set as)"
  by (induction as) (auto simp: positional_args_def List.map_filter_simps split: PatternArg.splits)

lemma row_lits_pad: "row_lits (pad_row n row) \<subseteq> row_lits row"
proof -
  have "set (take n row) \<subseteq> set row" by (rule set_take_subset)
  then show ?thesis by (auto simp: pad_row_def row_lits_def)
qed

lemma row_lits_update: "row_lits (row[i := Some p]) \<subseteq> row_lits row \<union> plits p"
  using set_update_subset_insert [of row i "Some p"] by (force simp: row_lits_def)

lemma row_lits_assign: "row_lits (assign_field c a payload) \<subseteq> row_lits payload \<union> alits a"
proof (cases a)
  case (Named f p)
  show ?thesis using row_lits_update [of payload _ p] by (auto simp: Named assign_field_def split: option.splits)
qed (simp add: assign_field_def)

lemma row_lits_fold_assign: "row_lits (fold (assign_field c) as payload) \<subseteq> row_lits payload \<union> \<Union> (alits ` set as)"
proof (induction as arbitrary: payload)
  case (Cons a as)
  show ?case using Cons [of "assign_field c a payload"] row_lits_assign [of c a payload] by auto
qed simp

lemma row_lits_payload: "coverage_head_payload p c = Some pl \<Longrightarrow> row_lits pl \<subseteq> plits p"
proof (cases p)
  case (Constructor name as)
  assume "coverage_head_payload p c = Some pl"
  then have "pl = [] \<or> (\<exists>n. pl = pad_row n (map Some (positional_args as)))
      \<or> (\<exists>n. pl = fold (assign_field c) as (replicate n None))"
    by (auto simp: Constructor coverage_head_payload_def Let_def split: CoverageKey.splits if_splits)
  then show ?thesis
    using row_lits_pad row_lits_positional [of as] row_lits_fold_assign [of c as "replicate n None" for n]
    by (fastforce simp: Constructor)
next
  case (TuplePat ps)
  assume "coverage_head_payload p c = Some pl"
  then have "pl = pad_row (length (con_fields c)) (map Some ps)"
    by (auto simp: TuplePat coverage_head_payload_def Let_def split: CoverageKey.splits)
  moreover have "row_lits (map Some ps) = \<Union> (plits ` set ps)" by (auto simp: row_lits_def)
  ultimately show ?thesis using row_lits_pad [of "length (con_fields c)" "map Some ps"] by (simp add: TuplePat)
qed (auto simp: coverage_head_payload_def Let_def split: CoverageKey.splits Literal.splits if_splits)

section \<open>Expanding heads\<close>

lemma set_head_Cons [simp]: "set_head (e # row) p = Some p # row"
  by (simp add: set_head_def)

lemma row_head_Some: "row_head row = Some p \<longleftrightarrow> (\<exists>tl. row = Some p # tl)"
  by (auto simp: row_head_def split: list.splits option.splits)

definition plain_head :: "CoverageRow \<Rightarrow> bool" where
  "plain_head row \<longleftrightarrow> (case row_head row of Some (Group _) \<Rightarrow> False | Some (OrPat _) \<Rightarrow> False | _ \<Rightarrow> True)"

lemma head_cases:
  obtains (group) p where "row_head row = Some (Group p)"
  | (alternatives) ps where "row_head row = Some (OrPat ps)" | (plain) "plain_head row"
proof (cases "row_head row")
  case None
  then show ?thesis using plain by (simp add: plain_head_def)
next
  case (Some p)
  then show ?thesis using group alternatives plain by (cases p) (simp_all add: plain_head_def)
qed

lemma expand_loop_step:
  "expand_loop [] expanded = expanded"
  "row_head row = Some (Group p) \<Longrightarrow> expand_loop (pending @ [row]) expanded = expand_loop (pending @ [set_head row p]) expanded"
  "row_head row = Some (OrPat ps) \<Longrightarrow> expand_loop (pending @ [row]) expanded = expand_loop (pending @ map (set_head row) ps) expanded"
  "plain_head row \<Longrightarrow> expand_loop (pending @ [row]) expanded = expand_loop pending (expanded @ [row])"
  by (subst expand_loop.simps; auto simp: plain_head_def split: option.splits Pattern.splits)+

lemma expand_induct [case_names Nil Group Or Plain]:
  assumes "\<And>e. P [] e"
    and "\<And>pending row p e. row_head row = Some (Group p) \<Longrightarrow> P (pending @ [set_head row p]) e \<Longrightarrow> P (pending @ [row]) e"
    and "\<And>pending row ps e. row_head row = Some (OrPat ps) \<Longrightarrow> P (pending @ map (set_head row) ps) e \<Longrightarrow> P (pending @ [row]) e"
    and "\<And>pending row e. plain_head row \<Longrightarrow> P pending (e @ [row]) \<Longrightarrow> P (pending @ [row]) e"
  shows "P pending e"
proof (induction "sum_list (map head_weight pending)" arbitrary: pending e rule: less_induct)
  case (less pending e)
  show ?case
  proof (cases pending rule: rev_cases)
    case Nil
    then show ?thesis using assms(1) by simp
  next
    case (snoc rows row)
    have w: "sum_list (map head_weight pending) = sum_list (map head_weight rows) + head_weight row" by (simp add: snoc)
    have "P (rows @ [row]) e"
    proof (cases row rule: head_cases)
      case (group p)
      have "P (rows @ [set_head row p]) e" by (rule less) (use weight_group [OF group] w in simp)
      with group show ?thesis by (rule assms(2))
    next
      case (alternatives ps)
      have "P (rows @ map (set_head row) ps) e" by (rule less) (use weight_or [OF alternatives] w in \<open>simp add: o_def\<close>)
      with alternatives show ?thesis by (rule assms(3))
    next
      case plain
      have "P rows (e @ [row])" by (rule less) (use head_weight_pos [of row] w in simp)
      with plain show ?thesis by (rule assms(4))
    qed
    then show ?thesis by (simp add: snoc)
  qed
qed

text \<open>Whatever unwrapping a group and choosing an alternative keep holds of all expanded rows.\<close>

lemma expand_loop_all:
  assumes "\<And>p tl. P (Some (Group p) # tl) \<Longrightarrow> P (Some p # tl)"
    and "\<And>ps p tl. P (Some (OrPat ps) # tl) \<Longrightarrow> p \<in> set ps \<Longrightarrow> P (Some p # tl)"
  shows "list_all P pending \<Longrightarrow> list_all P expanded \<Longrightarrow> list_all P (expand_loop pending expanded)"
proof (induction pending expanded rule: expand_induct)
  case (Group pending row p e)
  then show ?case using assms(1) by (auto simp: expand_loop_step row_head_Some)
next
  case (Or pending row ps e)
  from Or(1) obtain tl where row: "row = Some (OrPat ps) # tl" by (auto simp: row_head_Some)
  have "list_all P (map (set_head row) ps)" using assms(2) [of ps tl] Or(3) by (auto simp: row list_all_iff)
  then show ?case using Or(2-4) by (simp add: expand_loop_step(3) [OF Or(1)])
qed (simp_all add: expand_loop_step)

lemma expand_loop_plain: "list_all plain_head expanded \<Longrightarrow> list_all plain_head (expand_loop pending expanded)"
  by (induction pending expanded rule: expand_induct) (simp_all add: expand_loop_step)

lemma expand_loop_matches:
  "(\<exists>row \<in> set (expand_loop pending expanded). row_matches tc row vs)
     \<longleftrightarrow> (\<exists>row \<in> set pending \<union> set expanded. row_matches tc row vs)"
proof (induction pending expanded rule: expand_induct)
  case (Group pending row p e)
  from Group(1) have "row_matches tc (set_head row p) vs = row_matches tc row vs"
    by (auto simp: row_head_Some row_matches_def list_all2_Cons1)
  with Group show ?case by (auto simp: expand_loop_step)
next
  case (Or pending row ps e)
  from Or(1) obtain tl where row: "row = Some (OrPat ps) # tl" by (auto simp: row_head_Some)
  have "(\<exists>p \<in> set ps. row_matches tc (set_head row p) vs) = row_matches tc row vs"
    by (cases vs) (simp_all add: row row_matches_def list_ex_iff)
  with Or(2) show ?case unfolding expand_loop_step(3) [OF Or(1)] by (simp add: bex_Un) blast
qed (auto simp: expand_loop_step)

lemma expand_matches:
  "(\<exists>row \<in> set (expand_coverage_heads rows). row_matches tc row vs) \<longleftrightarrow> (\<exists>row \<in> set rows. row_matches tc row vs)"
  using expand_loop_matches [of rows "[]" tc vs] by (simp add: expand_coverage_heads_def)

lemma expand_plain: "row \<in> set (expand_coverage_heads rows) \<Longrightarrow> plain_head row"
  using expand_loop_plain [of "[]" rows] by (simp add: expand_coverage_heads_def list_all_iff)

lemma expand_length:
  "list_all (\<lambda>row. length row = n) rows \<Longrightarrow> list_all (\<lambda>row. length row = n) (expand_coverage_heads rows)"
  unfolding expand_coverage_heads_def by (rule expand_loop_all) simp_all

lemma expand_lits: "rows_lits (expand_coverage_heads rows) \<subseteq> rows_lits rows"
proof -
  have "list_all (\<lambda>row. row_lits row \<subseteq> rows_lits rows) (expand_coverage_heads rows)"
    unfolding expand_coverage_heads_def by (rule expand_loop_all) (auto simp: list_all_iff rows_lits_def)
  then show ?thesis unfolding rows_lits_def [of "expand_coverage_heads rows"] by (auto simp: list_all_iff)
qed

text \<open>A row of the matrix once its head is expanded: an introduced or written wildcard, or a refutable pattern.\<close>

lemma plain_row_cases:
  assumes "plain_head row" and "length row = Suc n"
  obtains (wild) e tl where "row = e # tl" "coverage_row_head_is_wild row" "\<And>tc v. entry_matches tc e v"
  | (head) p tl where "row = Some p # tl" "refutable p" "\<not> coverage_row_head_is_wild row"
proof -
  obtain e tl where r: "row = e # tl" using assms(2) by (cases row) auto
  show thesis
  proof (cases e)
    case None
    then show ?thesis using wild [OF r] by (simp add: r coverage_row_head_is_wild_def coverage_head_is_wild_def row_head_def)
  next
    case (Some p)
    show ?thesis using assms(1) wild [OF r] head [of p tl]
      by (cases p) (simp_all add: plain_head_def r Some coverage_row_head_is_wild_def coverage_head_is_wild_def row_head_def)
  qed
qed

section \<open>Specialising a row\<close>

lemma row_matches_Cons [simp]: "row_matches tc (e # row) (v # vs) \<longleftrightarrow> entry_matches tc e v \<and> row_matches tc row vs"
  by (simp add: row_matches_def)

lemma row_matches_append:
  "length a = length vs \<Longrightarrow> row_matches tc (a @ b) (vs @ ws) \<longleftrightarrow> row_matches tc a vs \<and> row_matches tc b ws"
  by (simp add: row_matches_def list_all2_append)

lemma row_matches_wild [simp]: "length vs = n \<Longrightarrow> row_matches tc (replicate n None) vs"
  by (simp add: row_matches_def list_all2_conv_all_nth)

lemma specialize_wild:
  "coverage_row_head_is_wild row \<Longrightarrow>
     specialize_coverage_row row c = Some (replicate (length (con_fields c)) None @ drop 1 row)"
  by (simp add: specialize_coverage_row_def coverage_row_head_is_wild_def Let_def)

lemma specialize_head:
  "\<not> coverage_row_head_is_wild (Some p # r) \<Longrightarrow>
     specialize_coverage_row (Some p # r) c = map_option (\<lambda>pl. pl @ r) (coverage_head_payload p c)"
  by (simp add: specialize_coverage_row_def coverage_row_head_is_wild_def row_head_def split: option.splits)

lemma specialize_keeps_match:
  assumes "coverage_constructors tc t = Some cs" and "c \<in> set cs" and "length vs = length (con_fields c)"
    and "plain_head row" and "length row = Suc n" and "row_matches tc row (con_build t c vs # ws)"
  shows "\<exists>sp. specialize_coverage_row row c = Some sp \<and> row_matches tc sp (vs @ ws)"
  using assms(4,5)
proof (cases rule: plain_row_cases)
  case (wild e tl)
  then show ?thesis using assms(3,6) by (simp add: specialize_wild row_matches_append)
next
  case (head p tl)
  then have m: "pmatch tc p (con_build t c vs)" "row_matches tc tl ws" using assms(6) by simp_all
  obtain pl where "coverage_head_payload p c = Some pl" "list_all2 (entry_matches tc) pl vs"
    using pmatch_payload [OF assms(1-3) head(2) m(1)] by blast
  with m(2) head show ?thesis
    by (simp add: specialize_head row_matches_append row_matches_def list_all2_append list_all2_lengthD)
qed

lemma specialize_length:
  assumes "coverage_constructors tc t = Some cs" and "c \<in> set cs" and "length row = Suc n"
    and "specialize_coverage_row row c = Some sp"
  shows "length sp = length (con_fields c) + n"
  using assms(3,4) payload_length [OF assms(1,2)]
  by (auto simp: specialize_coverage_row_def Let_def Option.bind_eq_Some_conv split: if_splits option.splits)

lemma specialize_lits:
  assumes "specialize_coverage_row row c = Some sp"
  shows "row_lits sp \<subseteq> row_lits row"
proof (cases "coverage_row_head_is_wild row")
  case True
  then show ?thesis using assms row_lits_drop [of 1 row] by (auto simp: specialize_wild)
next
  case False
  then obtain p tl where r: "row = Some p # tl"
    by (auto simp: coverage_row_head_is_wild_def coverage_head_is_wild_def row_head_def split: list.splits option.splits)
  with False assms show ?thesis using row_lits_payload [of p c] by (fastforce simp: specialize_head)
qed

lemma set_specialize:
  "sp \<in> set (specialize_coverage_rows rows c) \<longleftrightarrow> (\<exists>row \<in> set rows. specialize_coverage_row row c = Some sp)"
  by (simp add: specialize_coverage_rows_def map_filter_iff)

lemma specialize_rows_length:
  assumes "coverage_constructors tc t = Some cs" and "c \<in> set cs" and "list_all (\<lambda>row. length row = Suc n) rows"
  shows "list_all (\<lambda>row. length row = length (con_fields c) + n) (specialize_coverage_rows rows c)"
proof -
  have "length sp = length (con_fields c) + n" if "row \<in> set rows" "specialize_coverage_row row c = Some sp" for row sp
    using specialize_length [OF assms(1,2) _ that(2)] that(1) assms(3) by (simp add: list_all_iff)
  then show ?thesis by (auto simp: list_all_iff set_specialize)
qed

lemma specialize_rows_lits: "rows_lits (specialize_coverage_rows rows c) \<subseteq> rows_lits rows"
  using specialize_lits unfolding rows_lits_def by (fastforce simp: set_specialize)

section \<open>A refusal exhibits an unmatched value\<close>

lemma literal_pigeonhole:
  assumes "finite L" and "card L < 256" and "\<forall>l m n. lit_matches l (f m) \<and> lit_matches l (f n) \<longrightarrow> m = n"
  shows "\<exists>n < 256. \<forall>l \<in> L. \<not> lit_matches l (f (n :: nat))"
proof (rule ccontr)
  assume "\<not> ?thesis"
  then have "\<forall>n. \<exists>l. n < 256 \<longrightarrow> l \<in> L \<and> lit_matches l (f n)" by blast
  then obtain g where g: "\<And>n. n < 256 \<Longrightarrow> g n \<in> L \<and> lit_matches (g n) (f n)" by metis
  have "inj_on g {..<256}" using g assms(3) by (intro inj_onI) (metis lessThan_iff)
  moreover have "g ` {..<256} \<subseteq> L" using g by auto
  ultimately have "card {..<256 :: nat} \<le> card L" using assms(1) card_inj_on_le by blast
  with assms(2) show False by simp
qed

lemma integer_window: "is_integer i \<Longrightarrow> \<exists>lo. \<forall>n < 256. lo + int n \<in> type_values 64 i"
  by (intro exI [of _ "if num_family (numeric_info_for i) = SignedInteger then - 128 else 0"])
    (cases i; simp add: is_integer_iff type_values_def)

lemma scalar_escape:
  assumes "coverage_column_is_open_scalar t" and "finite L" and "card L < 256"
  shows "\<exists>v \<in> scalar_values t. \<forall>l \<in> L. \<not> lit_matches l v"
proof -
  have ints: "\<exists>v \<in> VInt ` A. \<forall>l \<in> L. \<not> lit_matches l v" if "\<forall>n < 256. lo + int n \<in> A" for A lo
  proof -
    have "\<forall>l m n. lit_matches l (VInt (lo + int m)) \<and> lit_matches l (VInt (lo + int n)) \<longrightarrow> m = n"
      by (intro allI impI, elim conjE, case_tac l) auto
    from literal_pigeonhole [where f = "\<lambda>n. VInt (lo + int n)", OF assms(2,3) this] that show ?thesis by blast
  qed
  have strs: "\<exists>v \<in> VStr ` {s. valid_str s}. \<forall>l \<in> L. \<not> lit_matches l v"
  proof -
    have "\<forall>l m n. lit_matches l (VStr (replicate m 97)) \<and> lit_matches l (VStr (replicate n 97)) \<longrightarrow> m = n"
      by (intro allI impI, elim conjE, case_tac l) (auto simp: replicate_eq_replicate)
    from literal_pigeonhole [where f = "\<lambda>n. VStr (replicate n 97)", OF assms(2,3) this] obtain n where "\<forall>l \<in> L. \<not> lit_matches l (VStr (replicate n 97))" by blast
    moreover have "valid_str (replicate n 97)" by (simp add: valid_str_def valid_scalar_def list_all_iff)
    ultimately show ?thesis by blast
  qed
  have byts: "\<exists>v \<in> range VBytes. \<forall>l \<in> L. \<not> lit_matches l v"
  proof -
    have "\<forall>l m n. lit_matches l (VBytes (replicate m 0)) \<and> lit_matches l (VBytes (replicate n 0)) \<longrightarrow> m = n"
      by (intro allI impI, elim conjE, case_tac l) (auto simp: replicate_eq_replicate)
    from literal_pigeonhole [where f = "\<lambda>n. VBytes (replicate n 0)", OF assms(2,3) this] show ?thesis by blast
  qed
  have nan: "is_nan 0x7FF8000000000000" by (simp add: is_nan_def f64_exponent_def f64_mantissa_def)
  have "\<not> lit_matches l (VFloat 0x7FF8000000000000)" for l using nan by (cases l) (simp_all add: f64_eq_def)
  then have floats: "\<exists>v \<in> range VFloat. \<forall>l \<in> L. \<not> lit_matches l v" by blast
  have "\<not> lit_matches l (VOpaque 0)" for l by (cases l) simp_all
  then have opaques: "\<exists>v \<in> range VOpaque. \<forall>l \<in> L. \<not> lit_matches l v" by blast
  have i64: "\<forall>n < 256. 0 + int n \<in> {i. in_i64 i}" by (simp add: width_simps)
  show ?thesis
  proof (cases t)
    case (TyNumeric i)
    show ?thesis using ints integer_window [of i] floats opaques by (auto simp: TyNumeric)
  qed (use assms(1) ints [OF i64] strs byts floats in \<open>simp_all add: coverage_column_is_open_scalar_def\<close>)
qed

lemma not_exhaustive_cases:
  assumes "\<not> coverage_rows_exhaustive tc rows columns depth"
  obtains (no_column) "columns = []" "rows = []"
  | (wild) column others where "columns = column # others" "depth \<le> MAX_COVERAGE_DEPTH"
      "list_all coverage_row_head_is_wild (expand_coverage_heads rows)"
      "\<not> coverage_rows_exhaustive tc (map (drop 1) (expand_coverage_heads rows)) others (Suc depth)"
  | (scalar) column others where "columns = column # others" "depth \<le> MAX_COVERAGE_DEPTH"
      "coverage_column_is_open_scalar (borrowed_pattern_subject column)"
      "list_all (\<lambda>row. coverage_row_head_is_wild row \<or> literal_head row) (expand_coverage_heads rows)"
      "\<not> coverage_rows_exhaustive tc (map (drop 1) (filter coverage_row_head_is_wild (expand_coverage_heads rows)))
           others (Suc depth)"
  | (split) column others cs c where "columns = column # others" "depth \<le> MAX_COVERAGE_DEPTH"
      "coverage_constructors tc (borrowed_pattern_subject column) = Some cs" "c \<in> set cs"
      "\<not> coverage_rows_exhaustive tc (specialize_coverage_rows (expand_coverage_heads rows) c) (con_fields c @ others) (Suc depth)"
proof (cases columns)
  case Nil
  then show ?thesis using assms no_column by (subst (asm) coverage_rows_exhaustive.simps) simp
next
  case (Cons column others)
  have d: "depth \<le> MAX_COVERAGE_DEPTH"
    using assms by (subst (asm) coverage_rows_exhaustive.simps) (simp add: Cons not_less split: if_splits)
  show ?thesis
  proof (cases "list_all coverage_row_head_is_wild (expand_coverage_heads rows)")
    case True
    then show ?thesis using assms wild [OF Cons d] d

      by (subst (asm) coverage_rows_exhaustive.simps) (simp add: Cons Let_def flip: not_le)
  next
    case False
    then show ?thesis using assms scalar [OF Cons d] split [OF Cons d] d
      by (subst (asm) coverage_rows_exhaustive.simps)
        (auto simp: Cons Let_def list_all_iff split: option.splits if_splits)
  qed
qed

text \<open>
  A set of types that have values, closed under the payload types of their constructors.
\<close>

definition inhabited_on :: "TypeChecker \<Rightarrow> ResolvedType set \<Rightarrow> bool" where
  "inhabited_on tc S \<longleftrightarrow>
     (\<forall>t \<in> S. (\<exists>v. has_type tc t v)
        \<and> (\<forall>cs c. coverage_constructors tc (borrowed_pattern_subject t) = Some cs \<and> c \<in> set cs
              \<longrightarrow> set (con_fields c) \<subseteq> S))"

definition uncovered :: "TypeChecker \<Rightarrow> CoverageRow list \<Rightarrow> ResolvedType list \<Rightarrow> val list \<Rightarrow> bool" where
  "uncovered tc rows columns vs \<longleftrightarrow>
     list_all2 (has_type tc) columns vs \<and> \<not> (\<exists>row \<in> set rows. row_matches tc row vs)"

lemma uncovered_wild:
  assumes "uncovered tc (map (drop 1) (filter coverage_row_head_is_wild rows)) others vs"
    and "has_type tc column v" and "list_all (\<lambda>row. length row = Suc n) rows"
    and "\<And>row. row \<in> set rows \<Longrightarrow> \<not> coverage_row_head_is_wild row \<Longrightarrow> \<not> row_matches tc row (v # vs)"
  shows "uncovered tc rows (column # others) (v # vs)"
proof -
  have "\<not> row_matches tc row (v # vs)" if r: "row \<in> set rows" for row
  proof (cases "coverage_row_head_is_wild row")
    case True
    obtain e tl where "row = e # tl" by (cases row) (use r assms(3) in \<open>auto simp: list_all_iff\<close>)
    moreover have "\<not> row_matches tc (drop 1 row) vs" using assms(1) r True by (auto simp: uncovered_def)
    ultimately show ?thesis by simp
  next
    case False
    then show ?thesis using assms(4) r by blast
  qed
  then show ?thesis using assms(1,2) by (auto simp: uncovered_def)
qed

lemma uncovered_split:
  assumes "uncovered tc (specialize_coverage_rows rows c) (con_fields c @ others) us"
    and "coverage_constructors tc t = Some cs" and "c \<in> set cs"
    and "list_all (\<lambda>row. length row = Suc n) rows" and "list_all plain_head rows"
  shows "\<exists>vs ws. list_all2 (has_type tc) (con_fields c) vs \<and> uncovered tc rows (t # others) (con_build t c vs # ws)"
proof -
  obtain vs ws where us: "us = vs @ ws" "list_all2 (has_type tc) (con_fields c) vs" "list_all2 (has_type tc) others ws"
    using assms(1) by (auto simp: uncovered_def list_all2_append1)
  have len: "length vs = length (con_fields c)" using us(2) by (simp add: list_all2_lengthD)
  have "\<not> row_matches tc row (con_build t c vs # ws)" if r: "row \<in> set rows" for row
  proof
    assume m: "row_matches tc row (con_build t c vs # ws)"
    have "plain_head row" "length row = Suc n" using assms(4,5) r by (simp_all add: list_all_iff)
    from specialize_keeps_match [OF assms(2,3) len this m]
    obtain sp where "sp \<in> set (specialize_coverage_rows rows c)" "row_matches tc sp us"
      using r unfolding set_specialize us(1) by blast
    then show False using assms(1) unfolding uncovered_def by blast
  qed
  then show ?thesis using us(2,3) con_build_typed [OF assms(2,3) us(2)] by (auto simp: uncovered_def)
qed

lemma literal_head_Some: "literal_head row \<longleftrightarrow> (\<exists>l tl. row = Some (LiteralPat l) # tl)"
  by (auto simp: literal_head_def row_head_def split: list.splits option.splits Pattern.splits)

lemma refusal_uncovered:
  "\<not> coverage_rows_exhaustive tc rows columns depth \<Longrightarrow> inhabited_on tc S \<Longrightarrow> set columns \<subseteq> S
    \<Longrightarrow> card (rows_lits rows) < 256 \<Longrightarrow> list_all (\<lambda>row. length row = length columns) rows
    \<Longrightarrow> \<exists>vs. uncovered tc rows columns vs"
proof (induction "Suc MAX_COVERAGE_DEPTH - depth" arbitrary: rows columns depth rule: less_induct)
  case (less depth rows columns)
  let ?rows = "expand_coverage_heads rows"
  have expanded: "uncovered tc rows columns vs" if "uncovered tc ?rows columns vs" for vs
    using that expand_matches [of rows tc vs] by (simp add: uncovered_def)
  have lits: "card (rows_lits rows') < 256" if "rows_lits rows' \<subseteq> rows_lits ?rows" for rows'
    using card_mono [of "rows_lits rows" "rows_lits rows'"] that expand_lits [of rows] less.prems(4) by (simp add: order_trans)
  have len: "list_all (\<lambda>row. length row = length columns) ?rows" by (rule expand_length) (rule less.prems(5))
  have plain: "list_all plain_head ?rows" by (simp add: list_all_iff expand_plain)
  have dec: "depth \<le> MAX_COVERAGE_DEPTH \<Longrightarrow> Suc MAX_COVERAGE_DEPTH - Suc depth < Suc MAX_COVERAGE_DEPTH - depth" by linarith
  have tails: "rows_lits (map (drop 1) (filter P ?rows)) \<subseteq> rows_lits ?rows" for P
    using row_lits_drop unfolding rows_lits_def by fastforce
  show ?case using less.prems(1)
  proof (cases rule: not_exhaustive_cases)
    case no_column
    then show ?thesis by (intro exI [of _ "[]"]) (simp add: uncovered_def)
  next
    case (wild column others)
    obtain v where v: "has_type tc column v" using less.prems(2,3) wild(1) by (auto simp: inhabited_on_def)
    have all: "filter coverage_row_head_is_wild ?rows = ?rows" using wild(3) by (simp add: filter_id_conv list_all_iff)
    have "list_all (\<lambda>row. length row = length others) (map (drop 1) ?rows)" using len by (auto simp: wild(1) list_all_iff)
    moreover have "card (rows_lits (map (drop 1) ?rows)) < 256" using lits tails [of coverage_row_head_is_wild] by (simp add: all)
    ultimately obtain vs where "uncovered tc (map (drop 1) ?rows) others vs"
      using less.hyps [OF dec [OF wild(2)] wild(4) less.prems(2)] less.prems(3) wild(1,2) by auto
    then have "uncovered tc ?rows columns (v # vs)"
      unfolding wild(1) using v len wild(1,3) by (intro uncovered_wild [where n = "length others"]) (simp_all add: all list_all_iff)
    then show ?thesis using expanded by blast
  next
    case (scalar column others)
    obtain v where v: "v \<in> scalar_values (borrowed_pattern_subject column)" "\<forall>l \<in> rows_lits ?rows. \<not> lit_matches l v"
      using scalar_escape [OF scalar(3) finite_rows_lits lits [OF order_refl]] by blast
    then have ty: "has_type tc column v" using has_type_borrow ty_scalar by blast
    have "list_all (\<lambda>row. length row = length others) (map (drop 1) (filter coverage_row_head_is_wild ?rows))"
      using len by (auto simp: scalar(1) list_all_iff)
    then obtain vs where "uncovered tc (map (drop 1) (filter coverage_row_head_is_wild ?rows)) others vs"
      using less.hyps [OF dec [OF scalar(2)] scalar(5) less.prems(2) _ lits [OF tails]] less.prems(3) scalar(1,2) by auto
    moreover have "\<not> row_matches tc row (v # vs)" if r: "row \<in> set ?rows" "\<not> coverage_row_head_is_wild row" for row vs
    proof -
      obtain l tl where "row = Some (LiteralPat l) # tl" using r scalar(4) by (auto simp: list_all_iff literal_head_Some)
      moreover have "l \<in> rows_lits ?rows" using r(1) calculation by (force simp: rows_lits_def)
      ultimately show ?thesis using v(2) by simp
    qed
    ultimately have "uncovered tc ?rows columns (v # vs)"
      unfolding scalar(1) using ty len scalar(1) by (intro uncovered_wild [where n = "length others"]) simp_all
    then show ?thesis using expanded by blast
  next
    case (split column others cs c)
    have sub: "set (con_fields c @ others) \<subseteq> S"
      using less.prems(2,3) split(1,3,4) by (auto simp: inhabited_on_def)
    have l1: "list_all (\<lambda>row. length row = Suc (length others)) ?rows" using len by (simp add: split(1))
    from specialize_rows_length [OF split(3,4) l1]
    have "list_all (\<lambda>row. length row = length (con_fields c @ others)) (specialize_coverage_rows ?rows c)" by simp
    then obtain us where "uncovered tc (specialize_coverage_rows ?rows c) (con_fields c @ others) us"
      using less.hyps [OF dec [OF split(2)] split(5) less.prems(2) sub] split(2) lits [OF specialize_rows_lits] by auto
    from uncovered_split [OF this split(3,4) l1 plain]
    obtain vs ws where "uncovered tc ?rows (borrowed_pattern_subject column # others) (con_build (borrowed_pattern_subject column) c vs # ws)"
      by blast
    then have "uncovered tc ?rows columns (con_build (borrowed_pattern_subject column) c vs # ws)"
      by (simp add: uncovered_def has_type_borrow split(1))
    then show ?thesis using expanded by blast
  qed
qed

section \<open>An accepted match leaves no value out\<close>

text \<open>
  Patterns that fit their column: literals on scalar columns, constructors that name a constructor of
  the column with sub-patterns that fit its payload, tuples of the column's width, and records whose
  named fields exist and are named once.
\<close>

definition arg_slot :: "TypeChecker \<Rightarrow> rstr \<Rightarrow> PatternArg \<Rightarrow> nat option" where
  "arg_slot tc n a = (case a of Positional _ \<Rightarrow> None | Named f _ \<Rightarrow> field_slot tc n f)"

definition names_constructor :: "rstr \<Rightarrow> CoverageConstructor \<Rightarrow> bool" where
  "names_constructor name c \<longleftrightarrow> coverage_head_payload (Constructor name []) c \<noteq> None"

fun pattern_ok :: "TypeChecker \<Rightarrow> ResolvedType \<Rightarrow> Pattern \<Rightarrow> bool"
and arg_ok :: "TypeChecker \<Rightarrow> rstr \<Rightarrow> ResolvedType list \<Rightarrow> PatternArg \<Rightarrow> bool" where
  "pattern_ok tc t Wildcard = True"
| "pattern_ok tc t (Binding _) = True"
| "pattern_ok tc t (Group p) = pattern_ok tc t p"
| "pattern_ok tc t (OrPat ps) = list_all (pattern_ok tc t) ps"
| "pattern_ok tc t (LiteralPat l) =
     (case l of
        BoolLit _ \<Rightarrow> borrowed_pattern_subject t = TyBool
      | NoneLit \<Rightarrow> is_option (borrowed_pattern_subject t)
      | _ \<Rightarrow> coverage_column_is_open_scalar (borrowed_pattern_subject t))"
| "pattern_ok tc t (TuplePat ps) =
     (case tuple_items (borrowed_pattern_subject t) of
        Some ts \<Rightarrow> length ps = length ts \<and> list_all (\<lambda>(p, t). pattern_ok tc t p) (zip ps ts)
      | None \<Rightarrow> False)"
| "pattern_ok tc t (Constructor name as) =
     (case coverage_constructors tc (borrowed_pattern_subject t) of
        None \<Rightarrow> False
      | Some cs \<Rightarrow>
          list_ex (names_constructor name) cs
          \<and> list_all
              (\<lambda>c. names_constructor name c \<longrightarrow>
                 (case con_key c of
                    RecordKey n \<Rightarrow> list_all (arg_ok tc n (con_fields c)) as \<and> distinct (map (arg_slot tc n) as)
                  | _ \<Rightarrow> list_all (\<lambda>(p, t). pattern_ok tc t p) (zip (positional_args as) (con_fields c))))
              cs)"
| "arg_ok tc n ts (Positional p) = False"
| "arg_ok tc n ts (Named f p) =
     (case field_slot tc n f of Some i \<Rightarrow> i < length ts \<and> pattern_ok tc (ts ! i) p | None \<Rightarrow> False)"

definition entry_ok :: "TypeChecker \<Rightarrow> ResolvedType \<Rightarrow> Pattern option \<Rightarrow> bool" where
  "entry_ok tc t e = (case e of None \<Rightarrow> True | Some p \<Rightarrow> pattern_ok tc t p)"

lemma entry_ok_simps [simp]: "entry_ok tc t None" "entry_ok tc t (Some p) = pattern_ok tc t p"
  by (simp_all add: entry_ok_def)

abbreviation row_ok :: "TypeChecker \<Rightarrow> ResolvedType list \<Rightarrow> CoverageRow \<Rightarrow> bool" where
  "row_ok tc columns row \<equiv> list_all2 (entry_ok tc) columns row"

lemma row_ok_wild [simp]: "row_ok tc ts (replicate n None) \<longleftrightarrow> length ts = n"
  by (auto simp: list_all2_conv_all_nth)

lemma row_ok_tail: "row_ok tc (t # ts) row \<Longrightarrow> row_ok tc ts (drop 1 row)"
  by (auto simp: list_all2_Cons1)

lemma row_ok_pad:
  "list_all (\<lambda>(p, t). pattern_ok tc t p) (zip ps ts) \<Longrightarrow> row_ok tc ts (pad_row (length ts) (map Some ps))"
proof (induction ps arbitrary: ts)
  case Nil
  then show ?case by (simp add: pad_row_def)
next
  case (Cons p ps)
  show ?case
  proof (cases ts)
    case Nil
    then show ?thesis by (simp add: pad_row_def)
  next
    case (Cons u us)
    with Cons.prems Cons.IH [of us] show ?thesis by (simp add: pad_row_def)
  qed
qed

lemma names_constructor_payload:
  "coverage_head_payload (Constructor name as) c \<noteq> None \<longleftrightarrow> names_constructor name c"
  by (auto simp: names_constructor_def coverage_head_payload_def Let_def split: CoverageKey.splits)

lemma fold_assign_ok:
  assumes "nominal_info tc n = Some info"
  shows "list_all (arg_ok tc n ts) as \<Longrightarrow> row_ok tc ts payload
    \<Longrightarrow> row_ok tc ts (fold (assign_field (record_constructor n info args)) as payload)"
proof (induction as arbitrary: payload)
  case (Cons a as)
  obtain f p where a: "a = Named f p" using Cons.prems(1) by (cases a) auto
  have "row_ok tc ts (assign_field (record_constructor n info args) a payload)"
    using Cons.prems by (auto simp: a assign_field_named [OF assms] list_all2_conv_all_nth nth_list_update split: option.splits)
  with Cons.IH Cons.prems(1) show ?case by simp
qed simp

lemma fold_assign_other:
  assumes "nominal_info tc n = Some info"
  shows "Some i \<notin> set (map (arg_slot tc n) as) \<Longrightarrow>
    fold (assign_field (record_constructor n info args)) as payload ! i = payload ! i"
proof (induction as arbitrary: payload)
  case (Cons a as)
  have "assign_field (record_constructor n info args) a payload ! i = payload ! i"
  proof (cases a)
    case (Positional p)
    then show ?thesis by (simp add: assign_field_def)
  next
    case (Named f p)
    then show ?thesis using Cons.prems by (auto simp: assign_field_named [OF assms] arg_slot_def split: option.splits)
  qed
  with Cons show ?case by simp
qed simp

lemma fold_assign_slot:
  assumes "nominal_info tc n = Some info"
  shows "distinct (map (arg_slot tc n) as) \<Longrightarrow> Named f p \<in> set as \<Longrightarrow> field_slot tc n f = Some i \<Longrightarrow> i < length payload
    \<Longrightarrow> fold (assign_field (record_constructor n info args)) as payload ! i = Some p"
proof (induction as arbitrary: payload)
  case (Cons a as)
  show ?case
  proof (cases "a = Named f p")
    case True
    then have "Some i \<notin> set (map (arg_slot tc n) as)" using Cons.prems(1,3) by (auto simp: arg_slot_def)
    from fold_assign_other [OF assms this] show ?thesis
      using Cons.prems(3,4) by (simp add: True assign_field_named [OF assms])
  next
    case False
    then show ?thesis using Cons.IH Cons.prems by simp
  qed
qed simp

lemma record_shape:
  assumes "coverage_constructors tc t = Some cs" and "c \<in> set cs" and "con_key c = RecordKey n"
  obtains info args where "nominal_info tc n = Some info" "c = record_constructor n info args"
  using assms(1,2)
proof (cases rule: constructor_shapes)
  case (nominal name args info)
  have "name = n" using assms(3) nominal(3) by (simp add: record_constructor_def Let_def)
  with nominal(2,3) show ?thesis using that by blast
qed (use assms(3) in \<open>simp_all add: unit_constructor_def variant_constructor_def\<close>)

lemma constructor_pattern_ok:
  assumes "coverage_constructors tc (borrowed_pattern_subject t) = Some cs" and "c \<in> set cs"
    and "pattern_ok tc t (Constructor name as)" and "names_constructor name c"
  shows "case con_key c of
      RecordKey n \<Rightarrow> list_all (arg_ok tc n (con_fields c)) as \<and> distinct (map (arg_slot tc n) as)
    | _ \<Rightarrow> list_all (\<lambda>(p, t). pattern_ok tc t p) (zip (positional_args as) (con_fields c))"
  using assms by (simp add: list_all_iff)

lemma constructor_payload_cases:
  assumes "coverage_head_payload (Constructor name as) c = Some pl"
  obtains (variant) sp where "con_key c = Variant sp" "path_tail name \<in> set sp"
      "pl = pad_row (length (con_fields c)) (map Some (positional_args as))"
  | (none) "con_key c = OptionNone" "path_tail name = lit ''None''" "pl = []"
  | (nominal) n where "con_key c = RecordKey n" "path_tail name = n"
      "pl = fold (assign_field c) as (replicate (length (con_fields c)) None)"
  using assms by (auto simp: coverage_head_payload_def Let_def constructor_from_str_None_iff split: CoverageKey.splits if_splits)

lemma payload_ok:
  assumes "coverage_constructors tc (borrowed_pattern_subject t) = Some cs" and "c \<in> set cs"
    and "pattern_ok tc t p" and "coverage_head_payload p c = Some pl"
  shows "row_ok tc (con_fields c) pl"
proof (cases p)
  case (LiteralPat l)
  then have "pl = []" using assms(4)
    by (auto simp: coverage_head_payload_def Let_def split: CoverageKey.splits Literal.splits if_splits)
  then show ?thesis using payload_length [OF assms(1,2,4)] by simp
next
  case (TuplePat ps)
  then obtain ts where ts: "tuple_items (borrowed_pattern_subject t) = Some ts" "list_all (\<lambda>(p, t). pattern_ok tc t p) (zip ps ts)"
    using assms(3) by (auto split: option.splits)
  then have "con_fields c = ts" using assms(1,2) enumerable_options(3) [OF ts(1)] by auto
  moreover have "pl = pad_row (length (con_fields c)) (map Some ps)"
    using assms(4) by (auto simp: TuplePat coverage_head_payload_def Let_def split: CoverageKey.splits)
  ultimately show ?thesis using row_ok_pad [OF ts(2)] by simp
next
  case (Constructor name as)
  have named: "names_constructor name c" using names_constructor_payload [of name as c] assms(4) by (simp add: Constructor)
  note ok = constructor_pattern_ok [OF assms(1,2) assms(3) [unfolded Constructor] named]
  show ?thesis using assms(4) [unfolded Constructor]
  proof (cases rule: constructor_payload_cases)
    case (variant sp)
    then show ?thesis using ok by (simp add: row_ok_pad)
  next
    case none
    then show ?thesis using payload_length [OF assms(1,2,4)] by simp
  next
    case (nominal n)
    obtain info args where "nominal_info tc n = Some info" "c = record_constructor n info args"
      using record_shape [OF assms(1,2) nominal(1)] .
    with nominal(1,3) ok show ?thesis using fold_assign_ok [of tc n info "con_fields c" as _ args] by simp
  qed
qed (use assms(4) in \<open>simp_all add: coverage_head_payload_def Let_def split: CoverageKey.splits\<close>)

lemma nominal_match:
  assumes "nominal_info tc n = Some info" and "list_all (arg_ok tc n ts) as" and "distinct (map (arg_slot tc n) as)"
    and "length vs = length ts"
    and "list_all2 (entry_matches tc) (fold (assign_field (record_constructor n info args)) as (replicate (length ts) None)) vs"
  shows "list_all (amatch tc n vs) as"
proof -
  have "amatch tc n vs a" if a: "a \<in> set as" for a
  proof -
    have "arg_ok tc n ts a" using assms(2) a by (simp add: list_all_iff)
    then obtain f p i where f: "a = Named f p" "field_slot tc n f = Some i" "i < length ts"
      by (cases a) (auto split: option.splits)
    from fold_assign_slot [OF assms(1,3), of f p i "replicate (length ts) None" args] a f
    have "fold (assign_field (record_constructor n info args)) as (replicate (length ts) None) ! i = Some p" by simp
    with list_all2_nthD2 [OF assms(5), of i] assms(4) f show ?thesis by simp
  qed
  then show ?thesis by (simp add: list_all_iff)
qed

lemma payload_pmatch:
  assumes "coverage_constructors tc (borrowed_pattern_subject t) = Some cs" and "c \<in> set cs"
    and "length vs = length (con_fields c)" and "pattern_ok tc t p" and "coverage_head_payload p c = Some pl"
    and "list_all2 (entry_matches tc) pl vs"
  shows "pmatch tc p (con_build (borrowed_pattern_subject t) c vs)"
proof (cases p)
  case (LiteralPat l)
  then show ?thesis using literal_payload [OF assms(1-3), of l] assms(5,6) by auto
next
  case (TuplePat ps)
  then obtain ts where ts: "tuple_items (borrowed_pattern_subject t) = Some ts" "length ps = length ts"
    using assms(4) by (auto split: option.splits)
  then have c: "con_key c = TupleKey" "con_fields c = ts" using assms(1,2) enumerable_options(3) [OF ts(1)] by auto
  then have "pl = pad_row (length vs) (map Some ps)"
    using assms(3,5) by (auto simp: TuplePat coverage_head_payload_def Let_def)
  then show ?thesis using assms(3,6) ts(2) c by (simp add: TuplePat con_build_def pad_row_match)
next
  case (Constructor name as)
  have named: "names_constructor name c" using names_constructor_payload [of name as c] assms(5) by (simp add: Constructor)
  note ok = constructor_pattern_ok [OF assms(1,2) assms(4) [unfolded Constructor] named]
  show ?thesis using assms(5) [unfolded Constructor]
  proof (cases rule: constructor_payload_cases)
    case (variant sp)
    have m: "list_all (\<lambda>(p, w). pmatch tc p w) (zip (positional_args as) vs)"
      using assms(3,6) variant(3) by (simp add: pad_row_match)
    show ?thesis using assms(1,2)
    proof (cases rule: constructor_shapes)
      case (enum tn args info v)
      have "names_variant tc tn v (path_tail name)"
        using variant(1,2) enum(4) names_variant_iff [OF enum(2), of "path_tail name" v] by (simp add: variant_constructor_def)
      then show ?thesis using m enum view_exclusive(4) [OF enum(1)] by (simp add: Constructor con_simps)
    next
      case ok
      then show ?thesis using variant m assms(3) view_exclusive(2) [OF ok(1)]
        by (auto simp: Constructor con_simps length_Suc_conv)
    next
      case err
      then show ?thesis using variant m assms(3) view_exclusive(2) [OF err(1)]
        by (auto simp: Constructor con_simps length_Suc_conv)
    next
      case some
      then show ?thesis using variant m assms(3) by (auto simp: Constructor con_simps length_Suc_conv)
    qed (use variant in \<open>simp_all add: con_simps\<close>)
  next
    case none
    then show ?thesis by (simp add: Constructor con_build_def)
  next
    case (nominal n)
    obtain info args where c: "nominal_info tc n = Some info" "c = record_constructor n info args"
      using record_shape [OF assms(1,2) nominal(1)] .
    have "list_all (amatch tc n vs) as"
      using nominal_match [OF c(1), of "con_fields c" as vs args] ok assms(3,6) nominal(1,3) c(2) by simp
    then show ?thesis using nominal by (simp add: Constructor con_build_def)
  qed
qed (use assms(5) in \<open>simp_all add: coverage_head_payload_def Let_def split: CoverageKey.splits\<close>)

lemma ok_not_enumerable:
  assumes "coverage_constructors tc (borrowed_pattern_subject t) = None" and "refutable p" and "pattern_ok tc t p"
  shows "(\<exists>l. p = LiteralPat l) \<and> coverage_column_is_open_scalar (borrowed_pattern_subject t)"
proof (cases p)
  case (LiteralPat l)
  have "\<not> is_option (borrowed_pattern_subject t)" using assms(1) enumerable_options(1) by force
  moreover have "borrowed_pattern_subject t \<noteq> TyBool" using assms(1) by (auto simp: coverage_constructors_def)
  ultimately show ?thesis using assms(3) by (cases l) (simp_all add: LiteralPat)
next
  case (TuplePat ps)
  then show ?thesis using assms(1,3) enumerable_options(3) by (auto split: option.splits)
qed (use assms in simp_all)

lemma ok_placed:
  assumes "coverage_constructors tc (borrowed_pattern_subject t) = Some cs" and "refutable p" and "pattern_ok tc t p"
  shows "list_ex (\<lambda>c. coverage_head_payload p c \<noteq> None) cs"
proof (cases p)
  case (LiteralPat l)
  have "\<not> coverage_column_is_open_scalar (borrowed_pattern_subject t)"
    using assms(1) by (auto simp: coverage_column_is_open_scalar_def coverage_constructors_def type_views split: ResolvedType.splits)
  then consider b where "l = BoolLit b" "borrowed_pattern_subject t = TyBool" | "l = NoneLit" "is_option (borrowed_pattern_subject t)"
    using assms(3) by (cases l) (auto simp: LiteralPat)
  then show ?thesis
  proof cases
    case (1 b)
    then show ?thesis using assms(1)
      by (auto simp: LiteralPat coverage_constructors_def coverage_head_payload_def unit_constructor_def)
  next
    case 2
    then show ?thesis using assms(1) enumerable_options(1) [OF 2(2), of tc]
      by (auto simp: LiteralPat coverage_head_payload_def unit_constructor_def)
  qed
next
  case (TuplePat ps)
  then show ?thesis using assms(1,3) enumerable_options(3) by (auto simp: coverage_head_payload_def split: option.splits)
next
  case (Constructor name as)
  then show ?thesis using assms(1,3) names_constructor_payload [of name as] by (simp add: list_ex_iff)
qed (use assms(2) in simp_all)

lemma expand_ok: "list_all (row_ok tc columns) rows \<Longrightarrow> list_all (row_ok tc columns) (expand_coverage_heads rows)"
  unfolding expand_coverage_heads_def
  by (rule expand_loop_all) (auto simp: list_all2_Cons2 list_all_iff)

lemma specialize_ok:
  assumes "coverage_constructors tc (borrowed_pattern_subject t) = Some cs" and "c \<in> set cs"
    and "row_ok tc (t # others) row" and "specialize_coverage_row row c = Some sp"
  shows "row_ok tc (con_fields c @ others) sp"
proof -
  obtain e tl where row: "row = e # tl" "entry_ok tc t e" "row_ok tc others tl" using assms(3) by (auto simp: list_all2_Cons1)
  show ?thesis
  proof (cases "coverage_row_head_is_wild row")
    case True
    then have "sp = replicate (length (con_fields c)) None @ tl" using assms(4) by (simp add: specialize_wild row(1))
    then show ?thesis using row(3) by (simp add: list_all2_appendI)
  next
    case False
    then obtain p where e: "e = Some p" by (cases e) (auto simp: row(1) coverage_row_head_is_wild_def coverage_head_is_wild_def row_head_def)
    then obtain pl where "coverage_head_payload p c = Some pl" "sp = pl @ tl"
      using assms(4) False by (auto simp: row(1) specialize_head)
    then show ?thesis using payload_ok [OF assms(1,2)] row(2,3) by (simp add: e list_all2_appendI)
  qed
qed

lemma specialize_rows_ok:
  assumes "coverage_constructors tc (borrowed_pattern_subject t) = Some cs" and "c \<in> set cs"
    and "list_all (row_ok tc (t # others)) rows"
  shows "list_all (row_ok tc (con_fields c @ others)) (specialize_coverage_rows rows c)"
proof -
  have "row_ok tc (con_fields c @ others) sp" if "row \<in> set rows" "specialize_coverage_row row c = Some sp" for row sp
    using specialize_ok [OF assms(1,2) _ that(2)] that(1) assms(3) by (simp add: list_all_iff)
  then show ?thesis by (auto simp: list_all_iff set_specialize)
qed

lemma specialize_reflects_match:
  assumes "coverage_constructors tc (borrowed_pattern_subject t) = Some cs" and "c \<in> set cs"
    and "length vs = length (con_fields c)" and "plain_head row" and "row_ok tc (t # others) row"
    and "specialize_coverage_row row c = Some sp" and "row_matches tc sp (vs @ ws)"
  shows "row_matches tc row (con_build (borrowed_pattern_subject t) c vs # ws)"
proof -
  have "length row = Suc (length others)" using assms(5) by (simp add: list_all2_lengthD [symmetric])
  from assms(4) this show ?thesis
  proof (cases rule: plain_row_cases)
    case (wild e tl)
    then show ?thesis using assms(3,6,7) by (auto simp: specialize_wild row_matches_append)
  next
    case (head p tl)
    then obtain pl where pl: "coverage_head_payload p c = Some pl" "sp = pl @ tl" using assms(6) by (auto simp: specialize_head)
    have "row_matches tc pl vs" "row_matches tc tl ws"
      using assms(3,7) pl payload_length [OF assms(1,2) pl(1)] by (simp_all add: row_matches_append)
    then show ?thesis using payload_pmatch [OF assms(1-3) _ pl(1)] assms(5) head(1) by (simp add: row_matches_def)
  qed
qed

lemma acceptance_covers:
  "coverage_rows_exhaustive tc rows columns depth \<Longrightarrow> list_all (row_ok tc columns) rows
    \<Longrightarrow> list_all2 (has_type tc) columns vs \<Longrightarrow> depth + sum_list (map val_nodes vs) \<le> Suc MAX_COVERAGE_DEPTH
    \<Longrightarrow> \<exists>row \<in> set rows. row_matches tc row vs"
proof (induction "sum_list (map val_nodes vs)" arbitrary: rows columns depth vs rule: less_induct)
  case (less vs rows columns depth)
  let ?rows = "expand_coverage_heads rows"
  show ?case
  proof (cases columns)
    case Nil
    then obtain row where "row \<in> set rows" "row = []" "vs = []"
      using less.prems(1-3) by (subst (asm) coverage_rows_exhaustive.simps) (auto simp: list_all_iff neq_Nil_conv)
    then show ?thesis by (auto simp: row_matches_def)
  next
    case (Cons column others)
    then obtain v ws where vs: "vs = v # ws" "has_type tc column v" "list_all2 (has_type tc) others ws"
      using less.prems(3) by (auto simp: list_all2_Cons1)
    have d: "depth \<le> MAX_COVERAGE_DEPTH" and dec: "sum_list (map val_nodes ws) < sum_list (map val_nodes vs)"
      and room: "Suc depth + sum_list (map val_nodes ws) \<le> Suc MAX_COVERAGE_DEPTH"
      using less.prems(4) val_nodes_pos [of v] by (simp_all add: vs(1))
    have ok: "row_ok tc (column # others) row" "plain_head row" if "row \<in> set ?rows" for row
      using expand_ok [OF less.prems(2)] that by (simp_all add: Cons list_all_iff expand_plain)
    have goal: "\<exists>row \<in> set rows. row_matches tc row vs" if "row \<in> set ?rows" "row_matches tc row vs" for row
      using that expand_matches [of rows tc vs] by blast
    have wilds: "\<exists>row \<in> set rows. row_matches tc row vs"
      if ex: "coverage_rows_exhaustive tc (map (drop 1) (filter coverage_row_head_is_wild ?rows)) others (Suc depth)"
    proof -
      have "list_all (row_ok tc others) (map (drop 1) (filter coverage_row_head_is_wild ?rows))"
        using row_ok_tail [OF ok(1)] by (auto simp: list_all_iff)
      from less.hyps [OF dec ex this vs(3) room] obtain row where
        r: "row \<in> set ?rows" "coverage_row_head_is_wild row" "row_matches tc (drop 1 row) ws" by auto
      obtain e tl where e: "row = e # tl" using ok(1) [OF r(1)] by (auto simp: list_all2_Cons1)
      have "entry_matches tc e v"
        using r(2) by (auto simp: e coverage_row_head_is_wild_def coverage_head_is_wild_def row_head_def split: option.splits Pattern.splits)
      with r e show ?thesis by (intro goal [of row]) (simp_all add: vs(1))
    qed
    show ?thesis
    proof (cases "list_all coverage_row_head_is_wild ?rows")
      case True
      then have "filter coverage_row_head_is_wild ?rows = ?rows" by (simp add: filter_id_conv list_all_iff)
      then show ?thesis using less.prems(1) wilds True d
        by (subst (asm) coverage_rows_exhaustive.simps) (simp add: Cons Let_def flip: not_le)
    next
      case nonwild: False
      have head: "\<exists>p. row_head row = Some p \<and> refutable p \<and> pattern_ok tc column p"
        if r: "row \<in> set ?rows" "\<not> coverage_row_head_is_wild row" for row
      proof -
        have "length row = Suc (length others)" using ok(1) [OF r(1)] by (simp add: list_all2_lengthD [symmetric])
        with ok(2) [OF r(1)] show ?thesis
          using ok(1) [OF r(1)] r(2) by (cases rule: plain_row_cases) (auto simp: row_head_def)
      qed
      show ?thesis
      proof (cases "coverage_constructors tc (borrowed_pattern_subject column)")
        case None
        have h: "literal_head row \<and> coverage_column_is_open_scalar (borrowed_pattern_subject column)"
          if r: "row \<in> set ?rows" "\<not> coverage_row_head_is_wild row" for row
        proof -
          obtain p where p: "row_head row = Some p" "refutable p" "pattern_ok tc column p" using head [OF r] by blast
          from ok_not_enumerable [OF None p(2,3)] show ?thesis by (auto simp: literal_head_def p(1))
        qed
        then have "list_all (\<lambda>row. coverage_row_head_is_wild row \<or> literal_head row) ?rows" by (auto simp: list_all_iff)
        moreover have "coverage_column_is_open_scalar (borrowed_pattern_subject column)"
          using nonwild h by (auto simp: list_all_iff)
        ultimately show ?thesis using less.prems(1) wilds nonwild d None
          by (subst (asm) coverage_rows_exhaustive.simps) (simp add: Cons Let_def flip: not_le)
      next
        case (Some cs)
        have "list_all (head_is_placed cs) ?rows"
          using head ok_placed [OF Some] by (force simp: list_all_iff head_is_placed_def)
        then have "list_all (\<lambda>c. coverage_rows_exhaustive tc (specialize_coverage_rows ?rows c)
            (con_fields c @ others) (Suc depth)) cs"
          using less.prems(1) nonwild d Some
          by (subst (asm) coverage_rows_exhaustive.simps) (simp add: Cons Let_def flip: not_le)
        then have ex: "coverage_rows_exhaustive tc (specialize_coverage_rows ?rows c) (con_fields c @ others) (Suc depth)"
          if "c \<in> set cs" for c using that by (simp add: list_all_iff)
        have "has_type tc (borrowed_pattern_subject column) v" using vs(2) by (simp add: has_type_borrow)
        from typed_built_by [OF Some this] obtain c us where c: "c \<in> set cs" "list_all2 (has_type tc) (con_fields c) us"
          "v = con_build (borrowed_pattern_subject column) c us" "val_nodes v = Suc (sum_list (map val_nodes us))"
          by (auto simp: built_by_def)
        have rows: "list_all (row_ok tc (con_fields c @ others)) (specialize_coverage_rows ?rows c)"
          by (rule specialize_rows_ok [OF Some c(1)]) (simp add: list_all_iff ok(1))
        have ty: "list_all2 (has_type tc) (con_fields c @ others) (us @ ws)" using c(2) vs(3) by (rule list_all2_appendI)
        have "sum_list (map val_nodes (us @ ws)) < sum_list (map val_nodes vs)" by (simp add: vs(1) c(4))
        from less.hyps [OF this ex [OF c(1)] rows ty] less.prems(4)
        obtain sp where "sp \<in> set (specialize_coverage_rows ?rows c)" "row_matches tc sp (us @ ws)"
          by (auto simp: vs(1) c(4))
        then obtain row where r: "row \<in> set ?rows" "specialize_coverage_row row c = Some sp" "row_matches tc sp (us @ ws)"
          by (auto simp: set_specialize)
        have "length us = length (con_fields c)" using c(2) by (simp add: list_all2_lengthD)
        from specialize_reflects_match [OF Some c(1) this ok(2) [OF r(1)] ok(1) [OF r(1)] r(2,3)]
        show ?thesis using goal [OF r(1)] by (simp add: vs(1) c(3))
      qed
    qed
  qed
qed

section \<open>Properties\<close>

text \<open>A checker without declared types, and arms over \<open>Option[int]\<close>, for the concrete instances below.\<close>

definition empty_checker :: TypeChecker where
  "empty_checker = \<lparr>type_infos = (\<lambda>_. None)\<rparr>"

definition int_option :: ResolvedType where
  "int_option = TyGeneric (lit ''Option'') [TyInt]"

definition int_literal :: "nat \<Rightarrow> Literal" where
  "int_literal n = IntLit \<lparr>int_value = int n, int_magnitude = n, int_repr = show_nat n, int_suffix = None\<rparr>"

definition arm :: "Pattern \<Rightarrow> MatchArm" where
  "arm p = \<lparr>arm_pattern = p, arm_guarded = False\<rparr>"

definition some_pattern :: "Pattern \<Rightarrow> Pattern" where
  "some_pattern p = Constructor (lit ''Some'') [Positional p]"

lemma int_option_constructors:
  "coverage_constructors empty_checker int_option
     = Some [variant_constructor (lit ''Some'') [] [TyInt], unit_constructor OptionNone]"
  "coverage_constructors empty_checker TyInt = None" "is_option int_option" "borrowed_pattern_subject int_option = int_option"
  by code_simp+

lemma int_option_inhabited: "inhabited_on empty_checker {int_option, TyInt}"
proof -
  have "has_type empty_checker TyInt (VInt 0)" by (rule ty_scalar) (simp add: width_simps)
  moreover have "has_type empty_checker int_option VNone" by (rule ty_none) (rule int_option_constructors)
  ultimately show ?thesis
    by (auto simp: inhabited_on_def int_option_constructors variant_constructor_def unit_constructor_def)
qed

definition arm_rows :: "MatchArm list \<Rightarrow> CoverageRow list" where
  "arm_rows arms = map (\<lambda>arm. [Some (arm_pattern arm)]) (filter (\<lambda>arm. \<not> arm_guarded arm) arms)"

definition arm_lits :: "MatchArm list \<Rightarrow> Literal set" where
  "arm_lits arms = (\<Union>arm \<in> set arms. plits (arm_pattern arm))"

definition unmatched :: "TypeChecker \<Rightarrow> MatchArm list \<Rightarrow> val \<Rightarrow> bool" where
  "unmatched tc arms v \<longleftrightarrow> list_all (\<lambda>arm. arm_guarded arm \<or> \<not> pmatch tc (arm_pattern arm) v) arms"

lemma arm_rows_match: "(\<exists>row \<in> set (arm_rows arms). row_matches tc row [v]) \<longleftrightarrow> \<not> unmatched tc arms v"
  by (auto simp: arm_rows_def unmatched_def list_all_iff row_matches_def)

lemma arm_rows_lits: "rows_lits (arm_rows arms) \<subseteq> arm_lits arms"
  by (auto simp: arm_rows_def rows_lits_def arm_lits_def)

lemma match_subject_constructors:
  assumes "match_subject_variant_constructors tc t = Some cs"
  shows "coverage_constructors tc t = Some cs \<and> borrowed_pattern_subject t = t"
  using assms
  by (cases t) (auto simp: match_subject_variant_constructors_def Let_def is_option_def is_result_def split: if_splits)

lemma missing_cases_unfold:
  "missing_cases tc subject arms =
     (let rows = expand_coverage_heads (arm_rows arms)
      in if list_ex coverage_row_head_is_wild rows then []
         else case match_subject_variant_constructors tc subject of
                None \<Rightarrow> if \<not> coverage_rows_exhaustive tc rows [subject] 0 then [lit ''_''] else []
              | Some cs \<Rightarrow>
                  List.map_filter
                    (\<lambda>c. if \<not> coverage_rows_exhaustive tc (specialize_coverage_rows rows c) (con_fields c) 0
                         then Some (missing_label c (specialize_coverage_rows rows c \<noteq> [])) else None) cs)"
  unfolding missing_cases_def arm_rows_def Let_def by (rule refl)

lemma map_filter_Nil_iff: "List.map_filter f xs = [] \<longleftrightarrow> (\<forall>x \<in> set xs. f x = None)"
  by (auto simp: List.map_filter_def filter_empty_conv)



text \<open>
  C3: An accepted match is exhaustive: when the check reports nothing and every unguarded arm fits the
  subject's type, every value of that type built from at most 33 constructors (the nesting the walk
  follows) is matched by an unguarded arm.
\<close>
theorem accepted_match_is_exhaustive:
  assumes "missing_cases tc subject arms = []"
    and "list_all (\<lambda>arm. arm_guarded arm \<or> pattern_ok tc subject (arm_pattern arm)) arms"
    and "has_type tc subject v" and "val_nodes v \<le> Suc MAX_COVERAGE_DEPTH"
  shows "\<not> unmatched tc arms v"
proof -
  let ?rows = "expand_coverage_heads (arm_rows arms)"
  have ok: "list_all (row_ok tc [subject]) ?rows"
    by (rule expand_ok) (use assms(2) in \<open>auto simp: arm_rows_def list_all_iff\<close>)
  have "\<exists>row \<in> set ?rows. row_matches tc row [v]"
  proof (cases "list_ex coverage_row_head_is_wild ?rows")
    case True
    then obtain row where "row \<in> set ?rows" "coverage_row_head_is_wild row" by (auto simp: list_ex_iff)
    moreover from this obtain e where "row = [e]" using ok by (auto simp: list_all_iff list_all2_Cons1)
    ultimately show ?thesis
      by (intro bexI [of _ row])
        (auto simp: coverage_row_head_is_wild_def coverage_head_is_wild_def row_head_def row_matches_def
          split: option.splits Pattern.splits)
  next
    case nonwild: False
    show ?thesis
    proof (cases "match_subject_variant_constructors tc subject")
      case None
      then have "coverage_rows_exhaustive tc ?rows [subject] 0"
        using assms(1) nonwild by (simp add: missing_cases_unfold Let_def split: if_splits)
      from acceptance_covers [OF this ok, of "[v]"] show ?thesis using assms(3,4) by simp
    next
      case (Some cs)
      note cs = match_subject_constructors [OF Some]
      from typed_built_by [OF conjunct1 [OF cs] assms(3)] obtain c us where c: "c \<in> set cs"
        "list_all2 (has_type tc) (con_fields c) us" "v = con_build subject c us" "val_nodes v = Suc (sum_list (map val_nodes us))"
        by (auto simp: built_by_def)
      have "coverage_rows_exhaustive tc (specialize_coverage_rows ?rows c) (con_fields c) 0"
        using assms(1) nonwild Some c(1) by (auto simp: missing_cases_unfold Let_def map_filter_Nil_iff split: if_splits)
      moreover have bps: "coverage_constructors tc (borrowed_pattern_subject subject) = Some cs" using cs by simp
      have "list_all (row_ok tc (con_fields c)) (specialize_coverage_rows ?rows c)"
        using specialize_rows_ok [OF bps c(1), of "[]"] ok by simp
      ultimately obtain sp where "sp \<in> set (specialize_coverage_rows ?rows c)" "row_matches tc sp us"
        using acceptance_covers [of tc _ "con_fields c" 0 us] c(2,4) assms(4) by auto
      then obtain row where r: "row \<in> set ?rows" "specialize_coverage_row row c = Some sp" "row_matches tc sp (us @ [])"
        by (auto simp: set_specialize)
      have "length us = length (con_fields c)" using c(2) by (simp add: list_all2_lengthD)
      from specialize_reflects_match [OF bps c(1) this expand_plain [OF r(1)] _ r(2,3)] ok r(1) cs c(3)
      show ?thesis by (auto simp: list_all_iff)
    qed
  qed
  then show ?thesis using expand_matches [of "arm_rows arms" tc "[v]"] arm_rows_match [of arms tc v] by simp
qed

theorem accepted_match_is_exhaustive_witness:
  "\<not> unmatched empty_checker [arm (some_pattern (Binding (lit ''n''))), arm (LiteralPat NoneLit)] (VSome (VInt 7))"
proof (rule accepted_match_is_exhaustive [where subject = int_option])
  show "missing_cases empty_checker int_option [arm (some_pattern (Binding (lit ''n''))), arm (LiteralPat NoneLit)] = []"
    by code_simp
  show "list_all (\<lambda>a. arm_guarded a \<or> pattern_ok empty_checker int_option (arm_pattern a))
      [arm (some_pattern (Binding (lit ''n''))), arm (LiteralPat NoneLit)]"
    by code_simp
  have "has_type empty_checker TyInt (VInt 7)" by (rule ty_scalar) (simp add: width_simps)
  moreover have "or_unknown (option_inner_type int_option) = TyInt" by code_simp
  ultimately show "has_type empty_checker int_option (VSome (VInt 7))" by (intro ty_some) (simp_all add: int_option_constructors)
qed (simp add: MAX_COVERAGE_DEPTH_def)

lemma expand_literal_heads:
  "list_all (\<lambda>row. literal_head row \<and> \<not> coverage_row_head_is_wild row) rows
    \<Longrightarrow> list_all (\<lambda>row. literal_head row \<and> \<not> coverage_row_head_is_wild row) (expand_coverage_heads rows)"
  unfolding expand_coverage_heads_def by (rule expand_loop_all) (auto simp: literal_head_def row_head_def)

lemma literal_rows_refused:
  assumes "list_all (\<lambda>row. literal_head row \<and> \<not> coverage_row_head_is_wild row) rows"
    and "coverage_constructors tc t = None" and "borrowed_pattern_subject t = t" and "coverage_column_is_open_scalar t"
  shows "\<not> coverage_rows_exhaustive tc rows [t] 0"
proof -
  let ?rows = "expand_coverage_heads rows"
  have heads: "filter coverage_row_head_is_wild ?rows = []"
    "list_all (\<lambda>row. coverage_row_head_is_wild row \<or> literal_head row) ?rows"
    using expand_literal_heads [OF assms(1)] by (auto simp: list_all_iff filter_empty_conv)
  have "\<not> coverage_rows_exhaustive tc [] [] (Suc 0)" by (simp add: coverage_rows_exhaustive.simps)
  moreover have "?rows = []" if "list_all coverage_row_head_is_wild ?rows"
    using that heads(1) by (simp add: list_all_iff flip: filter_id_conv)
  ultimately show ?thesis using heads assms(2-4)
    by (subst coverage_rows_exhaustive.simps) (auto simp: Let_def)
qed

text \<open>
  C38: The literal bound is needed.  The arms \<open>0, 1, \<dots>, 255\<close> match every value of a \<open>u8\<close> subject, which
  the generated Rust match accepts, yet the check refuses them and asks for a wildcard.
\<close>
theorem u8_literal_arms_refused:
  "missing_cases tc (TyNumeric U8) (map (\<lambda>n. arm (LiteralPat (int_literal n))) [0..<256]) = [lit ''_'']
   \<and> list_all (\<lambda>i. \<not> unmatched tc (map (\<lambda>n. arm (LiteralPat (int_literal n))) [0..<256]) (VInt i)) [0..255]
   \<and> type_values 64 U8 = set [0..255]"
proof (intro conjI)
  let ?arms = "map (\<lambda>n. arm (LiteralPat (int_literal n))) [0..<256]"
  have rows: "list_all (\<lambda>row. literal_head row \<and> \<not> coverage_row_head_is_wild row) (arm_rows ?arms)"
    by (auto simp: arm_rows_def arm_def list_all_iff literal_head_def row_head_def coverage_row_head_is_wild_def
        coverage_head_is_wild_def)
  have u8: "coverage_constructors tc (TyNumeric U8) = None" "match_subject_variant_constructors tc (TyNumeric U8) = None"
    by (simp_all add: coverage_constructors_def match_subject_variant_constructors_def type_views)
  from literal_rows_refused [OF expand_literal_heads [OF rows] u8(1)]
  have "\<not> coverage_rows_exhaustive tc (expand_coverage_heads (arm_rows ?arms)) [TyNumeric U8] 0"
    by (simp add: coverage_column_is_open_scalar_def)
  moreover have "\<not> list_ex coverage_row_head_is_wild (expand_coverage_heads (arm_rows ?arms))"
    using expand_literal_heads [OF rows] by (auto simp: list_all_iff list_ex_iff)
  ultimately show "missing_cases tc (TyNumeric U8) ?arms = [lit ''_'']"
    by (simp add: missing_cases_unfold u8(2) Let_def del: upt.simps)
  have "\<exists>a \<in> set ?arms. \<not> arm_guarded a \<and> pmatch tc (arm_pattern a) (VInt i)" if "i \<in> set [0..255]" for i
  proof (intro bexI [of _ "arm (LiteralPat (int_literal (nat i)))"])
    have "nat i \<in> set [0..<256]" using that by (simp only: set_upt set_upto) auto
    then show "arm (LiteralPat (int_literal (nat i))) \<in> set ?arms" unfolding set_map by (rule imageI)
  qed (use that in \<open>simp add: arm_def int_literal_def\<close>)
  then show "list_all (\<lambda>i. \<not> unmatched tc ?arms (VInt i)) [0..255]"
    unfolding list_all_iff unmatched_def by blast
qed (simp add: type_values_def)

end
