(* ===== verification/Ordered_Containers.thy ===== *)
theory Ordered_Containers
  imports Incan_Prelude "HOL-Library.Multiset" "HOL-Library.List_Lexorder"
begin

text \<open>
  The ordered containers of Rust's standard library, as far as the sources use them.

  A type with \<open>#[derive(Ord)]\<close> compares by the position of the variant, then field by field; sequences
  and strings compare lexicographically.  Such an order is given here by an \<^emph>\<open>order key\<close>: an integer
  list that holds the variant's position and the keys of the fields in declaration order, compared
  lexicographically.  Where the key of every field is self-delimiting (\<open>delimits\<close>), comparing keys is
  the derived comparison (\<open>key_less_append\<close>), and distinct values have distinct keys.  A string compares
  by its UTF-8 bytes, whose order is that of the code points.

  A \<open>BTreeMap\<close> is the list of its entries in key order, a \<open>BTreeSet\<close> the list of its elements.  The locale
  \<open>ordered_keys\<close> holds what every key type provides and the laws that follow: lookup after update,
  sortedness, and that the list is determined by the map it stands for.
\<close>

section \<open>Order keys\<close>

type_synonym ord_key = "int list"

definition key_seq :: "('a \<Rightarrow> ord_key) \<Rightarrow> 'a list \<Rightarrow> ord_key" where
  "key_seq k xs = concat (map (\<lambda>x. 1 # k x) xs) @ [0]"

definition key_str :: "rstr \<Rightarrow> ord_key" where
  "key_str s = key_seq (\<lambda>c. [int c]) s"

fun key_opt :: "('a \<Rightarrow> ord_key) \<Rightarrow> 'a option \<Rightarrow> ord_key" where
  "key_opt k None = [0]"
| "key_opt k (Some x) = 1 # k x"

definition key_bool :: "bool \<Rightarrow> ord_key" where
  "key_bool b = [if b then 1 else 0]"

definition key_nat :: "nat \<Rightarrow> ord_key" where
  "key_nat n = [int n]"

definition key_pair :: "('a \<Rightarrow> ord_key) \<Rightarrow> ('b \<Rightarrow> ord_key) \<Rightarrow> 'a \<times> 'b \<Rightarrow> ord_key" where
  "key_pair k k' p = k (fst p) @ k' (snd p)"

definition delimits :: "('a \<Rightarrow> ord_key) \<Rightarrow> 'a \<Rightarrow> bool" where
  "delimits k x \<longleftrightarrow> (\<forall>y r s. k x @ r = k y @ s \<longleftrightarrow> x = y \<and> r = s)"

named_theorems delimits_intros "self-delimiting keys"

lemma delimitsI:
  assumes "\<And>y r s. k x @ r = k y @ s \<Longrightarrow> x = y \<and> r = s"
  shows "delimits k x"
  using assms unfolding delimits_def by (metis (no_types))

lemma delimitsD [simp]: "delimits k x \<Longrightarrow> k x @ r = k y @ s \<longleftrightarrow> x = y \<and> r = s"
  by (simp add: delimits_def)

lemma delimits_inj: "delimits k x \<Longrightarrow> k x = k y \<Longrightarrow> x = y"
  using delimitsD [of k x "[]" y "[]"] by simp

lemma key_seq_simps [simp]: "key_seq k [] = [0]" "key_seq k (x # xs) = 1 # k x @ key_seq k xs"
  by (simp_all add: key_seq_def)

lemma key_seq_delimits:
  assumes "\<And>x. x \<in> set xs \<Longrightarrow> delimits k x"
  shows "delimits (key_seq k) xs"
proof (rule delimitsI)
  fix ys r s assume "key_seq k xs @ r = key_seq k ys @ s"
  then show "xs = ys \<and> r = s" using assms
  proof (induction xs arbitrary: ys)
    case Nil then show ?case by (cases ys) auto
  next
    case (Cons x xs)
    show ?case
    proof (cases ys)
      case Nil with Cons.prems show ?thesis by simp
    next
      case (Cons y zs)
      have "k x @ (key_seq k xs @ r) = k y @ (key_seq k zs @ s)" using Cons.prems(1) Cons by simp
      then have "x = y" "key_seq k xs @ r = key_seq k zs @ s" using Cons.prems(2) [of x] by simp_all
      then show ?thesis using Cons.IH [of zs] Cons.prems(2) Cons by auto
    qed
  qed
qed

lemma key_seq_delimits_all [delimits_intros]: "(\<And>x. delimits k x) \<Longrightarrow> delimits (key_seq k) xs"
  by (rule key_seq_delimits)

lemma key_str_delimits [delimits_intros]: "delimits key_str s"
proof -
  have "delimits (\<lambda>c. [int c]) c" for c by (rule delimitsI) simp
  then have "delimits (key_seq (\<lambda>c. [int c])) s" by (rule key_seq_delimits_all)
  then show ?thesis unfolding delimits_def key_str_def .
qed

lemma key_opt_delimits [delimits_intros]: "(\<And>x. delimits k x) \<Longrightarrow> delimits (key_opt k) x"
  by (rule delimitsI, rename_tac y r s, case_tac x; case_tac y) auto

lemma key_bool_delimits [delimits_intros]: "delimits key_bool b"
  by (rule delimitsI) (auto simp: key_bool_def split: if_splits)

lemma key_nat_delimits [delimits_intros]: "delimits key_nat n"
  by (rule delimitsI) (auto simp: key_nat_def)

lemma key_pair_delimits_at: "delimits k (fst p) \<Longrightarrow> delimits k' (snd p) \<Longrightarrow> delimits (key_pair k k') p"
  by (rule delimitsI) (auto simp: key_pair_def prod_eq_iff)

lemma key_pair_delimits [delimits_intros]:
  "(\<And>x. delimits k x) \<Longrightarrow> (\<And>x. delimits k' x) \<Longrightarrow> delimits (key_pair k k') p"
  by (rule key_pair_delimits_at)

lemma key_seq_nonempty [simp]: "key_seq k xs \<noteq> []"
  by (cases xs) auto

lemma list_less_append_same: "(u @ x < u @ y) \<longleftrightarrow> x < (y :: 'a :: linorder list)"
  by (induction u) auto

lemma list_less_diverge:
  fixes u v :: "'a :: linorder list"
  assumes "u < v" and "\<And>s. v \<noteq> u @ s"
  shows "u @ x < v @ y"
  using assms
proof (induction u arbitrary: v)
  case Nil then show ?case by auto
next
  case (Cons a u)
  then obtain b v' where [simp]: "v = b # v'" by (cases v) auto
  from Cons.prems(1) show ?case
    using Cons.IH [of v'] Cons.prems(2) by auto
qed

text \<open>Comparing two records compares their first fields, and the remaining ones only where those agree.\<close>

lemma key_less_append:
  assumes "delimits k a" and "delimits k b"
  shows "k a @ r < k b @ s \<longleftrightarrow> k a < k b \<or> a = b \<and> r < s"
proof (cases "a = b")
  case True then show ?thesis by (simp add: list_less_append_same)
next
  case False
  have *: "k b \<noteq> k a @ s" "k a \<noteq> k b @ s" for s
    using delimitsD [OF assms(1), of s b "[]"] delimitsD [OF assms(2), of s a "[]"] False by auto
  from False have "k a \<noteq> k b" using delimits_inj [OF assms(1)] by auto
  then consider "k a < k b" | "k b < k a" by fastforce
  then show ?thesis
  proof cases
    case 1 then show ?thesis using list_less_diverge * by blast
  next
    case 2
    then have "k b @ s < k a @ r" using list_less_diverge * by blast
    then show ?thesis using 2 False by auto
  qed
qed

section \<open>Ordered maps and sets\<close>

type_synonym ('k, 'v) btree_map = "('k \<times> 'v) list"
type_synonym 'k btree_set = "'k list"

fun bt_update :: "('k \<Rightarrow> ord_key) \<Rightarrow> 'k \<Rightarrow> ('v option \<Rightarrow> 'v) \<Rightarrow> ('k, 'v) btree_map \<Rightarrow> ('k, 'v) btree_map" where
  "bt_update key x f [] = [(x, f None)]"
| "bt_update key x f ((y, v) # m) =
     (if key x < key y then (x, f None) # (y, v) # m
      else if key x = key y then (y, f (Some v)) # m
      else (y, v) # bt_update key x f m)"

text \<open>\<open>map.entry(k).or_default().push(v)\<close>\<close>

definition bt_push :: "('k \<Rightarrow> ord_key) \<Rightarrow> 'k \<Rightarrow> 'v \<Rightarrow> ('k, 'v list) btree_map \<Rightarrow> ('k, 'v list) btree_map" where
  "bt_push key k v m = bt_update key k (\<lambda>old. (case old of Some vs \<Rightarrow> vs | None \<Rightarrow> []) @ [v]) m"

definition values_at :: "'k \<Rightarrow> ('k \<times> 'v) list \<Rightarrow> 'v list" where
  "values_at k kvs = map snd (filter (\<lambda>p. fst p = k) kvs)"

fun bs_insert :: "('k \<Rightarrow> ord_key) \<Rightarrow> 'k \<Rightarrow> 'k btree_set \<Rightarrow> 'k btree_set" where
  "bs_insert key x [] = [x]"
| "bs_insert key x (y # s) =
     (if key x < key y then x # y # s else if key x = key y then y # s else y # bs_insert key x s)"

definition bs_collect :: "('k \<Rightarrow> ord_key) \<Rightarrow> 'k list \<Rightarrow> 'k btree_set" where
  "bs_collect key xs = fold (bs_insert key) xs []"

definition ascending :: "('k \<Rightarrow> ord_key) \<Rightarrow> 'k list \<Rightarrow> bool" where
  "ascending key xs \<longleftrightarrow> sorted_wrt (\<lambda>x y. key x < key y) xs"

definition bt_ok :: "('k \<Rightarrow> ord_key) \<Rightarrow> ('k, 'v) btree_map \<Rightarrow> bool" where
  "bt_ok key m \<longleftrightarrow> ascending key (map fst m)"

lemma ascending_Nil [simp]: "ascending key []"
  by (simp add: ascending_def)

lemma ascending_Cons [simp]: "ascending key (x # xs) \<longleftrightarrow> (\<forall>y \<in> set xs. key x < key y) \<and> ascending key xs"
  by (simp add: ascending_def)

lemma bt_ok_Nil [simp]: "bt_ok key []"
  by (simp add: bt_ok_def)

lemma bt_ok_Cons [simp]: "bt_ok key ((k, v) # m) \<longleftrightarrow> (\<forall>p \<in> set m. key k < key (fst p)) \<and> bt_ok key m"
  by (auto simp: bt_ok_def)

locale ordered_keys =
  fixes key :: "'k \<Rightarrow> ord_key"
  assumes key_inj: "key x = key y \<Longrightarrow> x = y"
begin

lemma key_eq_iff [simp]: "key x = key y \<longleftrightarrow> x = y"
  using key_inj by blast

lemma set_insert [simp]: "set (bs_insert key x s) = insert x (set s)"
  by (induction s) auto

lemma key_not_less: "\<not> key x < key y \<Longrightarrow> x \<noteq> y \<Longrightarrow> key y < key x"
  by (metis key_eq_iff linorder_neqE)

lemma ascending_insert [simp]: "ascending key s \<Longrightarrow> ascending key (bs_insert key x s)"
  by (induction s) (auto dest: key_not_less)

lemma set_fold_insert: "set (fold (bs_insert key) xs s) = set xs \<union> set s"
  by (induction xs arbitrary: s) auto

lemma ascending_fold_insert: "ascending key s \<Longrightarrow> ascending key (fold (bs_insert key) xs s)"
  by (induction xs arbitrary: s) auto

lemma set_collect [simp]: "set (bs_collect key xs) = set xs"
  by (simp add: bs_collect_def set_fold_insert)

lemma ascending_collect [simp]: "ascending key (bs_collect key xs)"
  by (simp add: bs_collect_def ascending_fold_insert)

lemma ascending_unique: "ascending key xs \<Longrightarrow> ascending key ys \<Longrightarrow> set xs = set ys \<Longrightarrow> xs = ys"
proof (induction xs arbitrary: ys)
  case Nil then show ?case by simp
next
  case (Cons x xs)
  then obtain y ys' where ys: "ys = y # ys'" by (cases ys) auto
  have "x = y"
  proof (rule ccontr)
    assume "x \<noteq> y"
    then have "key x < key y" "key y < key x" using Cons.prems ys by (auto simp: set_eq_iff)
    then show False by simp
  qed
  moreover from this have "set xs = set ys'" using Cons.prems ys by (auto simp: set_eq_iff)
  ultimately show ?case using Cons ys by simp
qed

lemma ascending_distinct: "ascending key xs \<Longrightarrow> distinct xs"
  by (induction xs) auto

lemma length_collect: "length (bs_collect key xs) = card (set xs)"
  using distinct_card [OF ascending_distinct [OF ascending_collect [of xs]]] by simp

lemma dom_update [simp]: "fst ` set (bt_update key x f m) = insert x (fst ` set m)"
proof (induction m)
  case (Cons p m)
  then show ?case by (cases p) (simp add: insert_commute)
qed simp

lemma ok_update [simp]: "bt_ok key m \<Longrightarrow> bt_ok key (bt_update key x f m)"
proof (induction m)
  case (Cons p m)
  obtain y v where [simp]: "p = (y, v)" by (cases p)
  have "(\<forall>q \<in> set (bt_update key x f m). key y < key (fst q))
      \<longleftrightarrow> (\<forall>z \<in> fst ` set (bt_update key x f m). key y < key z)" by blast
  then show ?case using Cons by (auto dest: key_not_less)
qed simp

lemma get_absent: "bt_ok key ((y, v) # m) \<Longrightarrow> key x \<le> key y \<Longrightarrow> map_of m x = None"
  by (auto simp: map_of_eq_None_iff)

lemma get_update:
  assumes "bt_ok key m"
  shows "map_of (bt_update key x f m) = (map_of m)(x \<mapsto> f (map_of m x))"
  using assms
proof (induction m)
  case (Cons p m)
  obtain y v where [simp]: "p = (y, v)" by (cases p)
  from Cons have "map_of m x = None" if "key x < key y" using get_absent [of y v m x] that by auto
  then show ?case using Cons by (auto simp: fun_eq_iff)
qed auto

lemma ok_distinct: "bt_ok key m \<Longrightarrow> distinct (map fst m)"
  by (induction m) force+

lemma ok_unique:
  assumes "bt_ok key m" and "bt_ok key m'" and "map_of m = map_of m'"
  shows "m = m'"
proof -
  have "fst ` set m = fst ` set m'" using assms(3) by (metis dom_map_of_conv_image_fst)
  then have keys: "map fst m = map fst m'"
    using assms by (intro ascending_unique) (auto simp: bt_ok_def)
  show ?thesis
  proof (rule nth_equalityI)
    show len: "length m = length m'" using keys by (metis length_map)
    fix i assume i: "i < length m"
    have "fst (m ! i) = fst (m' ! i)" using keys i len by (metis nth_map)
    moreover have "map_of m (fst (m ! i)) = Some (snd (m ! i))" "map_of m' (fst (m' ! i)) = Some (snd (m' ! i))"
      using map_of_is_SomeI [OF ok_distinct [OF assms(1)]] map_of_is_SomeI [OF ok_distinct [OF assms(2)]] i len
      by (metis nth_mem prod.collapse)+
    ultimately show "m ! i = m' ! i" using assms(3) by (simp add: prod_eq_iff)
  qed
qed

lemma get_pushes:
  "bt_ok key (fold (\<lambda>(k, v). bt_push key k v) kvs [])
   \<and> map_of (fold (\<lambda>(k, v). bt_push key k v) kvs []) = (\<lambda>k. if values_at k kvs = [] then None else Some (values_at k kvs))"
proof (induction kvs rule: rev_induct)
  case Nil then show ?case by (simp add: values_at_def fun_eq_iff)
next
  case (snoc p kvs)
  then show ?case by (cases p) (auto simp: bt_push_def get_update values_at_def fun_eq_iff)
qed

end

interpretation strings: ordered_keys key_str
  by unfold_locales (rule delimits_inj [OF key_str_delimits])

interpretation numbers: ordered_keys key_nat
  by unfold_locales (rule delimits_inj [OF key_nat_delimits])

end
