(* ===== verification/Semantic_Facts.thy ===== *)
theory Semantic_Facts
  imports Emitted_Symbol Numeric_Types Ordered_Containers
begin

text \<open>
  The semantic fact store of \<open>incan_semantics_core/src/facts.rs\<close>: compiler node identities, the facts
  recorded about them, and the queries the graph projections use.  The types the facts carry
  (\<open>IncanType\<close> of \<open>types.rs\<close>, registry entries, authority decisions) are modelled with their derived
  order, because the store keeps every subject's facts sorted by it.  Rendering of snapshots is left out.
\<close>

section \<open>Node identities\<close>

datatype CompilerNodeKind =
  PackageNode | ModuleNode | DeclarationNode | StatementNode | ExpressionNode | LocalNode | TypeNode

record CompilerNodeId =
  node_kind :: CompilerNodeKind
  node_path :: rstr

definition node_new :: "CompilerNodeKind \<Rightarrow> rstr \<Rightarrow> CompilerNodeId" where
  "node_new k p = \<lparr>node_kind = k, node_path = p\<rparr>"

definition node_module :: "rstr \<Rightarrow> CompilerNodeId" where
  "node_module m = node_new ModuleNode m"

definition node_package :: "rstr \<Rightarrow> CompilerNodeId" where
  "node_package p = node_new PackageNode p"

definition node_declaration :: "rstr \<Rightarrow> rstr \<Rightarrow> CompilerNodeId" where
  "node_declaration m name = node_new DeclarationNode (m @ lit ''::'' @ name)"

definition node_local :: "rstr \<Rightarrow> rstr \<Rightarrow> CompilerNodeId" where
  "node_local m name = node_new LocalNode (m @ lit ''::'' @ name)"

definition node_type_identity :: "rstr \<Rightarrow> rstr \<Rightarrow> CompilerNodeId" where
  "node_type_identity m name = node_new TypeNode (m @ lit ''::'' @ name)"

definition declaration_span_id :: "rstr \<Rightarrow> nat \<Rightarrow> nat \<Rightarrow> CompilerNodeId" where
  "declaration_span_id m s e = node_new DeclarationNode (m @ lit ''#decl.'' @ show_nat s @ lit ''..'' @ show_nat e)"

definition declaration_binding_span_id :: "rstr \<Rightarrow> nat \<Rightarrow> nat \<Rightarrow> nat \<Rightarrow> CompilerNodeId" where
  "declaration_binding_span_id m s e ordinal =
     node_new DeclarationNode
       (m @ lit ''#decl.'' @ show_nat s @ lit ''..'' @ show_nat e @ lit ''.binding.'' @ show_nat ordinal)"

definition expression_span_id :: "rstr \<Rightarrow> nat \<Rightarrow> nat \<Rightarrow> CompilerNodeId" where
  "expression_span_id m s e = node_new ExpressionNode (m @ lit ''#'' @ show_nat s @ lit ''..'' @ show_nat e)"

definition statement_span_id :: "rstr \<Rightarrow> nat \<Rightarrow> nat \<Rightarrow> CompilerNodeId" where
  "statement_span_id m s e = node_new StatementNode (m @ lit ''#stmt.'' @ show_nat s @ lit ''..'' @ show_nat e)"

section \<open>Types\<close>

datatype IncanPrimitiveType =
  PInt | PFloat | PNumeric NumericTypeId | PBool | PStr | PBytes | PFrozenStr | PFrozenBytes | PUnit

datatype RuntimeBuiltinType = ValidationErrorType

datatype IncanCallableParamKind = INormal | IRestPositional | IRestKeyword

datatype IncanType =
    INever | IPrimitive IncanPrimitiveType | INamed rstr | IGeneric rstr "IncanType list" | IDecimal nat nat
  | IFunction "IncanCallableParam list" IncanType | ITypeToken IncanType | ITuple "IncanType list" | ITypeVar rstr
  | ISelfType | IRef IncanType | IRefMut IncanType | IRustInteropPath rstr | INativeBuiltin RuntimeBuiltinType
  | IUnsupported rstr | IInfer | IUnknown
and IncanCallableParam = ICallableParam "rstr option" IncanType IncanCallableParamKind bool bool bool

section \<open>Source targets and registry entries\<close>

definition KIND_STRINGS :: "(rstr \<times> SemanticSourceTargetKind) list" where
  "KIND_STRINGS =
     [(lit ''function'', FunctionKind), (lit ''model'', ModelKind), (lit ''class'', ClassKind),
      (lit ''newtype'', NewtypeKind), (lit ''rusttype'', RusttypeKind), (lit ''enum'', EnumKind),
      (lit ''type_alias'', TypeAliasKind), (lit ''partial'', PartialKind), (lit ''variant'', VariantKind),
      (lit ''trait'', TraitKind), (lit ''capability'', CapabilityKind), (lit ''field'', FieldKind),
      (lit ''method'', MethodKind), (lit ''property'', PropertyKind), (lit ''const'', ConstKind),
      (lit ''static'', StaticKind), (lit ''local'', LocalKind), (lit ''parameter'', ParameterKind),
      (lit ''receiver'', ReceiverKind), (lit ''generic_binder'', GenericBinderKind), (lit ''module'', ModuleKind),
      (lit ''rust_item'', RustItemKind), (lit ''builtin'', BuiltinKind)]"

definition from_kind_str :: "rstr \<Rightarrow> SemanticSourceTargetKind" where
  "from_kind_str s = (case map_of KIND_STRINGS s of Some k \<Rightarrow> k | None \<Rightarrow> OtherKind s)"

fun kind_as_str :: "SemanticSourceTargetKind \<Rightarrow> rstr" where
  "kind_as_str FunctionKind = lit ''function''"
| "kind_as_str ModelKind = lit ''model''"
| "kind_as_str ClassKind = lit ''class''"
| "kind_as_str NewtypeKind = lit ''newtype''"
| "kind_as_str RusttypeKind = lit ''rusttype''"
| "kind_as_str EnumKind = lit ''enum''"
| "kind_as_str TypeAliasKind = lit ''type_alias''"
| "kind_as_str PartialKind = lit ''partial''"
| "kind_as_str VariantKind = lit ''variant''"
| "kind_as_str TraitKind = lit ''trait''"
| "kind_as_str CapabilityKind = lit ''capability''"
| "kind_as_str FieldKind = lit ''field''"
| "kind_as_str MethodKind = lit ''method''"
| "kind_as_str PropertyKind = lit ''property''"
| "kind_as_str ConstKind = lit ''const''"
| "kind_as_str StaticKind = lit ''static''"
| "kind_as_str LocalKind = lit ''local''"
| "kind_as_str ParameterKind = lit ''parameter''"
| "kind_as_str ReceiverKind = lit ''receiver''"
| "kind_as_str GenericBinderKind = lit ''generic_binder''"
| "kind_as_str ModuleKind = lit ''module''"
| "kind_as_str RustItemKind = lit ''rust_item''"
| "kind_as_str BuiltinKind = lit ''builtin''"
| "kind_as_str (OtherKind s) = s"

record SemanticSourceTarget =
  target_module_path :: "rstr list"
  target_name :: rstr
  target_kind :: SemanticSourceTargetKind

definition source_target_from_kind_str :: "rstr list \<Rightarrow> rstr \<Rightarrow> rstr \<Rightarrow> SemanticSourceTarget" where
  "source_target_from_kind_str path name k =
     \<lparr>target_module_path = path, target_name = name, target_kind = from_kind_str k\<rparr>"

datatype SemanticRegistrySubjectKind = FunctionSubject | MethodSubject | CompilationUnitSubject | PackageSubject

datatype SemanticRegistryValue =
    RegInt int | RegFloat rstr | RegBool bool | RegString rstr | RegBytes "byte list" | RegNone | RegType rstr
  | RegOption SemanticRegistryValue | RegList "SemanticRegistryValue list"
  | RegDict "(SemanticRegistryValue \<times> SemanticRegistryValue) list" | RegConstRef "rstr list"
  | RegNewtype rstr SemanticRegistryValue | RegModel rstr "(rstr \<times> SemanticRegistryValue) list"

record SemanticRegistryEntry =
  registry :: CompilerNodeId
  entry_key :: SemanticRegistryValue
  descriptor :: SemanticRegistryValue
  subject_kind :: SemanticRegistrySubjectKind
  subject_identity :: rstr

section \<open>Authority decisions\<close>

datatype AuthorityMode = Permissive | Observe | Governed

datatype AuthorityDenialReason = NotGranted | OutsideCeiling | OutOfScope | BudgetExhausted | FixtureRequired

datatype AuthorityOutcome = Allowed | Denied AuthorityDenialReason

record AuthorityGrantContext =
  requested_scope :: "(rstr \<times> rstr) list"
  effective_grants_of :: "CanonicalSymbolId list"
  ceiling_of :: "CanonicalSymbolId list option"

record AuthorityProvenance =
  operation :: CanonicalSymbolId
  request_span :: HirSourceSpan
  suggested_grant :: rstr

record AuthorityDecision =
  capability :: CanonicalSymbolId
  decision_mode :: AuthorityMode
  outcome :: AuthorityOutcome
  grant :: AuthorityGrantContext
  provenance :: AuthorityProvenance

section \<open>Facts\<close>

record CanonicalStableDeclarationContext =
  context_owner :: CanonicalSymbolId
  binding_ordinal :: nat

datatype SemanticFactKind =
    TypeFact | SymbolTarget | SymbolIdentity | DeclarationIdentity | ReferenceOwner | StableDeclarationContext
  | ReferenceSpan | RequiredMemberOwner | RequiredReferenceTarget | RegistryFact | RuntimeRequirement | DiagnosticFact
  | BackendObligation | AuthorityDecisionFact

datatype SemanticFactValue =
    TextValue rstr | TypeValue IncanType | SourceTargetValue SemanticSourceTarget
  | CanonicalIdentity CanonicalSymbolId | StableContextValue CanonicalStableDeclarationContext
  | SourceSpanValue HirSourceSpan | RegistryEntryValue SemanticRegistryEntry
  | AuthorityDecisionValue AuthorityDecision | FlagValue bool

record SemanticFact =
  fact_subject :: CompilerNodeId
  fact_kind :: SemanticFactKind
  fact_value :: SemanticFactValue

section \<open>The derived orders\<close>

text \<open>The position of a variant in its declaration.\<close>

fun kind_index :: "SemanticSourceTargetKind \<Rightarrow> int" where
  "kind_index FunctionKind = 0"
| "kind_index ModelKind = 1"
| "kind_index ClassKind = 2"
| "kind_index NewtypeKind = 3"
| "kind_index RusttypeKind = 4"
| "kind_index EnumKind = 5"
| "kind_index TypeAliasKind = 6"
| "kind_index PartialKind = 7"
| "kind_index VariantKind = 8"
| "kind_index TraitKind = 9"
| "kind_index CapabilityKind = 10"
| "kind_index FieldKind = 11"
| "kind_index MethodKind = 12"
| "kind_index PropertyKind = 13"
| "kind_index ConstKind = 14"
| "kind_index StaticKind = 15"
| "kind_index LocalKind = 16"
| "kind_index ParameterKind = 17"
| "kind_index ReceiverKind = 18"
| "kind_index GenericBinderKind = 19"
| "kind_index ModuleKind = 20"
| "kind_index RustItemKind = 21"
| "kind_index BuiltinKind = 22"
| "kind_index (OtherKind _) = 23"

definition key_kind :: "SemanticSourceTargetKind \<Rightarrow> ord_key" where
  "key_kind k = kind_index k # (case k of OtherKind s \<Rightarrow> key_str s | _ \<Rightarrow> [])"

fun key_namespace :: "SymbolNamespace \<Rightarrow> ord_key" where
  "key_namespace OrdinaryLexical = [0]"
| "key_namespace Member = [1]"
| "key_namespace ModulePath = [2]"

fun key_origin :: "SymbolOrigin \<Rightarrow> ord_key" where
  "key_origin (ModuleOrigin path) = 0 # key_seq key_str path"
| "key_origin (Package library path) = 1 # key_str library @ key_seq key_str path"
| "key_origin (RustCrate path) = 2 # key_seq key_str path"
| "key_origin BuiltinOrigin = [3]"

definition key_span :: "HirSourceSpan \<Rightarrow> ord_key" where
  "key_span s = key_nat (span_start s) @ key_nat (span_end s)"

definition key_symbol :: "CanonicalSymbolId \<Rightarrow> ord_key" where
  "key_symbol i = key_namespace (namespace i) @ key_origin (origin i) @ key_str (declaration_name i)
     @ key_kind (kind i) @ key_opt key_nat (scope_discriminant i) @ key_span (declaration_span i)"

fun node_kind_index :: "CompilerNodeKind \<Rightarrow> int" where
  "node_kind_index PackageNode = 0"
| "node_kind_index ModuleNode = 1"
| "node_kind_index DeclarationNode = 2"
| "node_kind_index StatementNode = 3"
| "node_kind_index ExpressionNode = 4"
| "node_kind_index LocalNode = 5"
| "node_kind_index TypeNode = 6"

definition key_node :: "CompilerNodeId \<Rightarrow> ord_key" where
  "key_node n = node_kind_index (node_kind n) # key_str (node_path n)"

fun numeric_type_index :: "NumericTypeId \<Rightarrow> int" where
  "numeric_type_index I8 = 0"
| "numeric_type_index I16 = 1"
| "numeric_type_index I32 = 2"
| "numeric_type_index I64 = 3"
| "numeric_type_index I128 = 4"
| "numeric_type_index U8 = 5"
| "numeric_type_index U16 = 6"
| "numeric_type_index U32 = 7"
| "numeric_type_index U64 = 8"
| "numeric_type_index U128 = 9"
| "numeric_type_index F32 = 10"
| "numeric_type_index F64 = 11"
| "numeric_type_index ISize = 12"
| "numeric_type_index USize = 13"
| "numeric_type_index BoolId = 14"

fun key_primitive :: "IncanPrimitiveType \<Rightarrow> ord_key" where
  "key_primitive PInt = [0]"
| "key_primitive PFloat = [1]"
| "key_primitive (PNumeric n) = [2, numeric_type_index n]"
| "key_primitive PBool = [3]"
| "key_primitive PStr = [4]"
| "key_primitive PBytes = [5]"
| "key_primitive PFrozenStr = [6]"
| "key_primitive PFrozenBytes = [7]"
| "key_primitive PUnit = [8]"

fun key_param_kind :: "IncanCallableParamKind \<Rightarrow> ord_key" where
  "key_param_kind INormal = [0]"
| "key_param_kind IRestPositional = [1]"
| "key_param_kind IRestKeyword = [2]"

lemma key_seq_cong [fundef_cong]:
  "xs = ys \<Longrightarrow> (\<And>x. x \<in> set ys \<Longrightarrow> k x = k' x) \<Longrightarrow> key_seq k xs = key_seq k' ys"
  by (simp add: key_seq_def cong: map_cong)

lemma key_pair_cong [fundef_cong]:
  "p = q \<Longrightarrow> (\<And>x y. q = (x, y) \<Longrightarrow> k x = k' x) \<Longrightarrow> (\<And>x y. q = (x, y) \<Longrightarrow> h y = h' y)
   \<Longrightarrow> key_pair k h p = key_pair k' h' q"
  by (cases q) (simp add: key_pair_def)

fun key_type :: "IncanType \<Rightarrow> ord_key" and key_param :: "IncanCallableParam \<Rightarrow> ord_key" where
  "key_type INever = [0]"
| "key_type (IPrimitive p) = 1 # key_primitive p"
| "key_type (INamed n) = 2 # key_str n"
| "key_type (IGeneric b args) = 3 # key_str b @ key_seq key_type args"
| "key_type (IDecimal p s) = 4 # key_nat p @ key_nat s"
| "key_type (IFunction ps r) = 5 # key_seq key_param ps @ key_type r"
| "key_type (ITypeToken t) = 6 # key_type t"
| "key_type (ITuple ts) = 7 # key_seq key_type ts"
| "key_type (ITypeVar n) = 8 # key_str n"
| "key_type ISelfType = [9]"
| "key_type (IRef t) = 10 # key_type t"
| "key_type (IRefMut t) = 11 # key_type t"
| "key_type (IRustInteropPath p) = 12 # key_str p"
| "key_type (INativeBuiltin b) = [13, 0]"
| "key_type (IUnsupported s) = 14 # key_str s"
| "key_type IInfer = [15]"
| "key_type IUnknown = [16]"
| "key_param (ICallableParam n t k d p m) =
     key_opt key_str n @ key_type t @ key_param_kind k @ key_bool d @ key_bool p @ key_bool m"

definition key_target :: "SemanticSourceTarget \<Rightarrow> ord_key" where
  "key_target t = key_seq key_str (target_module_path t) @ key_str (target_name t) @ key_kind (target_kind t)"

fun registry_subject_index :: "SemanticRegistrySubjectKind \<Rightarrow> int" where
  "registry_subject_index FunctionSubject = 0"
| "registry_subject_index MethodSubject = 1"
| "registry_subject_index CompilationUnitSubject = 2"
| "registry_subject_index PackageSubject = 3"

function key_registry_value :: "SemanticRegistryValue \<Rightarrow> ord_key" where
  "key_registry_value (RegInt i) = [0, i]"
| "key_registry_value (RegFloat s) = 1 # key_str s"
| "key_registry_value (RegBool b) = 2 # key_bool b"
| "key_registry_value (RegString s) = 3 # key_str s"
| "key_registry_value (RegBytes bs) = 4 # key_seq (\<lambda>b. key_nat (unat b)) bs"
| "key_registry_value RegNone = [5]"
| "key_registry_value (RegType s) = 6 # key_str s"
| "key_registry_value (RegOption v) = 7 # key_registry_value v"
| "key_registry_value (RegList vs) = 8 # key_seq key_registry_value vs"
| "key_registry_value (RegDict es) = 9 # key_seq (key_pair key_registry_value key_registry_value) es"
| "key_registry_value (RegConstRef p) = 10 # key_seq key_str p"
| "key_registry_value (RegNewtype n v) = 11 # key_str n @ key_registry_value v"
| "key_registry_value (RegModel n fs) = 12 # key_str n @ key_seq (key_pair key_str key_registry_value) fs"
  by pat_completeness auto
termination
  by (relation "measure size") (auto dest!: size_list_estimation' [OF _ order.refl, where f = "size_prod size size"]
      size_list_estimation' [OF _ order.refl, where f = "size_prod (\<lambda>_. 0) size"] simp: less_Suc_eq_le size_list_estimation')

definition key_registry_entry :: "SemanticRegistryEntry \<Rightarrow> ord_key" where
  "key_registry_entry e = key_node (registry e) @ key_registry_value (entry_key e) @ key_registry_value (descriptor e)
     @ [registry_subject_index (subject_kind e)] @ key_str (subject_identity e)"

fun mode_index :: "AuthorityMode \<Rightarrow> int" where
  "mode_index Permissive = 0"
| "mode_index Observe = 1"
| "mode_index Governed = 2"

fun denial_index :: "AuthorityDenialReason \<Rightarrow> int" where
  "denial_index NotGranted = 0"
| "denial_index OutsideCeiling = 1"
| "denial_index OutOfScope = 2"
| "denial_index BudgetExhausted = 3"
| "denial_index FixtureRequired = 4"

fun key_outcome :: "AuthorityOutcome \<Rightarrow> ord_key" where
  "key_outcome Allowed = [0]"
| "key_outcome (Denied r) = [1, denial_index r]"

definition key_grant_context :: "AuthorityGrantContext \<Rightarrow> ord_key" where
  "key_grant_context g = key_seq (key_pair key_str key_str) (requested_scope g)
     @ key_seq key_symbol (effective_grants_of g) @ key_opt (key_seq key_symbol) (ceiling_of g)"

definition key_provenance :: "AuthorityProvenance \<Rightarrow> ord_key" where
  "key_provenance p = key_symbol (operation p) @ key_span (request_span p) @ key_str (suggested_grant p)"

definition key_decision :: "AuthorityDecision \<Rightarrow> ord_key" where
  "key_decision d = key_symbol (capability d) @ [mode_index (decision_mode d)] @ key_outcome (outcome d)
     @ key_grant_context (grant d) @ key_provenance (provenance d)"

fun fact_kind_index :: "SemanticFactKind \<Rightarrow> int" where
  "fact_kind_index TypeFact = 0"
| "fact_kind_index SymbolTarget = 1"
| "fact_kind_index SymbolIdentity = 2"
| "fact_kind_index DeclarationIdentity = 3"
| "fact_kind_index ReferenceOwner = 4"
| "fact_kind_index StableDeclarationContext = 5"
| "fact_kind_index ReferenceSpan = 6"
| "fact_kind_index RequiredMemberOwner = 7"
| "fact_kind_index RequiredReferenceTarget = 8"
| "fact_kind_index RegistryFact = 9"
| "fact_kind_index RuntimeRequirement = 10"
| "fact_kind_index DiagnosticFact = 11"
| "fact_kind_index BackendObligation = 12"
| "fact_kind_index AuthorityDecisionFact = 13"

fun key_value :: "SemanticFactValue \<Rightarrow> ord_key" where
  "key_value (TextValue s) = 0 # key_str s"
| "key_value (TypeValue t) = 1 # key_type t"
| "key_value (SourceTargetValue t) = 2 # key_target t"
| "key_value (CanonicalIdentity i) = 3 # key_symbol i"
| "key_value (StableContextValue c) = 4 # key_symbol (context_owner c) @ key_nat (binding_ordinal c)"
| "key_value (SourceSpanValue s) = 5 # key_span s"
| "key_value (RegistryEntryValue e) = 6 # key_registry_entry e"
| "key_value (AuthorityDecisionValue d) = 7 # key_decision d"
| "key_value (FlagValue b) = 8 # key_bool b"

definition key_fact :: "SemanticFact \<Rightarrow> ord_key" where
  "key_fact f = key_node (fact_subject f) @ [fact_kind_index (fact_kind f)] @ key_value (fact_value f)"

section \<open>The store\<close>

record SemanticFactStore =
  store_facts :: "(CompilerNodeId, SemanticFact list) btree_map"

definition fact_store_new :: SemanticFactStore where
  "fact_store_new = \<lparr>store_facts = []\<rparr>"

definition fact_insert :: "SemanticFact \<Rightarrow> SemanticFactStore \<Rightarrow> SemanticFactStore" where
  "fact_insert f st =
     st\<lparr>store_facts := bt_update key_node (fact_subject f)
          (\<lambda>old. let facts = (case old of Some fs \<Rightarrow> fs | None \<Rightarrow> [])
                 in sort_key key_fact (facts @ [f]))
          (store_facts st)\<rparr>"

definition facts_for :: "SemanticFactStore \<Rightarrow> CompilerNodeId \<Rightarrow> SemanticFact list" where
  "facts_for st s = (case map_of (store_facts st) s of Some fs \<Rightarrow> fs | None \<Rightarrow> [])"

definition store_iter :: "SemanticFactStore \<Rightarrow> SemanticFact list" where
  "store_iter st = concat (map snd (store_facts st))"

definition facts_by_kind :: "SemanticFactStore \<Rightarrow> SemanticFactKind \<Rightarrow> SemanticFact list" where
  "facts_by_kind st k = filter (\<lambda>f. fact_kind f = k) (store_iter st)"

definition facts_for_kind :: "SemanticFactStore \<Rightarrow> CompilerNodeId \<Rightarrow> SemanticFactKind \<Rightarrow> SemanticFact list" where
  "facts_for_kind st s k = filter (\<lambda>f. fact_kind f = k) (facts_for st s)"

definition identity_value :: "SemanticFact \<Rightarrow> CanonicalSymbolId option" where
  "identity_value f = (case fact_value f of CanonicalIdentity i \<Rightarrow> Some i | _ \<Rightarrow> None)"

definition type_facts_for :: "SemanticFactStore \<Rightarrow> CompilerNodeId \<Rightarrow> IncanType list" where
  "type_facts_for st s =
     List.map_filter (\<lambda>f. case fact_value f of TypeValue t \<Rightarrow> Some t | _ \<Rightarrow> None) (facts_for_kind st s TypeFact)"

definition source_targets_for :: "SemanticFactStore \<Rightarrow> CompilerNodeId \<Rightarrow> SemanticSourceTarget list" where
  "source_targets_for st s =
     List.map_filter (\<lambda>f. case fact_value f of SourceTargetValue t \<Rightarrow> Some t | _ \<Rightarrow> None)
       (facts_for_kind st s SymbolTarget)"

definition symbol_identities_for :: "SemanticFactStore \<Rightarrow> CompilerNodeId \<Rightarrow> CanonicalSymbolId list" where
  "symbol_identities_for st s = List.map_filter identity_value (facts_for_kind st s SymbolIdentity)"

definition stable_declaration_contexts_for ::
  "SemanticFactStore \<Rightarrow> CompilerNodeId \<Rightarrow> CanonicalStableDeclarationContext list" where
  "stable_declaration_contexts_for st s =
     List.map_filter (\<lambda>f. case fact_value f of StableContextValue c \<Rightarrow> Some c | _ \<Rightarrow> None)
       (facts_for_kind st s StableDeclarationContext)"

definition store_subjects :: "SemanticFactStore \<Rightarrow> CompilerNodeId list" where
  "store_subjects st = map fst (store_facts st)"

definition store_is_empty :: "SemanticFactStore \<Rightarrow> bool" where
  "store_is_empty st \<longleftrightarrow> store_facts st = []"

section \<open>Keys determine values\<close>

lemma node_kind_index_inj [simp]: "node_kind_index x = node_kind_index x' \<longleftrightarrow> x = x'"
  by (cases x; cases x') simp_all

lemma numeric_type_index_inj [simp]: "numeric_type_index n = numeric_type_index n' \<longleftrightarrow> n = n'"
  by (cases n; cases n') simp_all

lemma registry_subject_index_inj [simp]: "registry_subject_index r = registry_subject_index r' \<longleftrightarrow> r = r'"
  by (cases r; cases r') simp_all

lemma mode_index_inj [simp]: "mode_index m = mode_index m' \<longleftrightarrow> m = m'"
  by (cases m; cases m') simp_all

lemma denial_index_inj [simp]: "denial_index d = denial_index d' \<longleftrightarrow> d = d'"
  by (cases d; cases d') simp_all

lemma fact_kind_index_inj [simp]: "fact_kind_index k = fact_kind_index k' \<longleftrightarrow> k = k'"
  by (cases k; cases k') simp_all

lemmas [simp] = delimits_intros

lemma key_kind_delimits [simp]: "delimits key_kind k"
proof (rule delimitsI)
  fix k' r s assume "key_kind k @ r = key_kind k' @ s"
  then show "k = k' \<and> r = s" by (cases k; cases k') (simp_all add: key_kind_def)
qed

lemma key_namespace_delimits [simp]: "delimits key_namespace n"
  by (rule delimitsI, rename_tac n' r s, case_tac n; case_tac n') simp_all

lemma key_origin_delimits [simp]: "delimits key_origin orig"
  by (rule delimitsI, rename_tac o' r s, case_tac orig; case_tac o') simp_all

lemma key_span_delimits [simp]: "delimits key_span s"
  by (rule delimitsI) (simp add: key_span_def)

lemma key_symbol_delimits [simp]: "delimits key_symbol i"
  by (rule delimitsI) (simp add: key_symbol_def)

lemma key_node_delimits [simp]: "delimits key_node n"
  by (rule delimitsI) (simp add: key_node_def)

lemma key_primitive_delimits [simp]: "delimits key_primitive p"
  by (rule delimitsI, rename_tac p' r s, case_tac p; case_tac p') simp_all

lemma key_param_kind_delimits [simp]: "delimits key_param_kind k"
  by (rule delimitsI, rename_tac p' r s, case_tac k; case_tac p') simp_all

lemma key_type_delimits [simp]: "delimits key_type t"
  and key_param_delimits [simp]: "delimits key_param p"
proof (induction t and p)
  case (ICallableParam n t k d p m)
  show ?case
  proof (rule delimitsI)
    fix p' r s assume "key_param (ICallableParam n t k d p m) @ r = key_param p' @ s"
    with ICallableParam show "ICallableParam n t k d p m = p' \<and> r = s" by (cases p') simp
  qed
qed (rule delimitsI, rename_tac t' r s, case_tac t', simp_all add: key_seq_delimits;
     (metis RuntimeBuiltinType.exhaust)?)+

lemma key_target_delimits [simp]: "delimits key_target t"
  by (rule delimitsI) (simp add: key_target_def)

lemma key_registry_value_delimits [simp]: "delimits key_registry_value v"
proof (induction v)
  case (RegList vs)
  then have "delimits (key_seq key_registry_value) vs" by (rule key_seq_delimits)
  then show ?case by - (rule delimitsI, rename_tac v' r s, case_tac v', simp_all)
next
  case (RegDict es)
  have "delimits (key_pair key_registry_value key_registry_value) p" if "p \<in> set es" for p
    using RegDict that by (intro key_pair_delimits_at) (cases p, auto)+
  then have "delimits (key_seq (key_pair key_registry_value key_registry_value)) es" by (rule key_seq_delimits)
  then show ?case by - (rule delimitsI, rename_tac v' r s, case_tac v', simp_all)
next
  case (RegModel n fs)
  have "delimits (key_pair key_str key_registry_value) p" if "p \<in> set fs" for p
    using RegModel that by (intro key_pair_delimits_at) (simp, cases p, auto)
  then have "delimits (key_seq (key_pair key_str key_registry_value)) fs" by (rule key_seq_delimits)
  then show ?case by - (rule delimitsI, rename_tac v' r s, case_tac v', simp_all)
next
  case (RegBytes bs)
  have "delimits (\<lambda>b. key_nat (unat b)) b" for b :: byte
    by (rule delimitsI) (simp add: key_nat_def word_uint_eq_iff)
  then have "delimits (key_seq (\<lambda>b. key_nat (unat b))) bs" by (rule key_seq_delimits)
  then show ?case by - (rule delimitsI, rename_tac v' r s, case_tac v', simp_all)
qed (rule delimitsI, rename_tac v' r s, case_tac v', simp_all)+

lemma key_registry_entry_delimits [simp]: "delimits key_registry_entry e"
  by (rule delimitsI) (simp add: key_registry_entry_def)

lemma key_outcome_delimits [simp]: "delimits key_outcome oc"
  by (rule delimitsI, rename_tac o' r s, case_tac oc; case_tac o') simp_all

lemma key_grant_context_delimits [simp]: "delimits key_grant_context g"
  by (rule delimitsI) (simp add: key_grant_context_def)

lemma key_provenance_delimits [simp]: "delimits key_provenance p"
  by (rule delimitsI) (simp add: key_provenance_def)

lemma key_decision_delimits [simp]: "delimits key_decision d"
  by (rule delimitsI) (simp add: key_decision_def)

lemma key_value_delimits [simp]: "delimits key_value v"
  by (rule delimitsI, rename_tac v' r s, case_tac v; case_tac v') simp_all

lemma key_fact_delimits [simp]: "delimits key_fact f"
  by (rule delimitsI) (simp add: key_fact_def)

interpretation symbols: ordered_keys key_symbol
  by unfold_locales (rule delimits_inj [OF key_symbol_delimits])

interpretation nodes: ordered_keys key_node
  by unfold_locales (rule delimits_inj [OF key_node_delimits])

interpretation facts: ordered_keys key_fact
  by unfold_locales (rule delimits_inj [OF key_fact_delimits])

section \<open>Contents of a store\<close>

definition subject_entry_ok :: "CompilerNodeId \<Rightarrow> SemanticFact list \<Rightarrow> bool" where
  "subject_entry_ok s fs \<longleftrightarrow> fs \<noteq> [] \<and> sorted (map key_fact fs) \<and> list_all (\<lambda>f. fact_subject f = s) fs"

definition store_ok :: "SemanticFactStore \<Rightarrow> bool" where
  "store_ok st \<longleftrightarrow> bt_ok key_node (store_facts st) \<and> list_all (\<lambda>(s, fs). subject_entry_ok s fs) (store_facts st)"

definition facts_of :: "CompilerNodeId \<Rightarrow> SemanticFact list \<Rightarrow> SemanticFact list option" where
  "facts_of s fs = (let gs = filter (\<lambda>f. fact_subject f = s) fs in if gs = [] then None else Some (sort_key key_fact gs))"

lemma fact_sort_mset: "mset xs = mset ys \<Longrightarrow> sort_key key_fact xs = sort_key key_fact ys"
proof (rule properties_for_sort_key)
  assume "mset xs = mset ys"
  then show "mset (sort_key key_fact ys) = mset xs" by simp
  have "filter (\<lambda>x. key_fact k = key_fact x) zs = replicate (count (mset zs) k) k" for k zs
    by (induction zs) auto
  then show "filter (\<lambda>x. key_fact k = key_fact x) (sort_key key_fact ys) = filter (\<lambda>x. key_fact k = key_fact x) xs" for k
    using \<open>mset xs = mset ys\<close> by simp
qed simp

lemma fact_sort_snoc [simp]: "sort_key key_fact (sort_key key_fact xs @ [x]) = sort_key key_fact (xs @ [x])"
  by (rule fact_sort_mset) simp

lemma facts_of_snoc:
  "facts_of s (fs @ [f]) =
     (if fact_subject f = s
      then Some (sort_key key_fact ((case facts_of s fs of Some gs \<Rightarrow> gs | None \<Rightarrow> []) @ [f])) else facts_of s fs)"
  by (simp add: facts_of_def Let_def del: sort_key_simps)

lemma store_map_insert:
  assumes "bt_ok key_node (store_facts st)" and "map_of (store_facts st) = (\<lambda>s. facts_of s fs)"
  shows "bt_ok key_node (store_facts (fact_insert f st))"
    and "map_of (store_facts (fact_insert f st)) = (\<lambda>s. facts_of s (fs @ [f]))"
proof -
  show "bt_ok key_node (store_facts (fact_insert f st))" using assms(1) by (simp add: fact_insert_def)
  have "map_of (store_facts (fact_insert f st)) s = facts_of s (fs @ [f])" for s
    using assms by (cases "fact_subject f = s") (simp_all add: fact_insert_def nodes.get_update facts_of_snoc)
  then show "map_of (store_facts (fact_insert f st)) = (\<lambda>s. facts_of s (fs @ [f]))" by (rule ext)
qed

lemma store_map_inserts:
  "bt_ok key_node (store_facts (fold fact_insert fs fact_store_new))
   \<and> map_of (store_facts (fold fact_insert fs fact_store_new)) = (\<lambda>s. facts_of s fs)"
proof (induction fs rule: rev_induct)
  case Nil
  then show ?case by (simp add: fact_store_new_def facts_of_def fun_eq_iff)
next
  case (snoc f fs)
  then show ?case using store_map_insert by simp
qed

lemma facts_of_mset: "mset fs = mset gs \<Longrightarrow> facts_of s fs = facts_of s gs"
proof -
  let ?f = "filter (\<lambda>f. fact_subject f = s)"
  assume "mset fs = mset gs"
  then have eq: "mset (?f fs) = mset (?f gs)" by simp
  then have "?f fs = [] \<longleftrightarrow> ?f gs = []" by (metis mset_zero_iff)
  then show ?thesis using fact_sort_mset [OF eq] by (simp add: facts_of_def Let_def)
qed

lemma fact_insert_mset: "mset (store_iter (fact_insert f st)) = add_mset f (mset (store_iter st))"
proof -
  have "mset (concat (map snd (bt_update key_node x (\<lambda>old. let facts = (case old of Some fs \<Rightarrow> fs | None \<Rightarrow> [])
          in sort_key key_fact (facts @ [f])) m))) = add_mset f (mset (concat (map snd m)))" for x m
  proof (induction m)
    case (Cons p m)
    then show ?case by (cases p) (auto simp: Let_def)
  qed (simp add: Let_def)
  then show ?thesis by (simp add: store_iter_def fact_insert_def)
qed

lemma fact_inserts_mset: "mset (store_iter (fold fact_insert fs st)) = mset fs + mset (store_iter st)"
  by (induction fs arbitrary: st) (simp_all add: fact_insert_mset)

lemma bt_update_all:
  assumes "list_all (\<lambda>(k, v). P k v) m" and "\<And>y. f None = y \<Longrightarrow> P x y"
    and "\<And>k v. P k v \<Longrightarrow> key x = key k \<Longrightarrow> P k (f (Some v))"
  shows "list_all (\<lambda>(k, v). P k v) (bt_update key x f m)"
  using assms(1) by (induction m) (auto simp: assms(2,3))

lemma subject_entry_ok_sort:
  assumes "list_all (\<lambda>g. fact_subject g = fact_subject f) fs"
  shows "subject_entry_ok (fact_subject f) (sort_key key_fact (fs @ [f]))"
proof -
  have "length (sort_key key_fact (fs @ [f])) \<noteq> 0" by (simp del: sort_key_simps)
  then show ?thesis using assms by (auto simp: subject_entry_ok_def list_all_iff simp del: length_sort)
qed

lemma store_ok_insert:
  assumes "store_ok st"
  shows "store_ok (fact_insert f st)"
proof -
  let ?upd = "\<lambda>old. let facts = (case old of Some fs \<Rightarrow> fs | None \<Rightarrow> []) in sort_key key_fact (facts @ [f])"
  have "list_all (\<lambda>(s, fs). subject_entry_ok s fs) (bt_update key_node (fact_subject f) ?upd (store_facts st))"
  proof (rule bt_update_all)
    show "list_all (\<lambda>(s, fs). subject_entry_ok s fs) (store_facts st)" using assms by (simp add: store_ok_def)
    show "subject_entry_ok (fact_subject f) y" if "?upd None = y" for y
      using that subject_entry_ok_sort [of f "[]"] by auto
    show "subject_entry_ok k (?upd (Some v))" if "subject_entry_ok k v" and "key_node (fact_subject f) = key_node k" for k v
      using that subject_entry_ok_sort [of f v] by (auto simp: subject_entry_ok_def)
  qed
  then show ?thesis using assms by (simp add: store_ok_def fact_insert_def)
qed

lemma store_ok_inserts: "store_ok st \<Longrightarrow> store_ok (fold fact_insert fs st)"
  by (induction fs arbitrary: st) (simp_all add: store_ok_insert)

section \<open>Span identities\<close>

lemma digit_tail_unique:
  assumes "xs @ c # show_nat n = ys @ d # show_nat m" and "\<not> is_ascii_digit c" and "\<not> is_ascii_digit d"
  shows "xs = ys \<and> c = d \<and> n = m"
proof -
  have dw: "dropWhile is_ascii_digit (rev (zs @ e # show_nat k)) = e # rev zs" if "\<not> is_ascii_digit e" for zs e k
  proof -
    have "\<forall>x \<in> set (rev (show_nat k)). is_ascii_digit x"
      using show_nat_digits [of k] by (simp add: list_all_iff)
    then show ?thesis using that by (simp add: dropWhile_append)
  qed
  have "c # rev xs = d # rev ys" using dw [of c xs n] dw [of d ys m] assms by simp
  then have "xs = ys" "c = d" by simp_all
  moreover from this assms(1) have "show_nat n = show_nat m" by simp
  then have "n = m" by (metis digits_value_show_nat)
  ultimately show ?thesis by simp
qed

lemma span_tail_unique:
  assumes "xs @ show_nat s @ lit ''..'' @ show_nat e = ys @ show_nat s' @ lit ''..'' @ show_nat e'"
    and "xs = us @ [c]" and "ys = vs @ [d]" and "\<not> is_ascii_digit c" and "\<not> is_ascii_digit d"
  shows "xs = ys \<and> s = s' \<and> e = e'"
proof -
  have dot: "\<not> is_ascii_digit 46" by (simp add: is_ascii_digit_def)
  have "(xs @ show_nat s @ [46]) @ 46 # show_nat e = (ys @ show_nat s' @ [46]) @ 46 # show_nat e'"
    using assms(1) by simp
  from digit_tail_unique [OF this dot dot] have "xs @ show_nat s = ys @ show_nat s'" and e: "e = e'" by simp_all
  then have "us @ c # show_nat s = vs @ d # show_nat s'" using assms(2,3) by simp
  from digit_tail_unique [OF this assms(4,5)] show ?thesis using e assms(2,3) by simp
qed

lemma declaration_path_unique:
  "m @ lit ''#decl.'' @ show_nat s @ lit ''..'' @ show_nat e = m' @ lit ''#decl.'' @ show_nat s' @ lit ''..'' @ show_nat e'
   \<longleftrightarrow> m = m' \<and> s = s' \<and> e = e'"
  using span_tail_unique [of "m @ lit ''#decl.''" s e "m' @ lit ''#decl.''" s' e' "m @ lit ''#decl''" 46 "m' @ lit ''#decl''" 46]
  by (auto simp: is_ascii_digit_def)

lemma binding_path_unique:
  "m @ lit ''#decl.'' @ show_nat s @ lit ''..'' @ show_nat e @ lit ''.binding.'' @ show_nat k
     = m' @ lit ''#decl.'' @ show_nat s' @ lit ''..'' @ show_nat e' @ lit ''.binding.'' @ show_nat k'
   \<longleftrightarrow> m = m' \<and> s = s' \<and> e = e' \<and> k = k'"
  using digit_tail_unique [of "m @ lit ''#decl.'' @ show_nat s @ lit ''..'' @ show_nat e @ lit ''.binding''" 46 k
      "m' @ lit ''#decl.'' @ show_nat s' @ lit ''..'' @ show_nat e' @ lit ''.binding''" 46 k']
    declaration_path_unique [of m s e m' s' e']
  by (auto simp: is_ascii_digit_def)

lemma binding_path_differs:
  "m @ lit ''#decl.'' @ show_nat s @ lit ''..'' @ show_nat e @ lit ''.binding.'' @ show_nat k
     \<noteq> m' @ lit ''#decl.'' @ show_nat s' @ lit ''..'' @ show_nat e'"
proof
  let ?x = "m @ lit ''#decl.'' @ show_nat s @ lit ''..'' @ show_nat e @ lit ''.bindin''" and ?y = "m' @ lit ''#decl.'' @ show_nat s'"
  assume "m @ lit ''#decl.'' @ show_nat s @ lit ''..'' @ show_nat e @ lit ''.binding.'' @ show_nat k
     = m' @ lit ''#decl.'' @ show_nat s' @ lit ''..'' @ show_nat e'"
  then have "(?x @ [103]) @ 46 # show_nat k = (?y @ [46]) @ 46 # show_nat e'" by simp
  from digit_tail_unique [OF this] have "?x @ [103] = ?y @ [46]" by (simp add: is_ascii_digit_def)
  then show False by (simp only: append1_eq_conv) simp
qed

lemma expression_path_unique:
  "m @ lit ''#'' @ show_nat s @ lit ''..'' @ show_nat e = m' @ lit ''#'' @ show_nat s' @ lit ''..'' @ show_nat e'
   \<longleftrightarrow> m = m' \<and> s = s' \<and> e = e'"
  using span_tail_unique [of "m @ lit ''#''" s e "m' @ lit ''#''" s' e' m 35 m' 35] by (auto simp: is_ascii_digit_def)

lemma statement_path_unique:
  "m @ lit ''#stmt.'' @ show_nat s @ lit ''..'' @ show_nat e = m' @ lit ''#stmt.'' @ show_nat s' @ lit ''..'' @ show_nat e'
   \<longleftrightarrow> m = m' \<and> s = s' \<and> e = e'"
  using span_tail_unique [of "m @ lit ''#stmt.''" s e "m' @ lit ''#stmt.''" s' e' "m @ lit ''#stmt''" 46 "m' @ lit ''#stmt''" 46]
  by (auto simp: is_ascii_digit_def)

section \<open>Properties\<close>

text \<open>
  C16: The fact store is deterministic: the store, and with it every query and the order in which its
  facts are visited, depends only on which facts were inserted and not on the order of the insertions.
\<close>
theorem fact_store_order_independent:
  assumes "mset fs = mset gs"
  shows "fold fact_insert fs fact_store_new = fold fact_insert gs fact_store_new"
proof -
  have "store_facts (fold fact_insert fs fact_store_new) = store_facts (fold fact_insert gs fact_store_new)"
    using store_map_inserts [of fs] store_map_inserts [of gs] facts_of_mset [OF assms]
    by (intro nodes.ok_unique) simp_all
  then show ?thesis by simp
qed

definition flag_fact :: "rstr \<Rightarrow> bool \<Rightarrow> SemanticFact" where
  "flag_fact m b = \<lparr>fact_subject = node_module m, fact_kind = RuntimeRequirement, fact_value = FlagValue b\<rparr>"

theorem fact_store_order_independent_witness:
  "fold fact_insert [flag_fact [98] True, flag_fact [97] True, flag_fact [98] False] fact_store_new
     = fold fact_insert [flag_fact [98] False, flag_fact [98] True, flag_fact [97] True] fact_store_new"
  by (rule fact_store_order_independent) simp

text \<open>
  C26: What a store holds: after any insertions the entries are in subject order with sorted non-empty
  fact lists, the facts of a subject are exactly those inserted for it, and iteration visits every
  inserted fact once per insertion.
\<close>
theorem fact_store_contents:
  "store_ok (fold fact_insert fs fact_store_new)
   \<and> facts_for (fold fact_insert fs fact_store_new) s = sort_key key_fact (filter (\<lambda>f. fact_subject f = s) fs)
   \<and> mset (store_iter (fold fact_insert fs fact_store_new)) = mset fs"
proof (intro conjI)
  show "store_ok (fold fact_insert fs fact_store_new)"
    by (rule store_ok_inserts) (simp add: store_ok_def fact_store_new_def)
  show "facts_for (fold fact_insert fs fact_store_new) s = sort_key key_fact (filter (\<lambda>f. fact_subject f = s) fs)"
    using store_map_inserts [of fs] by (simp add: facts_for_def facts_of_def Let_def)
  show "mset (store_iter (fold fact_insert fs fact_store_new)) = mset fs"
    using fact_inserts_mset [of fs fact_store_new] by (simp add: store_iter_def fact_store_new_def)
qed

text \<open>
  C29: Span identities are unambiguous: although a module identity may be any text, an expression,
  statement, declaration or declaration-binding identity determines its module, byte range and ordinal,
  and no declaration identity is also the identity of a binding.
\<close>
theorem span_identities_injective:
  "(expression_span_id m s e = expression_span_id m' s' e' \<longleftrightarrow> m = m' \<and> s = s' \<and> e = e')
   \<and> (statement_span_id m s e = statement_span_id m' s' e' \<longleftrightarrow> m = m' \<and> s = s' \<and> e = e')
   \<and> (declaration_span_id m s e = declaration_span_id m' s' e' \<longleftrightarrow> m = m' \<and> s = s' \<and> e = e')
   \<and> (declaration_binding_span_id m s e k = declaration_binding_span_id m' s' e' k'
        \<longleftrightarrow> m = m' \<and> s = s' \<and> e = e' \<and> k = k')
   \<and> declaration_binding_span_id m s e k \<noteq> declaration_span_id m' s' e'"
  by (simp only: expression_span_id_def statement_span_id_def declaration_span_id_def declaration_binding_span_id_def
      node_new_def CompilerNodeId.ext_inject simp_thms expression_path_unique statement_path_unique
      declaration_path_unique binding_path_unique binding_path_differs)

text \<open>
  Declaration kinds and their spellings: reading a kind's spelling gives the kind back, unless the
  kind is an unadopted spelling that happens to be an adopted one; and every spelling is kept.
\<close>
theorem target_kind_spelling_roundtrip:
  "(from_kind_str (kind_as_str k) = k \<longleftrightarrow> (case k of OtherKind u \<Rightarrow> u \<notin> fst ` set KIND_STRINGS | _ \<Rightarrow> True))
   \<and> kind_as_str (from_kind_str s) = s"
proof
  show "from_kind_str (kind_as_str k) = k \<longleftrightarrow> (case k of OtherKind u \<Rightarrow> u \<notin> fst ` set KIND_STRINGS | _ \<Rightarrow> True)"
  proof (cases "\<exists>s. k = OtherKind s")
    case True
    then obtain s where [simp]: "k = OtherKind s" by blast
    have "OtherKind s \<notin> snd ` set KIND_STRINGS" by (simp add: KIND_STRINGS_def)
    then have "map_of KIND_STRINGS s \<noteq> Some (OtherKind s)" by (metis image_eqI map_of_SomeD snd_conv)
    then show ?thesis
      by (auto simp: from_kind_str_def map_of_eq_None_iff [symmetric] split: option.splits)
  next
    case False
    then show ?thesis by (cases k) (simp_all add: from_kind_str_def KIND_STRINGS_def)
  qed
  have "list_all (\<lambda>(s, k). kind_as_str k = s) KIND_STRINGS" by (simp add: KIND_STRINGS_def)
  then show "kind_as_str (from_kind_str s) = s"
    by (auto simp: from_kind_str_def list_all_iff dest: map_of_SomeD split: option.splits)
qed

end
