(* ===== verification/Checked_Dependencies.thy ===== *)
theory Checked_Dependencies
  imports Semantic_Facts
begin

text \<open>
  Checked declaration relationships: \<open>incan_semantics_core/src/dependencies.rs\<close>.  References are read
  from the fact store, refused where its identity facts disagree, and joined into a dependency graph
  whose closure selects what an execution needs.
\<close>

section \<open>References\<close>

record CheckedReference =
  ref_target :: CanonicalSymbolId
  ref_requirement :: CanonicalSymbolId
  ref_owner :: "CanonicalSymbolId option"

definition unique_identity ::
  "SemanticFactStore \<Rightarrow> CompilerNodeId \<Rightarrow> SemanticFactKind \<Rightarrow> CanonicalSymbolId option" where
  "unique_identity st s k =
     (case List.map_filter identity_value (facts_for_kind st s k) of
        [] \<Rightarrow> None
      | first # others \<Rightarrow> if list_all (\<lambda>i. i = first) others then Some first else None)"

definition checked_reference :: "SemanticFactStore \<Rightarrow> CompilerNodeId \<Rightarrow> CheckedReference option" where
  "checked_reference st s =
     (case unique_identity st s SymbolIdentity of
        None \<Rightarrow> None
      | Some target \<Rightarrow>
          (case (if facts_for_kind st s RequiredReferenceTarget \<noteq> []
                 then unique_identity st s RequiredReferenceTarget else Some target) of
             None \<Rightarrow> None
           | Some requirement \<Rightarrow>
               Some \<lparr>ref_target = target, ref_requirement = requirement,
                     ref_owner = unique_identity st s ReferenceOwner\<rparr>))"

definition checked_reference_sites :: "SemanticFactStore \<Rightarrow> (HirSourceSpan \<times> CheckedReference) list" where
  "checked_reference_sites st =
     List.map_filter
       (\<lambda>f. case fact_value f of
              SourceSpanValue span \<Rightarrow> map_option (Pair span) (checked_reference st (fact_subject f))
            | _ \<Rightarrow> None)
       (facts_by_kind st ReferenceSpan)"

section \<open>The graph\<close>

record CheckedDependencyGraph =
  graph_edges :: "(CanonicalSymbolId, CanonicalSymbolId btree_set) btree_map"

definition graph_default :: CheckedDependencyGraph where
  "graph_default = \<lparr>graph_edges = []\<rparr>"

definition or_default :: "'a list option \<Rightarrow> 'a list" where
  "or_default old = (case old of Some s \<Rightarrow> s | None \<Rightarrow> [])"

definition add_node :: "CanonicalSymbolId \<Rightarrow> CheckedDependencyGraph \<Rightarrow> CheckedDependencyGraph" where
  "add_node i g = g\<lparr>graph_edges := bt_update key_symbol i or_default (graph_edges g)\<rparr>"

definition add_edge :: "CanonicalSymbolId \<Rightarrow> CanonicalSymbolId \<Rightarrow> CheckedDependencyGraph \<Rightarrow> CheckedDependencyGraph" where
  "add_edge owner i g =
     g\<lparr>graph_edges := bt_update key_symbol owner (\<lambda>old. bs_insert key_symbol i (or_default old)) (graph_edges g)\<rparr>"

definition add_declaration ::
  "SemanticFactStore \<Rightarrow> SemanticFact \<Rightarrow> CheckedDependencyGraph \<Rightarrow> CheckedDependencyGraph" where
  "add_declaration st f g =
     (case fact_value f of
        CanonicalIdentity i \<Rightarrow>
          (let g = add_node i g in
           case unique_identity st (fact_subject f) RequiredMemberOwner of
             Some owner \<Rightarrow> add_edge owner i g
           | None \<Rightarrow> g)
      | _ \<Rightarrow> g)"

definition add_reference ::
  "SemanticFactStore \<Rightarrow> SemanticFact \<Rightarrow> CheckedDependencyGraph \<Rightarrow> CheckedDependencyGraph" where
  "add_reference st f g =
     (case checked_reference st (fact_subject f) of
        Some r \<Rightarrow> (case ref_owner r of Some owner \<Rightarrow> add_edge owner (ref_requirement r) g | None \<Rightarrow> g)
      | None \<Rightarrow> g)"

definition add_store :: "SemanticFactStore \<Rightarrow> CheckedDependencyGraph \<Rightarrow> CheckedDependencyGraph" where
  "add_store st g =
     fold (add_reference st) (facts_by_kind st SymbolIdentity)
       (fold (add_declaration st) (facts_by_kind st DeclarationIdentity) g)"

definition from_fact_stores :: "SemanticFactStore list \<Rightarrow> CheckedDependencyGraph" where
  "from_fact_stores stores = fold add_store stores graph_default"

definition dependencies :: "CheckedDependencyGraph \<Rightarrow> CanonicalSymbolId \<Rightarrow> CanonicalSymbolId list" where
  "dependencies g owner = or_default (map_of (graph_edges g) owner)"

section \<open>The closure\<close>

definition graph_targets :: "CheckedDependencyGraph \<Rightarrow> CanonicalSymbolId set" where
  "graph_targets g = (\<Union>p \<in> set (graph_edges g). set (snd p))"

lemma dependencies_targets: "set (dependencies g i) \<subseteq> graph_targets g"
proof
  fix x assume "x \<in> set (dependencies g i)"
  then obtain ts where "map_of (graph_edges g) i = Some ts" "x \<in> set ts"
    by (cases "map_of (graph_edges g) i") (auto simp: dependencies_def or_default_def)
  then show "x \<in> graph_targets g" by (force simp: graph_targets_def dest!: map_of_SomeD)
qed

lemma finite_graph_targets [simp]: "finite (graph_targets g)"
  by (simp add: graph_targets_def)

lemma last_butlast_set: "xs \<noteq> [] \<Longrightarrow> set xs = insert (last xs) (set (butlast xs))"
  by (metis append_butlast_last_id list.simps(15) rotate1.simps(2) set_rotate1)

lemma worklist_decreases:
  assumes "pending \<noteq> []" and "last pending \<notin> V"
  shows "card (graph_targets g \<union> set (butlast pending @ dependencies g (last pending)) - insert (last pending) V)
       < card (graph_targets g \<union> set pending - V)"
proof (rule psubset_card_mono)
  show "graph_targets g \<union> set (butlast pending @ dependencies g (last pending)) - insert (last pending) V
      \<subset> graph_targets g \<union> set pending - V"
    using assms dependencies_targets [of g "last pending"] last_butlast_set [OF assms(1)] by auto
qed simp

lemma worklist_no_growth:
  "card (graph_targets g \<union> set (butlast pending) - V) \<le> card (graph_targets g \<union> set pending - V)"
  by (rule card_mono) (auto dest: in_set_butlastD)

function reachable_loop ::
  "CheckedDependencyGraph \<Rightarrow> CanonicalSymbolId list \<Rightarrow> CanonicalSymbolId btree_set \<Rightarrow> CanonicalSymbolId btree_set" where
  "reachable_loop g pending visited =
     (if pending = [] then visited
      else let i = last pending; pending = butlast pending in
           if i \<in> set visited then reachable_loop g pending visited
           else reachable_loop g (pending @ dependencies g i) (bs_insert key_symbol i visited))"
  by pat_completeness auto
termination
proof (relation "measures [\<lambda>(g, pending, visited). card (graph_targets g \<union> set pending - set visited),
                           \<lambda>(g, pending, visited). length pending]", goal_cases)
  case (2 g pending visited x xa)
  then show ?case using worklist_no_growth [of g pending "set visited"] by (auto simp: le_less)
next
  case (3 g pending visited x xa)
  then show ?case using worklist_decreases [of pending "set visited" g] by simp
qed simp

declare reachable_loop.simps [simp del]

lemma reachable_loop_steps:
  "reachable_loop g [] visited = visited"
  "pending \<noteq> [] \<Longrightarrow> last pending \<in> set visited \<Longrightarrow> reachable_loop g pending visited = reachable_loop g (butlast pending) visited"
  "pending \<noteq> [] \<Longrightarrow> last pending \<notin> set visited \<Longrightarrow> reachable_loop g pending visited
     = reachable_loop g (butlast pending @ dependencies g (last pending)) (bs_insert key_symbol (last pending) visited)"
  by (simp_all add: reachable_loop.simps [of g pending] reachable_loop.simps [of g "[]"] Let_def)

definition reachable_from :: "CheckedDependencyGraph \<Rightarrow> CanonicalSymbolId list \<Rightarrow> CanonicalSymbolId btree_set" where
  "reachable_from g roots = reachable_loop g roots []"

section \<open>The nearest declaring owner\<close>

definition contains_span :: "CanonicalSymbolId \<Rightarrow> HirSourceSpan \<Rightarrow> bool" where
  "contains_span d span \<longleftrightarrow>
     \<not> (span_start (declaration_span d) > span_start span \<or> span_end (declaration_span d) < span_end span)"

definition owner_width :: "CanonicalSymbolId \<Rightarrow> nat" where
  "owner_width d = span_end (declaration_span d) - span_start (declaration_span d)"

definition closest_step ::
  "HirSourceSpan \<Rightarrow> CanonicalSymbolId \<Rightarrow> CanonicalSymbolId option \<times> bool \<Rightarrow> CanonicalSymbolId option \<times> bool" where
  "closest_step span d st =
     (if \<not> contains_span d span then st
      else case fst st of
        None \<Rightarrow> (Some d, False)
      | Some previous \<Rightarrow>
          if owner_width d < owner_width previous then (Some d, False)
          else if owner_width d = owner_width previous \<and> d \<noteq> previous then (Some previous, True)
          else st)"

definition closest_declaring_owner :: "CanonicalSymbolId list \<Rightarrow> HirSourceSpan \<Rightarrow> CanonicalSymbolId option" where
  "closest_declaring_owner ds span =
     (case fold (closest_step span) ds (None, False) of (closest, ambiguous) \<Rightarrow> if ambiguous then None else closest)"

section \<open>Edges of the graph\<close>

definition graph_ok :: "CheckedDependencyGraph \<Rightarrow> bool" where
  "graph_ok g \<longleftrightarrow> bt_ok key_symbol (graph_edges g)"

text \<open>The edges a fact contributes.\<close>

definition declaration_edge :: "SemanticFactStore \<Rightarrow> SemanticFact \<Rightarrow> CanonicalSymbolId \<Rightarrow> CanonicalSymbolId \<Rightarrow> bool" where
  "declaration_edge st f owner i \<longleftrightarrow>
     fact_value f = CanonicalIdentity i \<and> unique_identity st (fact_subject f) RequiredMemberOwner = Some owner"

definition reference_edge :: "SemanticFactStore \<Rightarrow> SemanticFact \<Rightarrow> CanonicalSymbolId \<Rightarrow> CanonicalSymbolId \<Rightarrow> bool" where
  "reference_edge st f owner i \<longleftrightarrow>
     (case checked_reference st (fact_subject f) of
        Some r \<Rightarrow> ref_owner r = Some owner \<and> ref_requirement r = i | None \<Rightarrow> False)"

definition store_edge :: "SemanticFactStore \<Rightarrow> CanonicalSymbolId \<Rightarrow> CanonicalSymbolId \<Rightarrow> bool" where
  "store_edge st owner i \<longleftrightarrow>
     list_ex (\<lambda>f. declaration_edge st f owner i) (facts_by_kind st DeclarationIdentity)
     \<or> list_ex (\<lambda>f. reference_edge st f owner i) (facts_by_kind st SymbolIdentity)"

lemma or_default_simps [simp]: "or_default None = []" "or_default (Some s) = s"
  by (simp_all add: or_default_def)

lemma add_node_edges [simp]:
  assumes "graph_ok g"
  shows "graph_ok (add_node i g)" and "dependencies (add_node i g) owner = dependencies g owner"
  using assms by (auto simp: graph_ok_def add_node_def dependencies_def symbols.get_update or_default_def)

lemma add_edge_edges [simp]:
  assumes "graph_ok g"
  shows "graph_ok (add_edge o' i g)"
    and "set (dependencies (add_edge o' i g) owner) = (if owner = o' then insert i (set (dependencies g owner)) else set (dependencies g owner))"
  using assms by (simp_all add: graph_ok_def add_edge_def dependencies_def symbols.get_update)

lemma fold_edges:
  assumes "\<And>f g. graph_ok g \<Longrightarrow> graph_ok (step f g) \<and> set (dependencies (step f g) owner) = {i. edge f i} \<union> set (dependencies g owner)"
    and "graph_ok g"
  shows "graph_ok (fold step fs g) \<and> set (dependencies (fold step fs g) owner) = {i. list_ex (\<lambda>f. edge f i) fs} \<union> set (dependencies g owner)"
  using assms(2)
proof (induction fs arbitrary: g)
  case Nil then show ?case by simp
next
  case (Cons f fs)
  then show ?case using assms(1) [OF Cons.prems, of f] Cons.IH [of "step f g"] by auto
qed

lemma add_declaration_edges:
  "graph_ok g \<Longrightarrow> graph_ok (add_declaration st f g)
     \<and> set (dependencies (add_declaration st f g) owner) = {i. declaration_edge st f owner i} \<union> set (dependencies g owner)"
  by (auto simp: add_declaration_def declaration_edge_def Let_def split: SemanticFactValue.splits option.splits)

lemma add_reference_edges:
  "graph_ok g \<Longrightarrow> graph_ok (add_reference st f g)
     \<and> set (dependencies (add_reference st f g) owner) = {i. reference_edge st f owner i} \<union> set (dependencies g owner)"
  by (auto simp: add_reference_def reference_edge_def split: option.splits)

lemma add_store_edges:
  assumes "graph_ok g"
  shows "graph_ok (add_store st g)
     \<and> set (dependencies (add_store st g) owner) = {i. store_edge st owner i} \<union> set (dependencies g owner)"
proof -
  let ?d = "fold (add_declaration st) (facts_by_kind st DeclarationIdentity) g"
  from fold_edges [where step = "add_declaration st" and edge = "\<lambda>f. declaration_edge st f owner", OF add_declaration_edges assms]
  have d: "graph_ok ?d" "set (dependencies ?d owner) = {i. list_ex (\<lambda>f. declaration_edge st f owner i) (facts_by_kind st DeclarationIdentity)} \<union> set (dependencies g owner)"
    by auto
  from fold_edges [where step = "add_reference st" and edge = "\<lambda>f. reference_edge st f owner", OF add_reference_edges d(1)]
  show ?thesis using d(2) by (auto simp: add_store_def store_edge_def)
qed

lemma from_fact_stores_edges:
  "set (dependencies (from_fact_stores stores) owner) = {i. list_ex (\<lambda>st. store_edge st owner i) stores}"
proof -
  have "graph_ok graph_default" by (simp add: graph_ok_def graph_default_def)
  from fold_edges [where step = add_store and edge = "\<lambda>st. store_edge st owner", OF add_store_edges this]
  show ?thesis by (auto simp: from_fact_stores_def graph_default_def dependencies_def)
qed

section \<open>Correctness of the closure\<close>

inductive reaches :: "CheckedDependencyGraph \<Rightarrow> CanonicalSymbolId \<Rightarrow> CanonicalSymbolId \<Rightarrow> bool" for g where
  reaches_refl: "reaches g i i"
| reaches_step: "reaches g i j \<Longrightarrow> k \<in> set (dependencies g j) \<Longrightarrow> reaches g i k"

lemma reaches_trans: "reaches g j k \<Longrightarrow> reaches g i j \<Longrightarrow> reaches g i k"
  by (induction rule: reaches.induct) (auto intro: reaches.intros)

lemma reachable_loop_sound:
  "set (reachable_loop g pending visited) \<subseteq> set visited \<union> {i. \<exists>r \<in> set pending. reaches g r i}"
proof (induction g pending visited rule: reachable_loop.induct)
  case (1 g pending visited)
  show ?case
  proof (cases "pending = []")
    case True then show ?thesis by (simp add: reachable_loop.simps)
  next
    case False
    let ?i = "last pending"
    have b: "r \<in> set pending" if "r \<in> set (butlast pending)" for r using that by (rule in_set_butlastD)
    show ?thesis
    proof (cases "?i \<in> set visited")
      case True
      with 1(1) [OF False refl refl] show ?thesis using False True b
        by (auto simp: reachable_loop_steps(2))
    next
      case notin: False
      have "\<exists>r \<in> set pending. reaches g r i"
        if "i = ?i \<or> (\<exists>r \<in> set (butlast pending @ dependencies g ?i). reaches g r i)" for i
        using that False b reaches_trans [OF _ reaches_step [OF reaches_refl]]
        by (auto intro: reaches_refl bexI [of _ ?i])
      with 1(2) [OF False refl refl notin] show ?thesis using False notin
        by (auto simp: reachable_loop_steps(3))
    qed
  qed
qed

lemma reachable_loop_closed:
  assumes "\<And>i. i \<in> set visited \<Longrightarrow> set (dependencies g i) \<subseteq> set visited \<union> set pending"
  shows "set visited \<union> set pending \<subseteq> set (reachable_loop g pending visited)
     \<and> (\<forall>i \<in> set (reachable_loop g pending visited). set (dependencies g i) \<subseteq> set (reachable_loop g pending visited))"
  using assms
proof (induction g pending visited rule: reachable_loop.induct)
  case (1 g pending visited)
  show ?case
  proof (cases "pending = []")
    case True then show ?thesis using 1(3) by (simp add: reachable_loop.simps)
  next
    case False
    let ?i = "last pending"
    note p = last_butlast_set [OF False]
    show ?thesis
    proof (cases "?i \<in> set visited")
      case True
      then have "set (dependencies g j) \<subseteq> set visited \<union> set (butlast pending)" if "j \<in> set visited" for j
        using 1(3) [OF that] p by auto
      from 1(1) [OF False refl refl True this] show ?thesis using False True p
        by (auto simp: reachable_loop_steps(2))
    next
      case notin: False
      have "set (dependencies g j) \<subseteq> set (bs_insert key_symbol ?i visited) \<union> set (butlast pending @ dependencies g ?i)"
        if "j \<in> set (bs_insert key_symbol ?i visited)" for j
        using that 1(3) [of j] p by auto
      from 1(2) [OF False refl refl notin this] show ?thesis using False notin p
        by (simp add: reachable_loop_steps(3))
    qed
  qed
qed

lemma reachable_loop_ascending:
  "ascending key_symbol visited \<Longrightarrow> ascending key_symbol (reachable_loop g pending visited)"
proof (induction g pending visited rule: reachable_loop.induct)
  case (1 g pending visited)
  consider "pending = []" | "pending \<noteq> []" "last pending \<in> set visited" | "pending \<noteq> []" "last pending \<notin> set visited" by blast
  then show ?case
  proof cases
    case 1 then show ?thesis using "1.prems" by (simp add: reachable_loop_steps)
  next
    case 2 then show ?thesis using "1.IH"(1) [OF _ refl refl] "1.prems" by (simp add: reachable_loop_steps)
  next
    case 3 then show ?thesis using "1.IH"(2) [OF _ refl refl] "1.prems" by (simp add: reachable_loop_steps)
  qed
qed

lemma set_reachable_from: "set (reachable_from g roots) = {i. \<exists>r \<in> set roots. reaches g r i}"
proof
  show "set (reachable_from g roots) \<subseteq> {i. \<exists>r \<in> set roots. reaches g r i}"
    using reachable_loop_sound [of g roots "[]"] by (simp add: reachable_from_def)
  have cl: "set roots \<subseteq> set (reachable_from g roots)"
    "\<And>i. i \<in> set (reachable_from g roots) \<Longrightarrow> set (dependencies g i) \<subseteq> set (reachable_from g roots)"
    using reachable_loop_closed [of "[]" g roots] by (auto simp: reachable_from_def)
  have "i \<in> set (reachable_from g roots)" if "reaches g r i" and "r \<in> set roots" for r i
    using that by (induction rule: reaches.induct) (use cl in auto)
  then show "{i. \<exists>r \<in> set roots. reaches g r i} \<subseteq> set (reachable_from g roots)" by auto
qed

section \<open>Correctness of the nearest owner\<close>

definition narrowest :: "HirSourceSpan \<Rightarrow> CanonicalSymbolId list \<Rightarrow> CanonicalSymbolId \<Rightarrow> bool" where
  "narrowest span ds d \<longleftrightarrow>
     d \<in> set ds \<and> contains_span d span
     \<and> list_all (\<lambda>d'. contains_span d' span \<longrightarrow> owner_width d \<le> owner_width d') ds"

definition closest_inv :: "HirSourceSpan \<Rightarrow> CanonicalSymbolId list \<Rightarrow> CanonicalSymbolId option \<times> bool \<Rightarrow> bool" where
  "closest_inv span ds st \<longleftrightarrow>
     (case st of
        (None, ambiguous) \<Rightarrow> \<not> ambiguous \<and> list_all (\<lambda>d. \<not> contains_span d span) ds
      | (Some d, ambiguous) \<Rightarrow>
          narrowest span ds d
          \<and> (ambiguous \<longleftrightarrow> list_ex (\<lambda>d'. contains_span d' span \<and> owner_width d' = owner_width d \<and> d' \<noteq> d) ds))"

lemma closest_inv_step: "closest_inv span ds st \<Longrightarrow> closest_inv span (ds @ [d]) (closest_step span d st)"
  by (cases st; cases "fst st")
     (auto simp: closest_inv_def closest_step_def narrowest_def list_all_iff list_ex_iff split: if_splits)

lemma closest_inv_fold: "closest_inv span ds (fold (closest_step span) ds (None, False))"
proof (induction ds rule: rev_induct)
  case Nil then show ?case by (simp add: closest_inv_def)
next
  case (snoc d ds) then show ?case by (simp add: closest_inv_step)
qed

section \<open>Properties\<close>

text \<open>
  C12: The execution closure is exact: the worklist of \<open>reachable_from\<close> always ends, and it returns, in
  identity order, precisely the declarations that the roots reach along dependency edges, external
  targets included.
\<close>
theorem reachable_from_is_closure:
  "ascending key_symbol (reachable_from g roots)
   \<and> set (reachable_from g roots) = {i. \<exists>r. r \<in> set roots \<and> reaches g r i}"
  using set_reachable_from [of g roots] reachable_loop_ascending [of "[]" g roots]
  by (auto simp: reachable_from_def)


text \<open>
  C17: The nearest declaring owner is the unique narrowest declaration around the site: a declaration is
  returned exactly when it contains the span, no containing declaration is narrower and no other one is
  as narrow.  In particular the order in which declarations are visited does not matter.
\<close>
theorem closest_owner_is_unique_narrowest:
  "closest_declaring_owner ds span = Some d \<longleftrightarrow>
     d \<in> set ds \<and> contains_span d span
     \<and> (\<forall>d' \<in> set ds. contains_span d' span \<longrightarrow> owner_width d < owner_width d' \<or> d' = d)"
proof (cases "fold (closest_step span) ds (None, False)")
  case (Pair closest ambiguous)
  with closest_inv_fold [of span ds] have inv: "closest_inv span ds (closest, ambiguous)" by simp
  show ?thesis
  proof (cases closest)
    case None
    with inv Pair show ?thesis by (auto simp: closest_declaring_owner_def closest_inv_def list_all_iff)
  next
    case (Some e)
    then have e: "e \<in> set ds" "contains_span e span" "\<And>d'. d' \<in> set ds \<Longrightarrow> contains_span d' span \<Longrightarrow> owner_width e \<le> owner_width d'"
      and amb: "ambiguous \<longleftrightarrow> (\<exists>d' \<in> set ds. contains_span d' span \<and> owner_width d' = owner_width e \<and> d' \<noteq> e)"
      using inv by (auto simp: closest_inv_def narrowest_def list_all_iff list_ex_iff)
    have res: "closest_declaring_owner ds span = Some d \<longleftrightarrow> \<not> ambiguous \<and> e = d"
      using Pair Some by (simp add: closest_declaring_owner_def)
    show ?thesis
    proof
      assume "closest_declaring_owner ds span = Some d"
      then have "\<not> ambiguous" "d = e" using res by simp_all
      then show "d \<in> set ds \<and> contains_span d span
          \<and> (\<forall>d' \<in> set ds. contains_span d' span \<longrightarrow> owner_width d < owner_width d' \<or> d' = d)"
        using e amb by (metis le_neq_implies_less)
    next
      assume d: "d \<in> set ds \<and> contains_span d span
          \<and> (\<forall>d' \<in> set ds. contains_span d' span \<longrightarrow> owner_width d < owner_width d' \<or> d' = d)"
      with e have "e = d" by (metis leD)
      moreover from this d have "\<not> ambiguous" using amb by (metis less_irrefl)
      ultimately show "closest_declaring_owner ds span = Some d" using res by simp
    qed
  qed
qed

definition span_declaration :: "rstr \<Rightarrow> nat \<Rightarrow> nat \<Rightarrow> CanonicalSymbolId" where
  "span_declaration name s e =
     \<lparr>namespace = OrdinaryLexical, origin = ModuleOrigin [lit ''main''], declaration_name = name, kind = FunctionKind,
      scope_discriminant = None, declaration_span = \<lparr>span_start = s, span_end = e\<rparr>\<rparr>"

theorem closest_owner_is_unique_narrowest_witness:
  "closest_declaring_owner [span_declaration [97] 0 100, span_declaration [98] 30 90, span_declaration [99] 50 80]
     \<lparr>span_start = 35, span_end = 36\<rparr> = Some (span_declaration [98] 30 90)"
  by (subst closest_owner_is_unique_narrowest)
     (simp add: span_declaration_def contains_span_def owner_width_def)

end
