(* ===== verification/Authority_Decisions.thy ===== *)
theory Authority_Decisions
  imports Semantic_Facts
begin

text \<open>
  Authority decisions: \<open>incan_semantics_core/src/authority.rs\<close> with the constructors and accessors of
  \<open>AuthorityDecision\<close> in \<open>facts.rs\<close>.  A consumer asks through the trait \<open>AuthorityDecisionSource\<close>; its
  contract is the locale \<open>authority_source\<close>, which the reference implementation \<open>StaticAuthority\<close>
  interprets.
\<close>

section \<open>Requests and decisions\<close>

record AuthorityRequest =
  req_capability :: CanonicalSymbolId
  req_operation :: CanonicalSymbolId
  req_span :: HirSourceSpan
  req_scope :: "(rstr \<times> rstr) list"
  req_suggested_grant :: rstr

definition request_provenance :: "AuthorityRequest \<Rightarrow> AuthorityProvenance" where
  "request_provenance r =
     \<lparr>operation = req_operation r, request_span = req_span r, suggested_grant = req_suggested_grant r\<rparr>"

definition request_grant_context ::
  "AuthorityRequest \<Rightarrow> CanonicalSymbolId list \<Rightarrow> CanonicalSymbolId list option \<Rightarrow> AuthorityGrantContext" where
  "request_grant_context r grants ceil =
     \<lparr>requested_scope = req_scope r, effective_grants_of = grants, ceiling_of = ceil\<rparr>"

definition decision_allowed ::
  "CanonicalSymbolId \<Rightarrow> AuthorityMode \<Rightarrow> AuthorityGrantContext \<Rightarrow> AuthorityProvenance \<Rightarrow> AuthorityDecision" where
  "decision_allowed c m g p =
     \<lparr>capability = c, decision_mode = m, outcome = Allowed, grant = g, provenance = p\<rparr>"

definition decision_denied ::
  "CanonicalSymbolId \<Rightarrow> AuthorityMode \<Rightarrow> AuthorityDenialReason \<Rightarrow> AuthorityGrantContext \<Rightarrow> AuthorityProvenance
   \<Rightarrow> AuthorityDecision" where
  "decision_denied c m reason g p =
     \<lparr>capability = c, decision_mode = m, outcome = Denied reason, grant = g, provenance = p\<rparr>"

definition is_allowed :: "AuthorityDecision \<Rightarrow> bool" where
  "is_allowed d \<longleftrightarrow> outcome d = Allowed"

definition denial_reason :: "AuthorityDecision \<Rightarrow> AuthorityDenialReason option" where
  "denial_reason d = (case outcome d of Allowed \<Rightarrow> None | Denied reason \<Rightarrow> Some reason)"

section \<open>The static source\<close>

record StaticAuthority =
  auth_mode :: AuthorityMode
  granted :: "CanonicalSymbolId btree_set"
  ceiling :: "CanonicalSymbolId btree_set option"

definition authority_new :: "AuthorityMode \<Rightarrow> CanonicalSymbolId list \<Rightarrow> StaticAuthority" where
  "authority_new m gs = \<lparr>auth_mode = m, granted = bs_collect key_symbol gs, ceiling = None\<rparr>"

definition with_ceiling :: "StaticAuthority \<Rightarrow> CanonicalSymbolId list \<Rightarrow> StaticAuthority" where
  "with_ceiling a cs = a\<lparr>ceiling := Some (bs_collect key_symbol cs)\<rparr>"

definition authority_mode_default :: AuthorityMode where
  "authority_mode_default = Observe"

definition authority_default :: StaticAuthority where
  "authority_default = authority_new authority_mode_default []"

definition effective_grants :: "StaticAuthority \<Rightarrow> CanonicalSymbolId btree_set" where
  "effective_grants a =
     (case ceiling a of
        Some c \<Rightarrow> bs_collect key_symbol (filter (\<lambda>g. g \<in> set c) (granted a))
      | None \<Rightarrow> granted a)"

definition decide :: "StaticAuthority \<Rightarrow> AuthorityRequest \<Rightarrow> AuthorityDecision" where
  "decide a r =
     (let context = request_grant_context r
            (filter (\<lambda>g. g = req_capability r) (effective_grants a)) (ceiling a);
          prov = request_provenance r
      in if auth_mode a \<noteq> Governed then decision_allowed (req_capability r) (auth_mode a) context prov
         else
           let outside_ceiling = (case ceiling a of Some c \<Rightarrow> req_capability r \<notin> set c | None \<Rightarrow> False);
               reason = (if outside_ceiling then Some OutsideCeiling
                         else if req_capability r \<notin> set (granted a) then Some NotGranted
                         else None)
           in case reason of
                Some reason \<Rightarrow> decision_denied (req_capability r) (auth_mode a) reason context prov
              | None \<Rightarrow> decision_allowed (req_capability r) (auth_mode a) context prov)"

section \<open>What a source promises\<close>

text \<open>
  \<open>permitted\<close> is the effective grant set of the source.  A decision is about the request it answers,
  carries the source's mode, and under governance allows an operation only with a permitted capability,
  which its grant context then names.
\<close>

locale authority_source =
  fixes decision_for :: "AuthorityRequest \<Rightarrow> AuthorityDecision"
    and mode :: AuthorityMode
    and permitted :: "CanonicalSymbolId set"
  assumes subject: "capability (decision_for r) = req_capability r"
    and origin: "provenance (decision_for r) = request_provenance r"
    and under: "decision_mode (decision_for r) = mode"
    and evidence: "effective_grants_of (grant (decision_for r)) =
          (if req_capability r \<in> permitted then [req_capability r] else [])"
    and ungoverned: "mode \<noteq> Governed \<Longrightarrow> is_allowed (decision_for r)"
    and governed: "mode = Governed \<Longrightarrow> is_allowed (decision_for r) \<longleftrightarrow> req_capability r \<in> permitted"
begin

lemma allowed_has_evidence:
  "mode = Governed \<Longrightarrow> is_allowed (decision_for r) \<longleftrightarrow> capability (decision_for r) \<in> set (effective_grants_of (grant (decision_for r)))"
  by (simp add: governed evidence subject)

lemma denied_iff: "\<not> is_allowed (decision_for r) \<longleftrightarrow> mode = Governed \<and> req_capability r \<notin> permitted"
  using governed ungoverned by blast

lemma scope_irrelevant:
  "req_capability r = req_capability r' \<Longrightarrow> is_allowed (decision_for r) = is_allowed (decision_for r')"
  using denied_iff by metis

end

lemma symbol_filter_one: "ascending key_symbol xs \<Longrightarrow> filter (\<lambda>g. g = x) xs = (if x \<in> set xs then [x] else [])"
proof (induction xs)
  case (Cons y xs)
  then have "y \<notin> set xs" by auto
  then show ?case using Cons by auto
qed simp

definition authority_ok :: "StaticAuthority \<Rightarrow> bool" where
  "authority_ok a \<longleftrightarrow> ascending key_symbol (granted a) \<and> (case ceiling a of Some c \<Rightarrow> ascending key_symbol c | None \<Rightarrow> True)"

lemma authority_ok_builders [simp]:
  "authority_ok (authority_new m gs)" "authority_ok a \<Longrightarrow> authority_ok (with_ceiling a cs)"
  by (simp_all add: authority_ok_def authority_new_def with_ceiling_def)

lemma set_effective_grants:
  "set (effective_grants a) = (case ceiling a of Some c \<Rightarrow> set (granted a) \<inter> set c | None \<Rightarrow> set (granted a))"
  by (auto simp: effective_grants_def split: option.splits)

lemma ascending_effective: "authority_ok a \<Longrightarrow> ascending key_symbol (effective_grants a)"
  by (auto simp: effective_grants_def authority_ok_def split: option.splits)

lemma decide_source:
  assumes "authority_ok a"
  shows "authority_source (decide a) (auth_mode a) (set (effective_grants a))"
proof
  note defs = decide_def Let_def decision_allowed_def decision_denied_def request_grant_context_def is_allowed_def
  fix r
  show "capability (decide a r) = req_capability r" "provenance (decide a r) = request_provenance r"
    "decision_mode (decide a r) = auth_mode a"
    by (simp_all add: defs split: option.splits)
  have "grant (decide a r) = request_grant_context r (filter (\<lambda>g. g = req_capability r) (effective_grants a)) (ceiling a)"
    by (simp add: defs split: option.splits)
  then show "effective_grants_of (grant (decide a r)) = (if req_capability r \<in> set (effective_grants a) then [req_capability r] else [])"
    by (simp add: request_grant_context_def symbol_filter_one [OF ascending_effective [OF assms]])
  show "auth_mode a \<noteq> Governed \<Longrightarrow> is_allowed (decide a r)" by (simp add: defs)
  show "auth_mode a = Governed \<Longrightarrow> is_allowed (decide a r) \<longleftrightarrow> req_capability r \<in> set (effective_grants a)"
    by (auto simp: defs set_effective_grants split: option.splits if_splits)
qed

interpretation unbounded: authority_source "decide (authority_new m gs)" m "set gs"
  for m gs
  using decide_source [OF authority_ok_builders(1), of m gs] by (simp add: set_effective_grants authority_new_def)

interpretation bounded: authority_source "decide (with_ceiling (authority_new m gs) cs)" m "set gs \<inter> set cs"
  for m gs cs
  using decide_source [OF authority_ok_builders(2) [OF authority_ok_builders(1)], of m gs cs]
  by (simp add: set_effective_grants authority_new_def with_ceiling_def)

section \<open>Properties\<close>

text \<open>
  C18: A ceiling only ever narrows authority.  With a host ceiling, a governed run denies a request
  exactly when its capability is not both granted and under the ceiling; it says the ceiling is the
  reason whenever the capability lies outside it, and that nothing was granted otherwise.  The decision
  records the capability as evidence exactly when it is effective, and names the requesting operation.
  Runs that are not governed are never denied.
\<close>
theorem ceiling_intersects_grants:
  "(is_allowed (decide (with_ceiling (authority_new m gs) cs) r) \<longleftrightarrow> (if m = Governed then req_capability r \<in> set gs \<inter> set cs else True))
   \<and> denial_reason (decide (with_ceiling (authority_new Governed gs) cs) r) =
       (if req_capability r \<notin> set cs then Some OutsideCeiling
        else if req_capability r \<notin> set gs then Some NotGranted else None)
   \<and> effective_grants_of (grant (decide (with_ceiling (authority_new m gs) cs) r)) =
       (if req_capability r \<in> set gs \<inter> set cs then [req_capability r] else [])
   \<and> provenance (decide (with_ceiling (authority_new m gs) cs) r) = request_provenance r"
proof (intro conjI)
  show "is_allowed (decide (with_ceiling (authority_new m gs) cs) r) \<longleftrightarrow> (if m = Governed then req_capability r \<in> set gs \<inter> set cs else True)"
    using bounded.denied_iff [of m gs cs r] by (cases "m = Governed") auto
  show "denial_reason (decide (with_ceiling (authority_new Governed gs) cs) r) =
      (if req_capability r \<notin> set cs then Some OutsideCeiling
       else if req_capability r \<notin> set gs then Some NotGranted else None)"
    by (simp add: decide_def authority_new_def with_ceiling_def denial_reason_def Let_def
        decision_allowed_def decision_denied_def)
qed (simp_all add: bounded.evidence bounded.origin)

end
