(* ===== verification/Suite_Partition.thy ===== *)
theory Suite_Partition
  imports Ordered_Containers
begin

text \<open>
  Partitioned replay of the compiler's test suite.

  \<^item> \<open>oven_rustc/src/native_test/case_slice.rs\<close>: splitting one test root's cases into slices;
  \<^item> \<open>oven-cli/src/commands/oven/case_partition.rs\<close>: dividing heavy roots and packing the units into shards;
  \<^item> \<open>oven-cli/src/commands/oven.rs\<close>: the weights of the roots and the units one invocation runs.

  Weights are \<open>u64\<close>: running totals saturate.  Reading measurements from report files is left out, so
  measurements are arguments.
\<close>

section \<open>Greedy packing\<close>

definition saturating_add_u64 :: "nat \<Rightarrow> nat \<Rightarrow> nat" where
  "saturating_add_u64 a b = min (2 ^ 64 - 1) (a + b)"

text \<open>\<open>(0..count).min_by_key(|bin| (totals[bin], bin))\<close>: the first bin with the least total.\<close>

definition lightest_bin :: "nat list \<Rightarrow> nat option" where
  "lightest_bin totals =
     fold (\<lambda>bin best. case best of
                        None \<Rightarrow> Some bin
                      | Some b \<Rightarrow> if totals ! bin < totals ! b \<or> totals ! bin = totals ! b \<and> bin < b
                                 then Some bin else Some b)
       [0..<length totals] None"

definition greedy_step :: "'a \<times> nat \<Rightarrow> 'a list list \<times> nat list \<Rightarrow> 'a list list \<times> nat list" where
  "greedy_step item st =
     (case (item, st) of ((x, weight), (bins, totals)) \<Rightarrow>
        (case lightest_bin totals of
           None \<Rightarrow> (bins, totals)
         | Some b \<Rightarrow> (bins[b := bins ! b @ [x]], totals[b := saturating_add_u64 (totals ! b) weight])))"

definition greedy_bins :: "nat \<Rightarrow> ('a \<times> nat) list \<Rightarrow> 'a list list" where
  "greedy_bins n items = fst (fold greedy_step items (replicate n [], replicate n 0))"

section \<open>Case slices\<close>

record OvenNativeTestCaseSlice =
  slice_index :: nat
  slice_count :: nat
  measured_case_millis :: "rstr \<Rightarrow> nat option"

record OvenNativeTestCaseSliceReport =
  report_index :: nat
  report_count :: nat
  inventory_count :: nat
  selected :: "rstr list"

definition case_weight :: "(rstr \<Rightarrow> nat option) \<Rightarrow> rstr \<Rightarrow> nat" where
  "case_weight measured name = max (case measured name of Some millis \<Rightarrow> millis | None \<Rightarrow> 0) 1"

definition assign_case_slices :: "rstr list \<Rightarrow> (rstr \<Rightarrow> nat option) \<Rightarrow> nat \<Rightarrow> rstr list list" where
  "assign_case_slices inventory measured n =
     (if n = 0 then []
      else
        let ordered = sort_key (\<lambda>(name, millis). - int millis # key_str name)
                        (map (\<lambda>name. (name, case_weight measured name)) inventory)
        in map (sort_key key_str) (greedy_bins n ordered))"

definition select_case_slice :: "rstr list \<Rightarrow> OvenNativeTestCaseSlice \<Rightarrow> OvenNativeTestCaseSliceReport" where
  "select_case_slice inventory sl =
     (let bins = assign_case_slices inventory (measured_case_millis sl) (slice_count sl)
      in \<lparr>report_index = slice_index sl, report_count = slice_count sl,
          inventory_count = length inventory,
          selected = (if slice_index sl < length bins then bins ! slice_index sl else [])\<rparr>)"

section \<open>Dividing and packing roots\<close>

record OvenCompilerTestSuiteTargetKey =
  package_name :: rstr
  target_name :: rstr
  suite_target_kind :: rstr
  runner :: rstr
  source_relative_path :: rstr

record OvenCompilerTestSuiteShardReference =
  identity :: rstr
  shard_target :: OvenCompilerTestSuiteTargetKey
  source_bytes :: nat

definition NATIVE_LIBTEST_RUNNER :: rstr where
  "NATIVE_LIBTEST_RUNNER = lit ''rustc-test''"

record CompilerSuiteShardUnit =
  reference :: OvenCompilerTestSuiteShardReference
  case_slice :: "(nat \<times> nat) option"

definition PARTITION_ROOT_WORKERS :: nat where
  "PARTITION_ROOT_WORKERS = 2"

definition div_ceil :: "nat \<Rightarrow> nat \<Rightarrow> nat" where
  "div_ceil a b = (if a mod b = 0 then a div b else a div b + 1)"

definition root_path :: "OvenCompilerTestSuiteShardReference \<Rightarrow> rstr" where
  "root_path r = source_relative_path (shard_target r)"

definition divide_target :: "nat \<Rightarrow> nat list \<Rightarrow> nat" where
  "divide_target partition_count weights =
     (let total = fold (\<lambda>w total. saturating_add_u64 total w) weights 0;
          share = (if partition_count = 0 then 0 else total div partition_count)
      in share div PARTITION_ROOT_WORKERS)"

definition root_slices :: "nat \<Rightarrow> nat \<Rightarrow> bool \<Rightarrow> OvenCompilerTestSuiteShardReference \<Rightarrow> nat \<Rightarrow> nat" where
  "root_slices partition_count target measured r weight =
     (if runner (shard_target r) = NATIVE_LIBTEST_RUNNER \<and> target > 0 \<and> weight > target \<and> measured
      then max (min (div_ceil weight target) partition_count) 2 else 1)"

definition divide_root ::
  "nat \<Rightarrow> nat \<Rightarrow> (OvenCompilerTestSuiteShardReference \<Rightarrow> nat) \<Rightarrow> (OvenCompilerTestSuiteShardReference \<Rightarrow> bool)
   \<Rightarrow> OvenCompilerTestSuiteShardReference \<Rightarrow> (CompilerSuiteShardUnit \<times> nat) list" where
  "divide_root partition_count target weight_of is_measured r =
     (let weight = weight_of r;
          slices = root_slices partition_count target (is_measured r) r weight
      in if slices = 1 then [(\<lparr>reference = r, case_slice = None\<rparr>, weight)]
         else map (\<lambda>index. (\<lparr>reference = r, case_slice = Some (index, slices)\<rparr>, weight div slices)) [0..<slices])"

definition divide_giant_roots ::
  "OvenCompilerTestSuiteShardReference list \<Rightarrow> nat \<Rightarrow> (OvenCompilerTestSuiteShardReference \<Rightarrow> nat)
   \<Rightarrow> (OvenCompilerTestSuiteShardReference \<Rightarrow> bool) \<Rightarrow> (CompilerSuiteShardUnit \<times> nat) list" where
  "divide_giant_roots references partition_count weight_of is_measured =
     (let target = divide_target partition_count (map weight_of references)
      in concat (map (divide_root partition_count target weight_of is_measured) references))"

definition key_unit :: "CompilerSuiteShardUnit \<Rightarrow> ord_key" where
  "key_unit u = key_str (root_path (reference u)) @ key_str (identity (reference u))
     @ key_opt (key_pair key_nat key_nat) (case_slice u)"

definition pack_units_for_partition ::
  "(CompilerSuiteShardUnit \<times> nat) list \<Rightarrow> nat \<Rightarrow> nat \<Rightarrow> CompilerSuiteShardUnit list" where
  "pack_units_for_partition units index partition_count =
     (let ordered = sort_key (\<lambda>(u, weight). - int weight # key_unit u) units;
          partitions = greedy_bins partition_count ordered
      in sort_key key_unit (if index < length partitions then partitions ! index else []))"

section \<open>Selecting what an invocation runs\<close>

text \<open>\<open>str::trim\<close>: Unicode white space is removed at both ends.\<close>

definition is_whitespace :: "scalar \<Rightarrow> bool" where
  "is_whitespace c \<longleftrightarrow> 9 \<le> c \<and> c \<le> 13 \<or> c = 32 \<or> c = 0x85 \<or> c = 0xA0 \<or> c = 0x1680 \<or> 0x2000 \<le> c \<and> c \<le> 0x200A
     \<or> c = 0x2028 \<or> c = 0x2029 \<or> c = 0x202F \<or> c = 0x205F \<or> c = 0x3000"

definition trim :: "rstr \<Rightarrow> rstr" where
  "trim s = rev (dropWhile is_whitespace (rev (dropWhile is_whitespace s)))"

definition compiler_suite_root_weigher ::
  "OvenCompilerTestSuiteShardReference list \<Rightarrow> (rstr \<Rightarrow> nat option) \<Rightarrow> OvenCompilerTestSuiteShardReference \<Rightarrow> nat" where
  "compiler_suite_root_weigher references measured =
     (let known = List.map_filter (\<lambda>r. measured (root_path r)) references;
          measured_millis = fold (\<lambda>millis total. saturating_add_u64 total millis) known 0;
          measured_roots = length known;
          typical_millis = (if measured_roots > 0 then Some (measured_millis div measured_roots) else None)
      in (\<lambda>r. case measured (root_path r) of
                Some millis \<Rightarrow> millis
              | None \<Rightarrow> (case typical_millis of Some t \<Rightarrow> t | None \<Rightarrow> source_bytes r)))"

datatype SelectionError =
    PartitionCountZero | PartitionIndexTooLarge nat nat | PartitionNeedsBoth | PartitionWithTargets
  | PartitionExceedsRoots nat nat | NoSourceFootprint rstr | EmptyTarget | UnknownTargets "rstr list"

definition whole_unit :: "OvenCompilerTestSuiteShardReference \<Rightarrow> CompilerSuiteShardUnit" where
  "whole_unit r = \<lparr>reference = r, case_slice = None\<rparr>"

definition partition_selection :: "nat option \<Rightarrow> nat option \<Rightarrow> SelectionError + (nat \<times> nat) option" where
  "partition_selection partition_index partition_count =
     (case (partition_index, partition_count) of
        (None, None) \<Rightarrow> Inr None
      | (Some index, Some n) \<Rightarrow>
          if n > 0 \<and> index < n then Inr (Some (index, n))
          else if n = 0 then Inl PartitionCountZero
          else Inl (PartitionIndexTooLarge index n)
      | _ \<Rightarrow> Inl PartitionNeedsBoth)"

definition select_partition_units ::
  "OvenCompilerTestSuiteShardReference list \<Rightarrow> nat \<Rightarrow> nat \<Rightarrow> (rstr \<Rightarrow> nat option) \<Rightarrow> bool
   \<Rightarrow> SelectionError + CompilerSuiteShardUnit list" where
  "select_partition_units references index n measured divide_giants =
     (if n > length references then Inl (PartitionExceedsRoots n (length references))
      else
        let weight_of = compiler_suite_root_weigher references measured in
        case find (\<lambda>r. source_bytes r = 0) references of
          Some r \<Rightarrow> Inl (NoSourceFootprint (root_path r))
        | None \<Rightarrow>
            let units = (if divide_giants
                         then divide_giant_roots references n weight_of (\<lambda>r. measured (root_path r) \<noteq> None)
                         else map (\<lambda>r. (whole_unit r, weight_of r)) references)
            in Inr (pack_units_for_partition units index n))"

definition select_target_units ::
  "OvenCompilerTestSuiteShardReference list \<Rightarrow> rstr list
   \<Rightarrow> SelectionError + CompilerSuiteShardUnit list" where
  "select_target_units references requested_targets =
     (if requested_targets = [] then Inr (map whole_unit references)
      else
        let trimmed = map trim requested_targets in
        if [] \<in> set trimmed then Inl EmptyTarget
        else
          let requested = bs_collect key_str trimmed;
              unknown = filter (\<lambda>t. t \<notin> root_path ` set references) requested
          in if unknown \<noteq> [] then Inl (UnknownTargets unknown)
             else Inr (map whole_unit (filter (\<lambda>r. root_path r \<in> set requested) references)))"

definition compiler_suite_selected_shard_units ::
  "OvenCompilerTestSuiteShardReference list \<Rightarrow> rstr list \<Rightarrow> nat option \<Rightarrow> nat option
   \<Rightarrow> (rstr \<Rightarrow> nat option) \<Rightarrow> bool \<Rightarrow> SelectionError + CompilerSuiteShardUnit list" where
  "compiler_suite_selected_shard_units references requested_targets partition_index partition_count measured divide_giants =
     (case partition_selection partition_index partition_count of
        Inl e \<Rightarrow> Inl e
      | Inr part \<Rightarrow>
          if part \<noteq> None \<and> requested_targets \<noteq> [] then Inl PartitionWithTargets
          else case part of
            Some (index, n) \<Rightarrow> select_partition_units references index n measured divide_giants
          | None \<Rightarrow> select_target_units references requested_targets)"

section \<open>Greedy packing keeps every item and balances the bins\<close>

definition best_bin :: "nat list \<Rightarrow> nat \<Rightarrow> nat option \<Rightarrow> bool" where
  "best_bin totals k best \<longleftrightarrow> (if k = 0 then best = None else \<exists>b < k. best = Some b \<and> (\<forall>j < k. totals ! b \<le> totals ! j))"

lemma lightest_bin_best: "best_bin totals (length totals) (lightest_bin totals)"
proof -
  have "best_bin totals k (fold (\<lambda>bin best. case best of
                        None \<Rightarrow> Some bin
                      | Some b \<Rightarrow> if totals ! bin < totals ! b \<or> totals ! bin = totals ! b \<and> bin < b
                                 then Some bin else Some b) [0..<k] None)" for k
  proof (induction k)
    case 0 then show ?case by (simp add: best_bin_def)
  next
    case (Suc k)
    then show ?case by (cases "k = 0") (auto simp: best_bin_def less_Suc_eq, metis less_imp_le order_trans)
  qed
  then show ?thesis by (simp add: lightest_bin_def)
qed

lemma lightest_binE:
  assumes "totals \<noteq> []"
  obtains b where "lightest_bin totals = Some b" "b < length totals" "\<forall>j < length totals. totals ! b \<le> totals ! j"
  using lightest_bin_best [of totals] assms by (auto simp: best_bin_def)

lemma mset_concat_update:
  "b < length bins \<Longrightarrow> mset (concat (bins[b := bins ! b @ [x]])) = add_mset x (mset (concat bins))"
  by (induction bins arbitrary: b) (auto simp: less_Suc_eq_0_disj split: nat.splits)

definition packed :: "nat \<Rightarrow> ('a \<times> nat) list \<Rightarrow> 'a list list \<times> nat list \<Rightarrow> bool" where
  "packed n items st \<longleftrightarrow> length (fst st) = n \<and> length (snd st) = n \<and> mset (concat (fst st)) = mset (map fst items)"

lemma packed_step:
  assumes "packed n items st" and "0 < n"
  shows "packed n (items @ [item]) (greedy_step item st)"
proof -
  obtain bins totals x w where [simp]: "st = (bins, totals)" "item = (x, w)" by (cases st; cases item)
  have "totals \<noteq> []" using assms by (auto simp: packed_def)
  then obtain b where "lightest_bin totals = Some b" "b < length totals" by (rule lightest_binE)
  then show ?thesis using assms by (simp add: packed_def greedy_step_def mset_concat_update)
qed

lemma packed_fold: "0 < n \<Longrightarrow> packed n items (fold greedy_step items (replicate n [], replicate n 0))"
proof (induction items rule: rev_induct)
  case Nil
  have "mset (concat (replicate n [])) = {#}" by (induction n) auto
  then show ?case by (simp add: packed_def)
qed (simp add: packed_step)

lemma greedy_bins_all:
  assumes "0 < n"
  shows "length (greedy_bins n items) = n" and "mset (concat (greedy_bins n items)) = mset (map fst items)"
  using packed_fold [OF assms, of items] by (simp_all add: packed_def greedy_bins_def)

text \<open>Totals never differ by more than one weight, whether or not they saturate.\<close>

definition even_totals :: "nat \<Rightarrow> nat list \<Rightarrow> bool" where
  "even_totals W totals \<longleftrightarrow> (\<forall>i < length totals. totals ! i < 2 ^ 64 \<and> (\<forall>j < length totals. totals ! i \<le> totals ! j + W))"

definition bin_weights :: "('a \<Rightarrow> nat) \<Rightarrow> 'a list list \<Rightarrow> nat list" where
  "bin_weights w bins = map (\<lambda>bin. sum_list (map w bin)) bins"

lemma even_totals_step:
  assumes "even_totals W totals" and "w \<le> W" and "b < length totals"
    and "\<forall>j < length totals. totals ! b \<le> totals ! j"
  shows "even_totals W (totals[b := saturating_add_u64 (totals ! b) w])"
proof -
  let ?t = "saturating_add_u64 (totals ! b) w"
  have t: "totals ! b \<le> ?t" "?t \<le> totals ! b + w" "?t < 2 ^ 64"
    using assms(1,3) by (auto simp: even_totals_def saturating_add_u64_def min_def)
  show ?thesis
    unfolding even_totals_def
  proof (intro allI impI conjI)
    fix i assume i: "i < length (totals[b := ?t])"
    then show "totals[b := ?t] ! i < 2 ^ 64" using assms(1) t by (cases "i = b") (simp_all add: even_totals_def)
    fix j assume j: "j < length (totals[b := ?t])"
    have "totals ! i \<le> totals ! j + W" "totals ! b \<le> totals ! j" using assms(1,4) i j by (simp_all add: even_totals_def)
    then show "totals[b := ?t] ! i \<le> totals[b := ?t] ! j + W"
      using t assms(2,3) by (auto simp: nth_list_update)
  qed
qed

lemma greedy_fold_weights:
  assumes "0 < n" and "list_all (\<lambda>(x, m). m = w x \<and> m \<le> W) items" and "sum_list (map snd items) < 2 ^ 64"
  shows "let st = fold greedy_step items (replicate n [], replicate n 0)
         in length (fst st) = n \<and> snd st = bin_weights w (fst st) \<and> even_totals W (snd st)
            \<and> sum_list (snd st) = sum_list (map snd items)"
  using assms(2,3)
proof (induction items rule: rev_induct)
  case Nil
  show ?case by (simp add: bin_weights_def even_totals_def Let_def sum_list_replicate)
next
  case (snoc item items)
  obtain x m where item: "item = (x, m)" "m = w x" "m \<le> W" using snoc.prems by (cases item) auto
  obtain bins totals where st: "fold greedy_step items (replicate n [], replicate n 0) = (bins, totals)" by fastforce
  from snoc st have len: "length bins = n" and bw: "totals = bin_weights w bins"
    and ev: "even_totals W totals" and sum: "sum_list totals = sum_list (map snd items)" by (auto simp: Let_def)
  have "totals \<noteq> []" using assms(1) len bw by (auto simp: bin_weights_def)
  then obtain b where b: "lightest_bin totals = Some b" "b < length totals" "\<forall>j < length totals. totals ! b \<le> totals ! j"
    by (rule lightest_binE)
  have "totals ! b \<le> sum_list totals" using b(2) by (simp add: member_le_sum_list)
  then have sat: "saturating_add_u64 (totals ! b) m = totals ! b + m"
    using snoc.prems(2) sum item by (simp add: saturating_add_u64_def)
  have bl: "b < length bins" using b(2) bw by (simp add: bin_weights_def)
  have "totals[b := totals ! b + m] = bin_weights w (bins[b := bins ! b @ [x]])"
    using bl bw item by (simp add: bin_weights_def map_update)
  moreover have "even_totals W (totals[b := totals ! b + m])"
    using even_totals_step [OF ev item(3) b(2,3)] sat by simp
  moreover have "sum_list (totals[b := totals ! b + m]) = sum_list totals + m"
    using b(2) by (simp add: sum_list_update member_le_sum_list)
  moreover have "greedy_step item (bins, totals) = (bins[b := bins ! b @ [x]], totals[b := totals ! b + m])"
    using b(1) item sat by (simp add: greedy_step_def)
  ultimately show ?case using st item len sum by (simp add: Let_def)
qed

section \<open>Slices and units cover everything once\<close>

lemma mset_concat_sort: "mset (concat (map (sort_key k) bins)) = mset (concat bins)"
  by (induction bins) simp_all

lemma concat_map_concat: "concat (map (\<lambda>i. concat (map f (g i))) xs) = concat (map f (concat (map g xs)))"
  by (induction xs) simp_all

lemma concat_map_mset: "(\<And>x. x \<in> set xs \<Longrightarrow> mset (f x) = mset (g x)) \<Longrightarrow> mset (concat (map f xs)) = mset (concat (map g xs))"
  by (induction xs) auto

lemma mset_concat_perm: "mset xs = mset ys \<Longrightarrow> mset (concat (map f xs)) = mset (concat (map f ys))"
proof -
  have "mset (concat (map f zs)) = (\<Sum>z \<in># mset zs. mset (f z))" for zs by (induction zs) auto
  then show "mset xs = mset ys \<Longrightarrow> ?thesis" by simp
qed

lemma assign_slices_shape:
  assumes "0 < n"
  shows "length (assign_case_slices inventory measured n) = n"
    and "mset (concat (assign_case_slices inventory measured n)) = mset inventory"
proof -
  show "length (assign_case_slices inventory measured n) = n"
    using greedy_bins_all(1) [OF assms] assms by (simp add: assign_case_slices_def Let_def)
  show "mset (concat (assign_case_slices inventory measured n)) = mset inventory"
    using assms by (simp add: assign_case_slices_def Let_def mset_concat_sort greedy_bins_all(2) multiset.map_comp o_def)
qed

text \<open>The cases a unit runs, given every root's live inventory and its recorded durations.\<close>

definition unit_cases ::
  "(OvenCompilerTestSuiteShardReference \<Rightarrow> rstr list) \<Rightarrow> (OvenCompilerTestSuiteShardReference \<Rightarrow> rstr \<Rightarrow> nat option)
   \<Rightarrow> CompilerSuiteShardUnit \<Rightarrow> (OvenCompilerTestSuiteShardReference \<times> rstr) list" where
  "unit_cases inventory measured u =
     map (Pair (reference u))
       (case case_slice u of
          None \<Rightarrow> inventory (reference u)
        | Some (index, n) \<Rightarrow>
            selected (select_case_slice (inventory (reference u))
              \<lparr>slice_index = index, slice_count = n, measured_case_millis = measured (reference u)\<rparr>))"

lemma slices_cover:
  assumes "0 < n"
  shows "mset (concat (map (\<lambda>i. selected (select_case_slice inventory
           \<lparr>slice_index = i, slice_count = n, measured_case_millis = m\<rparr>)) [0..<n])) = mset inventory"
proof -
  let ?bins = "assign_case_slices inventory m n"
  have "map (\<lambda>i. selected (select_case_slice inventory \<lparr>slice_index = i, slice_count = n, measured_case_millis = m\<rparr>)) [0..<n]
      = map (\<lambda>i. ?bins ! i) [0..<length ?bins]"
    using assign_slices_shape(1) [OF assms, of inventory m] by (simp add: select_case_slice_def Let_def)
  then show ?thesis using assign_slices_shape(2) [OF assms, of inventory m] by (simp add: map_nth)
qed

lemma divided_root_cases:
  "mset (concat (map (unit_cases inventory measured) (map fst (divide_root n target weight_of is_measured r))))
   = mset (map (Pair r) (inventory r))"
proof -
  let ?k = "root_slices n target (is_measured r) r (weight_of r)"
  have pos: "0 < ?k" by (auto simp: root_slices_def max_def)
  show ?thesis
  proof (cases "?k = 1")
    case True
    then show ?thesis by (simp add: divide_root_def Let_def unit_cases_def)
  next
    case False
    let ?s = "\<lambda>i. selected (select_case_slice (inventory r) \<lparr>slice_index = i, slice_count = ?k, measured_case_millis = measured r\<rparr>)"
    have "concat (map (unit_cases inventory measured) (map fst (divide_root n target weight_of is_measured r)))
        = map (Pair r) (concat (map ?s [0..<?k]))"
      using False by (simp add: divide_root_def Let_def unit_cases_def map_concat o_def)
    then show ?thesis using slices_cover [OF pos, of "inventory r" "measured r"] by (metis mset_map)
  qed
qed

lemma packed_units_all:
  assumes "0 < n"
  shows "mset (concat (map (\<lambda>i. pack_units_for_partition units i n) [0..<n])) = mset (map fst units)"
proof -
  let ?o = "sort_key (\<lambda>(u, weight). - int weight # key_unit u) units"
  let ?bins = "greedy_bins n ?o"
  have "map (\<lambda>i. pack_units_for_partition units i n) [0..<n] = map (sort_key key_unit) (map (\<lambda>i. ?bins ! i) [0..<length ?bins])"
    using greedy_bins_all(1) [OF assms, of ?o] by (simp add: pack_units_for_partition_def Let_def)
  then show ?thesis
    using greedy_bins_all(2) [OF assms, of ?o] by (simp add: map_nth mset_concat_sort)
qed

section \<open>Properties\<close>

text \<open>
  C10: A partitioned replay runs the whole suite exactly once: whatever the weights and recorded
  durations, over all shards of a partitioning the units that are selected run every case of every
  root's live inventory exactly once, whether the root is kept whole or divided into slices.
\<close>
theorem partitioned_suite_runs_every_case_once:
  "mset (concat (map (\<lambda>shard. concat (map (unit_cases inventory case_millis)
        (pack_units_for_partition (divide_giant_roots references (Suc n) weight_of is_measured) shard (Suc n))))
      [0..<Suc n]))
   = mset (concat (map (\<lambda>r. map (Pair r) (inventory r)) references))"
proof -
  let ?units = "divide_giant_roots references (Suc n) weight_of is_measured"
  let ?target = "divide_target (Suc n) (map weight_of references)"
  let ?pack = "\<lambda>i. pack_units_for_partition ?units i (Suc n)"
  have "concat (map (\<lambda>i. concat (map (unit_cases inventory case_millis) (?pack i))) [0..<Suc n])
      = concat (map (unit_cases inventory case_millis) (concat (map ?pack [0..<Suc n])))"
    by (rule concat_map_concat)
  also have "mset \<dots> = mset (concat (map (unit_cases inventory case_millis) (map fst ?units)))"
    by (rule mset_concat_perm) (rule packed_units_all, simp)
  also have "\<dots> = mset (concat (map (\<lambda>r. concat (map (unit_cases inventory case_millis)
        (map fst (divide_root (Suc n) ?target weight_of is_measured r)))) references))"
    by (simp only: concat_map_concat [where g = "\<lambda>r. map fst (divide_root (Suc n) ?target weight_of is_measured r)"])
       (simp add: divide_giant_roots_def Let_def map_concat o_def)
  also have "\<dots> = mset (concat (map (\<lambda>r. map (Pair r) (inventory r)) references))"
    by (rule concat_map_mset) (rule divided_root_cases)
  finally show ?thesis .
qed



end
