(* ===== verification/Suite_Reconciliation.thy ===== *)
theory Suite_Reconciliation
  imports Suite_Partition
begin

text \<open>
  Joint coverage of partitioned suite reports: \<open>oven-cli/src/commands/oven/partition_reconciliation.rs\<close>.
  Reading the report files is left out; a report comes with the file name its diagnostics use.
\<close>

section \<open>Reports\<close>

record PartitionSelection =
  sel_partition_index :: "nat option"
  sel_partition_count :: "nat option"

record PartitionRoot =
  root_source_path :: rstr
  root_case_slice :: "OvenNativeTestCaseSliceReport option"

record PartitionReport =
  success :: bool
  selection :: PartitionSelection
  native_test_roots :: "PartitionRoot list"

datatype Problem =
    NotAPartitionReport rstr | CountDisagrees rstr nat nat | ReportedTwice rstr nat | DidNotSucceed rstr nat
  | ReportsMissing "nat list" | RunWhole rstr nat "nat list" | WholeAndSliced rstr
  | SliceCountsDisagree rstr "nat list" | InventoriesDiffer rstr "nat list" | SliceIndices rstr "nat list" nat
  | SelectedTwice rstr | SelectedShort rstr nat nat

definition comma_join :: "rstr list \<Rightarrow> rstr" where
  "comma_join xs = (case xs of [] \<Rightarrow> [] | y # ys \<Rightarrow> y @ concat (map (\<lambda>z. lit '', '' @ z) ys))"

definition debug_vec :: "nat list \<Rightarrow> rstr" where
  "debug_vec ns = lit ''['' @ comma_join (map show_nat ns) @ lit '']''"

definition debug_set :: "nat list \<Rightarrow> rstr" where
  "debug_set ns = lit ''{'' @ comma_join (map show_nat ns) @ lit ''}''"

fun render_problem :: "Problem \<Rightarrow> rstr" where
  "render_problem (NotAPartitionReport f) = f @ lit '': not a partition report (no partition index/count)''"
| "render_problem (CountDisagrees f c e) =
     f @ lit '': partition count '' @ show_nat c @ lit '' disagrees with '' @ show_nat e"
| "render_problem (ReportedTwice f i) = f @ lit '': partition '' @ show_nat i @ lit '' reported twice''"
| "render_problem (DidNotSucceed f i) = f @ lit '': partition '' @ show_nat i @ lit '' did not succeed''"
| "render_problem (ReportsMissing is) = lit ''partition report(s) missing for index(es) '' @ debug_vec is"
| "render_problem (RunWhole r n is) =
     r @ lit '': run whole on '' @ show_nat n @ lit '' partitions '' @ debug_vec is"
| "render_problem (WholeAndSliced r) = r @ lit '': run both whole and as slices''"
| "render_problem (SliceCountsDisagree r cs) = r @ lit '': slices disagree on slice count '' @ debug_set cs"
| "render_problem (InventoriesDiffer r is) = r @ lit '': slices saw different inventories '' @ debug_set is"
| "render_problem (SliceIndices r is c) =
     r @ lit '': slice indices '' @ debug_vec is @ lit '' do not cover 0..'' @ show_nat (c - 1) @ lit '' exactly once''"
| "render_problem (SelectedTwice r) = r @ lit '': a case was selected by more than one slice''"
| "render_problem (SelectedShort r d i) =
     r @ lit '': slices selected '' @ show_nat d @ lit '' distinct case(s) of an inventory of '' @ show_nat i"

record ReconciliationSummary =
  summary_partition_count :: "nat option"
  partitions_seen :: "nat list"
  whole_roots :: nat
  sliced_roots :: nat
  complete_suite_evidence :: bool
  problems :: "Problem list"

section \<open>Reconciling\<close>

definition reconcile_slices :: "rstr \<Rightarrow> (nat \<times> OvenNativeTestCaseSliceReport) list \<Rightarrow> Problem list" where
  "reconcile_slices root entries =
     (let counts = bs_collect key_nat (map (\<lambda>(_, s). report_count s) entries);
          inventories = bs_collect key_nat (map (\<lambda>(_, s). inventory_count s) entries)
      in if length counts \<noteq> 1 then [SliceCountsDisagree root counts]
         else if length inventories \<noteq> 1 then [InventoriesDiffer root inventories]
         else
           let c = (case counts of x # _ \<Rightarrow> x | [] \<Rightarrow> 0);
               indices = sort (map (\<lambda>(_, s). report_index s) entries);
               cases = concat (map (\<lambda>(_, s). selected s) entries);
               distinct_cases = bs_collect key_str cases;
               inventory = (case inventories of x # _ \<Rightarrow> x | [] \<Rightarrow> 0)
           in (if indices \<noteq> [0..<c] then [SliceIndices root indices c] else [])
              @ (if length cases \<noteq> length distinct_cases then [SelectedTwice root] else [])
              @ (if length distinct_cases \<noteq> inventory then [SelectedShort root (length distinct_cases) inventory] else []))"

record ReconcileState =
  st_problems :: "Problem list"
  st_count :: "nat option"
  st_seen :: "nat btree_set"
  st_whole :: "(rstr, nat list) btree_map"
  st_slices :: "(rstr, (nat \<times> OvenNativeTestCaseSliceReport) list) btree_map"

definition reconcile_root :: "nat \<Rightarrow> PartitionRoot \<Rightarrow> ReconcileState \<Rightarrow> ReconcileState" where
  "reconcile_root index root st =
     (case root_case_slice root of
        Some s \<Rightarrow> st\<lparr>st_slices := bt_push key_str (root_source_path root) (index, s) (st_slices st)\<rparr>
      | None \<Rightarrow> st\<lparr>st_whole := bt_push key_str (root_source_path root) index (st_whole st)\<rparr>)"

definition coordinate_problems :: "rstr \<Rightarrow> nat \<Rightarrow> nat \<Rightarrow> bool \<Rightarrow> ReconcileState \<Rightarrow> Problem list" where
  "coordinate_problems path c index ok st =
     (case st_count st of Some expected \<Rightarrow> if expected \<noteq> c then [CountDisagrees path c expected] else [] | None \<Rightarrow> [])
     @ (if index \<in> set (st_seen st) then [ReportedTwice path index] else [])
     @ (if \<not> ok then [DidNotSucceed path index] else [])"

definition reconcile_report :: "rstr \<times> PartitionReport \<Rightarrow> ReconcileState \<Rightarrow> ReconcileState" where
  "reconcile_report entry st =
     (case entry of (path, report) \<Rightarrow>
        (case (sel_partition_count (selection report), sel_partition_index (selection report)) of
           (Some c, Some index) \<Rightarrow>
             fold (reconcile_root index) (native_test_roots report)
               (st\<lparr>st_problems := st_problems st @ coordinate_problems path c index (success report) st,
                   st_count := (case st_count st of Some expected \<Rightarrow> Some expected | None \<Rightarrow> Some c),
                   st_seen := bs_insert key_nat index (st_seen st)\<rparr>)
         | _ \<Rightarrow> st\<lparr>st_problems := st_problems st @ [NotAPartitionReport path]\<rparr>))"

definition whole_problems ::
  "(rstr, (nat \<times> OvenNativeTestCaseSliceReport) list) btree_map \<Rightarrow> rstr \<times> nat list \<Rightarrow> Problem list" where
  "whole_problems slices entry =
     (case entry of (root, indices) \<Rightarrow>
        (if length indices \<noteq> 1 then [RunWhole root (length indices) (sort indices)] else [])
        @ (if map_of slices root \<noteq> None then [WholeAndSliced root] else []))"

definition reconcile_init :: ReconcileState where
  "reconcile_init = \<lparr>st_problems = [], st_count = None, st_seen = [], st_whole = [], st_slices = []\<rparr>"

definition reconcile :: "(rstr \<times> PartitionReport) list \<Rightarrow> ReconciliationSummary" where
  "reconcile reports =
     (let st = fold reconcile_report reports reconcile_init;
          missing = (case st_count st of Some c \<Rightarrow> filter (\<lambda>i. i \<notin> set (st_seen st)) [0..<c] | None \<Rightarrow> []);
          all_problems = st_problems st
            @ (if missing \<noteq> [] then [ReportsMissing missing] else [])
            @ concat (map (whole_problems (st_slices st)) (st_whole st))
            @ concat (map (\<lambda>(root, entries). reconcile_slices root entries) (st_slices st))
      in \<lparr>summary_partition_count = st_count st, partitions_seen = st_seen st,
          whole_roots = length (st_whole st), sliced_roots = length (st_slices st),
          complete_suite_evidence = (all_problems = [] \<and> st_count st \<noteq> None),
          problems = all_problems\<rparr>)"

section \<open>What complete evidence means\<close>

definition report_position :: "rstr \<times> PartitionReport \<Rightarrow> nat" where
  "report_position entry = (case sel_partition_index (selection (snd entry)) of Some i \<Rightarrow> i | None \<Rightarrow> 0)"

text \<open>Every report names a partition of the same count, succeeded, and no partition is reported twice.\<close>

definition consistent_reports :: "nat \<Rightarrow> (rstr \<times> PartitionReport) list \<Rightarrow> bool" where
  "consistent_reports c reports \<longleftrightarrow>
     list_all (\<lambda>(_, r). sel_partition_count (selection r) = Some c \<and> sel_partition_index (selection r) \<noteq> None \<and> success r) reports
     \<and> distinct (map report_position reports)"

definition report_whole :: "rstr \<times> PartitionReport \<Rightarrow> (rstr \<times> nat) list" where
  "report_whole entry =
     List.map_filter (\<lambda>root. case root_case_slice root of None \<Rightarrow> Some (root_source_path root, report_position entry) | Some _ \<Rightarrow> None)
       (native_test_roots (snd entry))"

definition report_slices :: "rstr \<times> PartitionReport \<Rightarrow> (rstr \<times> (nat \<times> OvenNativeTestCaseSliceReport)) list" where
  "report_slices entry =
     List.map_filter (\<lambda>root. map_option (\<lambda>s. (root_source_path root, (report_position entry, s))) (root_case_slice root))
       (native_test_roots (snd entry))"

definition whole_runs :: "rstr \<Rightarrow> (rstr \<times> PartitionReport) list \<Rightarrow> nat list" where
  "whole_runs path reports = values_at path (concat (map report_whole reports))"

definition slice_runs :: "rstr \<Rightarrow> (rstr \<times> PartitionReport) list \<Rightarrow> OvenNativeTestCaseSliceReport list" where
  "slice_runs path reports = map snd (values_at path (concat (map report_slices reports)))"

text \<open>One common division into slices, each slice once, no case twice and as many cases as the inventory has.\<close>

definition slices_complete :: "OvenNativeTestCaseSliceReport list \<Rightarrow> bool" where
  "slices_complete ss \<longleftrightarrow>
     (\<exists>c k. list_all (\<lambda>s. report_count s = c \<and> inventory_count s = k) ss
        \<and> mset (map report_index ss) = mset [0..<c]
        \<and> distinct (concat (map selected ss)) \<and> length (concat (map selected ss)) = k)"

definition root_complete :: "rstr \<Rightarrow> (rstr \<times> PartitionReport) list \<Rightarrow> bool" where
  "root_complete path reports \<longleftrightarrow>
     length (whole_runs path reports) \<le> 1
     \<and> (whole_runs path reports = [] \<or> slice_runs path reports = [])
     \<and> (slice_runs path reports = [] \<or> slices_complete (slice_runs path reports))"

definition jointly_complete :: "(rstr \<times> PartitionReport) list \<Rightarrow> bool" where
  "jointly_complete reports \<longleftrightarrow>
     reports \<noteq> []
     \<and> (\<exists>c. consistent_reports c reports \<and> {0..<c} \<subseteq> report_position ` set reports)
     \<and> (\<forall>path. root_complete path reports)"

section \<open>Reconciliation finds exactly the gaps\<close>

abbreviation push_all :: "(rstr \<times> 'v) list \<Rightarrow> (rstr, 'v list) btree_map \<Rightarrow> (rstr, 'v list) btree_map" where
  "push_all kvs m \<equiv> fold (\<lambda>(k, v). bt_push key_str k v) kvs m"

lemma reconcile_roots:
  "fold (reconcile_root i) roots st =
     st\<lparr>st_whole := push_all (List.map_filter (\<lambda>root. case root_case_slice root of
            None \<Rightarrow> Some (root_source_path root, i) | Some _ \<Rightarrow> None) roots) (st_whole st),
        st_slices := push_all (List.map_filter (\<lambda>root. map_option (\<lambda>s. (root_source_path root, (i, s))) (root_case_slice root)) roots)
          (st_slices st)\<rparr>"
  by (induction roots arbitrary: st)
     (auto simp: reconcile_root_def List.map_filter_def split: option.splits)

lemma consistent_snoc:
  "consistent_reports c (rs @ [e]) \<longleftrightarrow>
     consistent_reports c rs \<and> sel_partition_count (selection (snd e)) = Some c
     \<and> sel_partition_index (selection (snd e)) \<noteq> None \<and> success (snd e) \<and> report_position e \<notin> report_position ` set rs"
  by (cases e) (auto simp: consistent_reports_def)

lemma consistent_unique: "rs \<noteq> [] \<Longrightarrow> consistent_reports c rs \<Longrightarrow> consistent_reports d rs \<Longrightarrow> c = d"
  by (cases rs) (auto simp: consistent_reports_def)

lemma report_step:
  assumes "sel_partition_count (selection (snd e)) = Some c" and "sel_partition_index (selection (snd e)) = Some i"
  shows "reconcile_report e st =
     st\<lparr>st_problems := st_problems st @ coordinate_problems (fst e) c i (success (snd e)) st,
        st_count := (case st_count st of Some expected \<Rightarrow> Some expected | None \<Rightarrow> Some c),
        st_seen := bs_insert key_nat i (st_seen st),
        st_whole := push_all (report_whole e) (st_whole st),
        st_slices := push_all (report_slices e) (st_slices st)\<rparr>"
proof -
  have pos: "report_position e = i" using assms by (simp add: report_position_def)
  show ?thesis
    unfolding report_whole_def report_slices_def pos
    using assms by (cases e) (simp add: reconcile_report_def reconcile_roots)
qed

lemma report_step_problems:
  assumes "sel_partition_count (selection (snd e)) = None \<or> sel_partition_index (selection (snd e)) = None"
  shows "st_problems (reconcile_report e st) \<noteq> []"
  using assms by (cases e) (auto simp: reconcile_report_def split: option.splits)

lemma problems_grow: "st_problems st \<noteq> [] \<Longrightarrow> st_problems (reconcile_report e st) \<noteq> []"
  by (cases "sel_partition_count (selection (snd e)) = None \<or> sel_partition_index (selection (snd e)) = None")
     (auto simp: report_step report_step_problems)

definition follows :: "(rstr \<times> PartitionReport) list \<Rightarrow> ReconcileState \<Rightarrow> bool" where
  "follows rs st \<longleftrightarrow>
     (st_problems st = [] \<longleftrightarrow> (\<exists>c. consistent_reports c rs))
     \<and> (\<forall>c. consistent_reports c rs \<longrightarrow>
          set (st_seen st) = report_position ` set rs
          \<and> st_count st = (if rs = [] then None else Some c)
          \<and> st_whole st = push_all (concat (map report_whole rs)) []
          \<and> st_slices st = push_all (concat (map report_slices rs)) [])"

lemma follows_step:
  assumes "follows rs st"
  shows "follows (rs @ [e]) (reconcile_report e st)"
proof (cases "\<exists>c. consistent_reports c rs")
  case False
  then have "st_problems st \<noteq> []" using assms by (auto simp: follows_def)
  then show ?thesis using False problems_grow by (auto simp: follows_def consistent_snoc)
next
  case True
  then have ok: "st_problems st = []" using assms by (auto simp: follows_def)
  show ?thesis
  proof (cases "sel_partition_count (selection (snd e)) = None \<or> sel_partition_index (selection (snd e)) = None")
    case True then show ?thesis using report_step_problems [OF True] by (auto simp: follows_def consistent_snoc)
  next
    case False
    then obtain c i where ci: "sel_partition_count (selection (snd e)) = Some c" "sel_partition_index (selection (snd e)) = Some i"
      by auto
    then have pos: "report_position e = i" by (simp add: report_position_def)
    have all: "set (st_seen st) = report_position ` set rs" "st_whole st = push_all (concat (map report_whole rs)) []"
      "st_slices st = push_all (concat (map report_slices rs)) []"
      and cnt: "\<And>d. consistent_reports d rs \<Longrightarrow> st_count st = (if rs = [] then None else Some d)"
      using assms \<open>\<exists>c. consistent_reports c rs\<close> by (auto simp: follows_def)
    have same: "(case st_count st of Some expected \<Rightarrow> expected = c | None \<Rightarrow> True) \<longleftrightarrow> consistent_reports c rs"
    proof (cases "rs = []")
      case True then show ?thesis using cnt [of c] by (simp add: consistent_reports_def)
    next
      case False
      from \<open>\<exists>c. consistent_reports c rs\<close> obtain d where d: "consistent_reports d rs" ..
      then have "consistent_reports c rs \<longleftrightarrow> d = c" using consistent_unique [OF False d, of c] by blast
      then show ?thesis using cnt [OF d] False by simp
    qed
    have cp: "coordinate_problems (fst e) c i (success (snd e)) st = [] \<longleftrightarrow> consistent_reports c (rs @ [e])"
    proof -
      have "coordinate_problems (fst e) c i (success (snd e)) st = [] \<longleftrightarrow>
          (case st_count st of Some expected \<Rightarrow> expected = c | None \<Rightarrow> True) \<and> i \<notin> set (st_seen st) \<and> success (snd e)"
        by (cases "st_count st") (simp_all add: coordinate_problems_def)
      then show ?thesis unfolding same all(1) consistent_snoc using ci pos by auto
    qed
    have uniq: "consistent_reports d (rs @ [e]) \<Longrightarrow> d = c" for d using ci by (simp add: consistent_snoc)
    let ?st = "reconcile_report e st"
    note step = report_step [OF ci, of st]
    have "st_problems ?st = [] \<longleftrightarrow> (\<exists>d. consistent_reports d (rs @ [e]))"
      using cp uniq ok step by auto
    moreover have "set (st_seen ?st) = report_position ` set (rs @ [e])" using step all(1) pos by simp
    moreover have "st_whole ?st = push_all (concat (map report_whole (rs @ [e]))) []"
      "st_slices ?st = push_all (concat (map report_slices (rs @ [e]))) []" using step all by simp_all
    moreover have "st_count ?st = Some d" if "consistent_reports d (rs @ [e])" for d
    proof -
      have "d = c" "consistent_reports c rs" using that uniq [OF that] by (simp_all add: consistent_snoc)
      then show ?thesis using step cnt [of c] by (simp split: option.splits)
    qed
    ultimately show ?thesis by (simp add: follows_def)
  qed
qed

lemma follows_fold: "follows rs (fold reconcile_report rs reconcile_init)"
proof (induction rs rule: rev_induct)
  case Nil show ?case by (simp add: follows_def reconcile_init_def consistent_reports_def)
next
  case (snoc e rs) then show ?case by (simp add: follows_step)
qed

lemma one_value:
  assumes "xs \<noteq> []"
  shows "length (bs_collect key_nat xs) = 1 \<longleftrightarrow> (\<exists>c. list_all (\<lambda>x. x = c) xs)"
    and "list_all (\<lambda>x. x = c) xs \<Longrightarrow> bs_collect key_nat xs = [c]"
proof -
  show *: "list_all (\<lambda>x. x = c) xs \<Longrightarrow> bs_collect key_nat xs = [c]" for c
  proof -
    assume "list_all (\<lambda>x. x = c) xs"
    then have "set xs = {c}" using assms by (cases xs) (auto simp: list_all_iff)
    then show ?thesis by (intro numbers.ascending_unique) simp_all
  qed
  have "\<exists>c. list_all (\<lambda>x. x = c) xs" if "length (bs_collect key_nat xs) = 1"
  proof -
    from that obtain c where "set (bs_collect key_nat xs) = {c}" by (cases "bs_collect key_nat xs") auto
    then show ?thesis by (auto simp: list_all_iff)
  qed
  then show "length (bs_collect key_nat xs) = 1 \<longleftrightarrow> (\<exists>c. list_all (\<lambda>x. x = c) xs)" using * by auto
qed

lemma reconcile_slices_exact:
  assumes "entries \<noteq> []"
  shows "reconcile_slices root entries = [] \<longleftrightarrow> slices_complete (map snd entries)"
proof (cases "\<exists>c k. list_all (\<lambda>s. report_count s = c \<and> inventory_count s = k) (map snd entries)")
  case False
  then have "\<not> slices_complete (map snd entries)" by (auto simp: slices_complete_def)
  moreover have "length (bs_collect key_nat (map (\<lambda>(_, s). report_count s) entries)) \<noteq> 1
      \<or> length (bs_collect key_nat (map (\<lambda>(_, s). inventory_count s) entries)) \<noteq> 1"
  proof (rule ccontr)
    assume "\<not> ?thesis"
    then have "length (bs_collect key_nat (map (\<lambda>(_, s). report_count s) entries)) = 1"
      "length (bs_collect key_nat (map (\<lambda>(_, s). inventory_count s) entries)) = 1" by simp_all
    then obtain c k where "list_all (\<lambda>x. x = c) (map (\<lambda>(_, s). report_count s) entries)"
      "list_all (\<lambda>x. x = k) (map (\<lambda>(_, s). inventory_count s) entries)"
      using assms one_value(1) [of "map (\<lambda>(_, s). report_count s) entries"]
        one_value(1) [of "map (\<lambda>(_, s). inventory_count s) entries"] by auto
    then show False using False by (auto simp: list_all_iff split_beta)
  qed
  ultimately show ?thesis by (auto simp: reconcile_slices_def Let_def)
next
  case True
  then obtain c k where ck: "list_all (\<lambda>s. report_count s = c \<and> inventory_count s = k) (map snd entries)" by blast
  let ?sel = "concat (map (\<lambda>(_, s). selected s) entries)"
  have sel: "?sel = concat (map selected (map snd entries))" by (simp add: case_prod_unfold o_def)
  have "bs_collect key_nat (map (\<lambda>(_, s). report_count s) entries) = [c]"
    "bs_collect key_nat (map (\<lambda>(_, s). inventory_count s) entries) = [k]"
    using ck assms by (auto intro!: one_value(2) simp: list_all_iff split_beta)
  then have "reconcile_slices root entries = [] \<longleftrightarrow>
      sort (map (\<lambda>(_, s). report_index s) entries) = [0..<c] \<and> length ?sel = card (set ?sel) \<and> card (set ?sel) = k"
    by (auto simp: reconcile_slices_def Let_def strings.length_collect)
  also have "sort (map (\<lambda>(_, s). report_index s) entries) = [0..<c] \<longleftrightarrow> mset (map report_index (map snd entries)) = mset [0..<c]"
  proof -
    have "map (\<lambda>(_, s). report_index s) entries = map report_index (map snd entries)" by (simp add: case_prod_unfold o_def)
    then show ?thesis by (metis mset_sort properties_for_sort sorted_upt)
  qed
  also have "length ?sel = card (set ?sel) \<and> card (set ?sel) = k \<longleftrightarrow> distinct ?sel \<and> length ?sel = k"
    by (metis card_distinct distinct_card)
  finally have eq: "reconcile_slices root entries = [] \<longleftrightarrow> mset (map report_index (map snd entries)) = mset [0..<c]
      \<and> distinct (concat (map selected (map snd entries))) \<and> length (concat (map selected (map snd entries))) = k"
    unfolding sel .
  have uniq: "c' = c \<and> k' = k" if "list_all (\<lambda>s. report_count s = c' \<and> inventory_count s = k') (map snd entries)" for c' k'
    using that ck assms by (cases entries) auto
  show ?thesis unfolding slices_complete_def using eq ck uniq by blast
qed

lemma concat_map_Nil_map_of:
  assumes "bt_ok key_str m"
  shows "concat (map (\<lambda>(k, v). f k v) m) = [] \<longleftrightarrow> (\<forall>k v. map_of m k = Some v \<longrightarrow> f k v = [])"
proof -
  have "map_of m k = Some v \<longleftrightarrow> (k, v) \<in> set m" for k v
    using map_of_eq_Some_iff [OF strings.ok_distinct [OF assms]] .
  then show ?thesis by (auto simp: split_beta)
qed

lemma whole_problems_exact:
  "whole_problems slices (root, indices) = [] \<longleftrightarrow> length indices = 1 \<and> map_of slices root = None"
  by (simp add: whole_problems_def)

lemma reconcile_exact:
  assumes "consistent_reports c reports" and "reports \<noteq> []"
  shows "complete_suite_evidence (reconcile reports) \<longleftrightarrow>
     {0..<c} \<subseteq> report_position ` set reports \<and> (\<forall>path. root_complete path reports)"
proof -
  let ?st = "fold reconcile_report reports reconcile_init"
  let ?W = "concat (map report_whole reports)" and ?S = "concat (map report_slices reports)"
  have st: "st_problems ?st = []" "set (st_seen ?st) = report_position ` set reports" "st_count ?st = Some c"
    "st_whole ?st = push_all ?W []" "st_slices ?st = push_all ?S []"
    using follows_fold [of reports] assms by (auto simp: follows_def)
  have W: "bt_ok key_str (push_all ?W [])" "map_of (push_all ?W []) = (\<lambda>k. if values_at k ?W = [] then None else Some (values_at k ?W))"
    using strings.get_pushes [of ?W] by simp_all
  have S: "bt_ok key_str (push_all ?S [])" "map_of (push_all ?S []) = (\<lambda>k. if values_at k ?S = [] then None else Some (values_at k ?S))"
    using strings.get_pushes [of ?S] by simp_all
  have "filter (\<lambda>i. i \<notin> set (st_seen ?st)) [0..<c] = [] \<longleftrightarrow> {0..<c} \<subseteq> report_position ` set reports"
    using st(2) by (auto simp: filter_empty_conv)
  moreover have "concat (map (whole_problems (st_slices ?st)) (st_whole ?st)) = [] \<longleftrightarrow>
      (\<forall>p. values_at p ?W = [] \<or> length (values_at p ?W) = 1 \<and> values_at p ?S = [])"
  proof -
    have eq: "concat (map (whole_problems (st_slices ?st)) (st_whole ?st))
        = concat (map (\<lambda>(k, v). whole_problems (push_all ?S []) (k, v)) (push_all ?W []))"
      using st by (simp add: split_beta)
    show ?thesis
      unfolding eq concat_map_Nil_map_of [OF W(1)] W(2) whole_problems_exact S(2) by auto
  qed
  moreover have "concat (map (\<lambda>(root, entries). reconcile_slices root entries) (st_slices ?st)) = [] \<longleftrightarrow>
      (\<forall>p. values_at p ?S = [] \<or> slices_complete (map snd (values_at p ?S)))"
    unfolding st(5) concat_map_Nil_map_of [OF S(1)] S(2) by (auto simp: reconcile_slices_exact)
  moreover have "complete_suite_evidence (reconcile reports) \<longleftrightarrow>
      filter (\<lambda>i. i \<notin> set (st_seen ?st)) [0..<c] = []
      \<and> concat (map (whole_problems (st_slices ?st)) (st_whole ?st)) = []
      \<and> concat (map (\<lambda>(root, entries). reconcile_slices root entries) (st_slices ?st)) = []"
    using st(1,3) by (simp add: reconcile_def Let_def del: concat_eq_Nil_conv)
  moreover have "(\<forall>p. values_at p ?W = [] \<or> length (values_at p ?W) = 1 \<and> values_at p ?S = [])
      \<and> (\<forall>p. values_at p ?S = [] \<or> slices_complete (map snd (values_at p ?S)))
      \<longleftrightarrow> (\<forall>path. root_complete path reports)"
  proof -
    have "(values_at p ?W = [] \<or> length (values_at p ?W) = 1 \<and> values_at p ?S = [])
        \<longleftrightarrow> length (values_at p ?W) \<le> 1 \<and> (values_at p ?W = [] \<or> values_at p ?S = [])" for p
      by (cases "values_at p ?W") auto
    then show ?thesis by (auto simp: root_complete_def whole_runs_def slice_runs_def)
  qed
  ultimately show ?thesis by blast
qed

lemma evidence_needs_consistency:
  assumes "complete_suite_evidence (reconcile reports)"
  shows "reports \<noteq> [] \<and> (\<exists>c. consistent_reports c reports)"
proof -
  let ?st = "fold reconcile_report reports reconcile_init"
  have "st_problems ?st = []" "st_count ?st \<noteq> None" using assms by (auto simp: reconcile_def Let_def)
  then show ?thesis using follows_fold [of reports] by (auto simp: follows_def)
qed

section \<open>The reports of a planned run\<close>

text \<open>What one shard reports when all its units succeed: only native roots are listed with their cases.\<close>

definition unit_slice_report ::
  "(OvenCompilerTestSuiteShardReference \<Rightarrow> rstr list) \<Rightarrow> (OvenCompilerTestSuiteShardReference \<Rightarrow> rstr \<Rightarrow> nat option)
   \<Rightarrow> CompilerSuiteShardUnit \<Rightarrow> OvenNativeTestCaseSliceReport option" where
  "unit_slice_report inventory millis u =
     map_option (\<lambda>(i, k). select_case_slice (inventory (reference u))
       \<lparr>slice_index = i, slice_count = k, measured_case_millis = millis (reference u)\<rparr>) (case_slice u)"

definition native_unit :: "CompilerSuiteShardUnit \<Rightarrow> bool" where
  "native_unit u \<longleftrightarrow> runner (shard_target (reference u)) = NATIVE_LIBTEST_RUNNER"

definition shard_report ::
  "(OvenCompilerTestSuiteShardReference \<Rightarrow> rstr list) \<Rightarrow> (OvenCompilerTestSuiteShardReference \<Rightarrow> rstr \<Rightarrow> nat option)
   \<Rightarrow> nat \<Rightarrow> nat \<Rightarrow> CompilerSuiteShardUnit list \<Rightarrow> PartitionReport" where
  "shard_report inventory millis n i units =
     \<lparr>success = True, selection = \<lparr>sel_partition_index = Some i, sel_partition_count = Some n\<rparr>,
      native_test_roots = map (\<lambda>u. \<lparr>root_source_path = root_path (reference u),
                                    root_case_slice = unit_slice_report inventory millis u\<rparr>)
                            (filter native_unit units)\<rparr>"

lemma values_at_simps [simp]:
  "values_at k [] = []"
  "values_at k ((k', v) # kvs) = (if k' = k then v # values_at k kvs else values_at k kvs)"
  "values_at k (kvs @ kvs') = values_at k kvs @ values_at k kvs'"
  by (simp_all add: values_at_def)

lemma shard_report_position: "report_position (l, shard_report inventory millis n i us) = i"
  by (simp add: report_position_def shard_report_def)

lemma shard_whole:
  "length (values_at path (report_whole (l, shard_report inventory millis n i us)))
   = length (filter (\<lambda>u. native_unit u \<and> root_path (reference u) = path \<and> case_slice u = None) us)"
  unfolding report_whole_def shard_report_position
proof (induction us)
  case (Cons u us)
  then show ?case
    by (cases "native_unit u"; cases "case_slice u") (simp_all add: shard_report_def unit_slice_report_def List.map_filter_simps)
qed (simp add: shard_report_def List.map_filter_simps)

lemma shard_slices:
  "map snd (values_at path (report_slices (l, shard_report inventory millis n i us)))
   = List.map_filter (unit_slice_report inventory millis) (filter (\<lambda>u. native_unit u \<and> root_path (reference u) = path) us)"
  unfolding report_slices_def shard_report_position
proof (induction us)
  case (Cons u us)
  then show ?case
    by (cases "native_unit u"; cases "case_slice u") (simp_all add: shard_report_def unit_slice_report_def List.map_filter_simps)
qed (simp add: shard_report_def List.map_filter_simps)

lemma map_filter_append: "List.map_filter f (xs @ ys) = List.map_filter f xs @ List.map_filter f ys"
  by (simp add: List.map_filter_def)

lemma shard_report_runs:
  assumes "reports = map (\<lambda>i. (label i, shard_report inventory millis n i (packs i))) shards"
  shows "length (whole_runs path reports) = length (filter (\<lambda>u. native_unit u \<and> root_path (reference u) = path \<and> case_slice u = None) (concat (map packs shards)))"
    and "slice_runs path reports = List.map_filter (unit_slice_report inventory millis)
           (filter (\<lambda>u. native_unit u \<and> root_path (reference u) = path) (concat (map packs shards)))"
  unfolding assms whole_runs_def slice_runs_def
  by (induction shards) (simp_all add: shard_whole shard_slices map_filter_append List.map_filter_simps)

lemma slices_complete_mset:
  assumes "mset ss = mset ts" and "slices_complete ts"
  shows "slices_complete ss"
proof -
  have "set ss = set ts" using assms(1) by (metis set_mset_mset)
  moreover have "mset (map report_index ss) = mset (map report_index ts)" using assms(1) by simp
  moreover have "mset (concat (map selected ss)) = mset (concat (map selected ts))" using assms(1) by (rule mset_concat_perm)
  then have "distinct (concat (map selected ss)) = distinct (concat (map selected ts))"
    "length (concat (map selected ss)) = length (concat (map selected ts))"
    by (metis mset_eq_imp_distinct_iff, metis size_mset)
  ultimately show ?thesis using assms(2) by (simp add: slices_complete_def list_all_iff)
qed

lemma divided_slices_complete:
  assumes "0 < k" and "distinct inventory"
  shows "slices_complete (map (\<lambda>i. select_case_slice inventory \<lparr>slice_index = i, slice_count = k, measured_case_millis = m\<rparr>) [0..<k])"
proof -
  let ?s = "\<lambda>i. select_case_slice inventory \<lparr>slice_index = i, slice_count = k, measured_case_millis = m\<rparr>"
  have "mset (concat (map (\<lambda>i. selected (?s i)) [0..<k])) = mset inventory" by (rule slices_cover [OF assms(1)])
  then have "distinct (concat (map (\<lambda>i. selected (?s i)) [0..<k]))" "length (concat (map (\<lambda>i. selected (?s i)) [0..<k])) = length inventory"
    using assms(2) by (metis mset_eq_imp_distinct_iff, metis size_mset)
  moreover have "report_index (?s i) = i" "report_count (?s i) = k" "inventory_count (?s i) = length inventory" for i
    by (simp_all add: select_case_slice_def Let_def)
  ultimately show ?thesis
    unfolding slices_complete_def
    by (intro exI [of _ k] exI [of _ "length inventory"] conjI) (simp_all add: list_all_iff o_def del: length_concat)
qed

lemma distinct_map_filter_one:
  "distinct (map f xs) \<Longrightarrow> filter (\<lambda>x. f x = p) xs = [] \<or> (\<exists>x \<in> set xs. f x = p \<and> filter (\<lambda>x. f x = p) xs = [x])"
proof (induction xs)
  case (Cons x xs)
  have "filter (\<lambda>y. f y = p) xs = []" if "f x = p"
    using that Cons.prems by (auto simp: filter_empty_conv) (metis imageI)
  then show ?case using Cons by auto
qed simp

lemma native_units_of_path:
  assumes "distinct (map root_path (filter (\<lambda>r. runner (shard_target r) = NATIVE_LIBTEST_RUNNER) references))"
    and "\<And>r u. u \<in> set (g r) \<Longrightarrow> reference u = r"
  shows "filter (\<lambda>u. native_unit u \<and> root_path (reference u) = path) (concat (map g references)) = []
     \<or> (\<exists>r. filter (\<lambda>u. native_unit u \<and> root_path (reference u) = path) (concat (map g references)) = g r)"
proof -
  let ?N = "\<lambda>r. runner (shard_target r) = NATIVE_LIBTEST_RUNNER"
  have one: "filter (\<lambda>u. native_unit u \<and> root_path (reference u) = path) (g r) = (if ?N r \<and> root_path r = path then g r else [])" for r
    using assms(2) [of _ r] by (auto simp: filter_empty_conv native_unit_def filter_id_conv)
  have eq: "filter (\<lambda>u. native_unit u \<and> root_path (reference u) = path) (concat (map g references))
      = concat (map g (filter (\<lambda>r. root_path r = path) (filter ?N references)))"
    by (induction references) (simp_all add: one)
  from distinct_map_filter_one [OF assms(1), of path]
  consider "filter (\<lambda>r. root_path r = path) (filter ?N references) = []"
    | r where "filter (\<lambda>r. root_path r = path) (filter ?N references) = [r]" by blast
  then show ?thesis unfolding eq by cases (simp_all only: list.map concat.simps append_Nil2 simp_thms, blast)
qed

lemma divide_root_cases:
  obtains "map fst (divide_root n target weight_of is_measured r) = [\<lparr>reference = r, case_slice = None\<rparr>]"
  | k where "0 < k" "map fst (divide_root n target weight_of is_measured r) = map (\<lambda>i. \<lparr>reference = r, case_slice = Some (i, k)\<rparr>) [0..<k]"
proof -
  let ?k = "root_slices n target (is_measured r) r (weight_of r)"
  have "0 < ?k" by (auto simp: root_slices_def max_def)
  then show ?thesis using that by (cases "?k = 1") (simp_all add: divide_root_def Let_def o_def)
qed

lemma planned_root_complete:
  assumes "distinct (map root_path (filter (\<lambda>r. runner (shard_target r) = NATIVE_LIBTEST_RUNNER) references))"
    and "\<And>r. distinct (inventory r)"
    and "mset units = mset (concat (map (\<lambda>r. map fst (divide_root n target weight_of is_measured r)) references))"
    and "whole = length (filter (\<lambda>u. native_unit u \<and> root_path (reference u) = path \<and> case_slice u = None) units)"
    and "slices = List.map_filter (unit_slice_report inventory millis) (filter (\<lambda>u. native_unit u \<and> root_path (reference u) = path) units)"
  shows "whole \<le> 1 \<and> (whole = 0 \<or> slices = []) \<and> (slices = [] \<or> slices_complete slices)"
proof -
  let ?g = "\<lambda>r. map fst (divide_root n target weight_of is_measured r)"
  let ?Q = "\<lambda>u. native_unit u \<and> root_path (reference u) = path"
  have mf: "mset (filter ?Q units) = mset (filter ?Q (concat (map ?g references)))" using assms(3) by (simp only: mset_filter)
  have g: "\<And>r u. u \<in> set (?g r) \<Longrightarrow> reference u = r"
    by (auto simp: divide_root_def Let_def split: if_splits)
  have whole: "whole = length (filter (\<lambda>u. case_slice u = None) (filter ?Q units))"
    using assms(4) by (simp add: conj_commute conj_left_commute cong: filter_cong)
  from native_units_of_path [where g = ?g and path = path, OF assms(1) g] consider "filter ?Q (concat (map ?g references)) = []"
    | r where "filter ?Q (concat (map ?g references)) = ?g r" by blast
  then show ?thesis
  proof cases
    case 1
    then have "filter ?Q units = []" using mf by simp
    then show ?thesis using whole assms(5) by (simp add: List.map_filter_simps)
  next
    case (2 r)
    from divide_root_cases [of n target weight_of is_measured r] consider (W) "?g r = [\<lparr>reference = r, case_slice = None\<rparr>]"
      | (S) k where "0 < k" "?g r = map (\<lambda>i. \<lparr>reference = r, case_slice = Some (i, k)\<rparr>) [0..<k]" by metis
    then show ?thesis
    proof cases
      case W
      have "mset (filter ?Q units) = {#\<lparr>reference = r, case_slice = None\<rparr>#}" unfolding mf 2 W by simp
      then have "filter ?Q units = [\<lparr>reference = r, case_slice = None\<rparr>]" by (simp only: mset_single_iff)
      then show ?thesis using whole assms(5) by (simp add: List.map_filter_simps unit_slice_report_def)
    next
      case (S k)
      let ?us = "map (\<lambda>i. \<lparr>reference = r, case_slice = Some (i, k)\<rparr>) [0..<k]"
      have us: "mset (filter ?Q units) = mset ?us" using mf 2 S by simp
      then have "set (filter ?Q units) = set ?us" by (metis set_mset_mset)
      then have "filter (\<lambda>u. case_slice u = None) (filter ?Q units) = []" by (simp only: filter_empty_conv) auto
      then have "whole = 0" using whole by (simp only: list.size)
      moreover have "mset slices = mset (List.map_filter (unit_slice_report inventory millis) ?us)"
        using us unfolding assms(5) List.map_filter_def by (simp only: mset_map mset_filter)
      moreover have "List.map_filter (unit_slice_report inventory millis) ?us =
          map (\<lambda>i. select_case_slice (inventory r) \<lparr>slice_index = i, slice_count = k, measured_case_millis = millis r\<rparr>) [0..<k]"
        by (simp add: List.map_filter_def unit_slice_report_def o_def)
      ultimately have "whole = 0" "slices_complete slices"
        using slices_complete_mset [OF _ divided_slices_complete [OF S(1) assms(2)]] by metis+
      then show ?thesis by simp
    qed
  qed
qed

section \<open>Properties\<close>

text \<open>
  C11: Reconciliation accepts exactly the jointly complete runs: complete suite evidence is reported if
  and only if there is a report, all reports agree on the partition count, succeeded and name distinct
  partitions that include every one of the count, and every root was run whole once or in one common
  division whose slices each ran once, without a case in two slices and with as many cases as the
  inventory has.
\<close>
theorem reconcile_accepts_exactly_complete_runs:
  "complete_suite_evidence (reconcile reports) \<longleftrightarrow> jointly_complete reports"
proof
  assume ev: "complete_suite_evidence (reconcile reports)"
  then obtain c where c: "reports \<noteq> []" "consistent_reports c reports" using evidence_needs_consistency by blast
  then show "jointly_complete reports" using ev reconcile_exact [OF c(2,1)] by (auto simp: jointly_complete_def)
next
  assume "jointly_complete reports"
  then obtain c where c: "reports \<noteq> []" "consistent_reports c reports" "{0..<c} \<subseteq> report_position ` set reports"
    "\<forall>path. root_complete path reports" by (auto simp: jointly_complete_def)
  then show "complete_suite_evidence (reconcile reports)" using reconcile_exact [OF c(2,1)] by blast
qed

text \<open>
  C27: Evidence is about the real cases: where the slices of a root only name cases of its inventory and
  report its size, complete evidence means that together they ran every case of the inventory exactly
  once.
\<close>
theorem reconciled_slices_run_inventory:
  assumes "complete_suite_evidence (reconcile reports)" and "slice_runs path reports \<noteq> []"
    and "list_all (\<lambda>s. set (selected s) \<subseteq> set inventory \<and> inventory_count s = length inventory) (slice_runs path reports)"
  shows "mset (concat (map selected (slice_runs path reports))) = mset inventory"
proof -
  let ?ss = "slice_runs path reports"
  let ?cases = "concat (map selected ?ss)"
  obtain c where c: "reports \<noteq> []" "consistent_reports c reports" using evidence_needs_consistency [OF assms(1)] by blast
  then have "slices_complete ?ss" using assms(1,2) reconcile_exact [OF c(2,1)] by (auto simp: root_complete_def)
  then have d: "distinct ?cases" "length ?cases = length inventory"
    using assms(2,3) by (cases ?ss, auto simp: slices_complete_def list_all_iff)+
  have sub: "set ?cases \<subseteq> set inventory" using assms(3) by (auto simp: list_all_iff)
  have card: "card (set ?cases) = length inventory" using d by (simp only: distinct_card)
  then have "set ?cases = set inventory"
    using sub card_length [of inventory] by (metis card_seteq List.finite_set)
  moreover from this have "distinct inventory" using card by (simp add: card_distinct)
  ultimately show ?thesis using d(1) set_eq_iff_mset_eq_distinct by blast
qed

definition sample_slice :: "nat \<Rightarrow> rstr list \<Rightarrow> OvenNativeTestCaseSliceReport" where
  "sample_slice i cases = \<lparr>report_index = i, report_count = 2, inventory_count = 3, selected = cases\<rparr>"

definition sample_report :: "nat \<Rightarrow> rstr list \<Rightarrow> rstr \<times> PartitionReport" where
  "sample_report i cases =
     ([112], \<lparr>success = True, selection = \<lparr>sel_partition_index = Some i, sel_partition_count = Some 2\<rparr>,
       native_test_roots = [\<lparr>root_source_path = [103], root_case_slice = Some (sample_slice i cases)\<rparr>]\<rparr>)"

theorem reconciled_slices_run_inventory_witness:
  "mset (concat (map selected (slice_runs [103] [sample_report 0 [[120], [121]], sample_report 1 [[122]]])))
   = mset [[122], [121], [120]]"
proof (rule reconciled_slices_run_inventory)
  show "complete_suite_evidence (reconcile [sample_report 0 [[120], [121]], sample_report 1 [[122]]])" by code_simp
  show "slice_runs [103] [sample_report 0 [[120], [121]], sample_report 1 [[122]]] \<noteq> []" by code_simp
  show "list_all (\<lambda>s. set (selected s) \<subseteq> set [[122], [121], [120]] \<and> inventory_count s = length [[122], [121], [120 :: nat]])
      (slice_runs [103] [sample_report 0 [[120], [121]], sample_report 1 [[122]]])" by code_simp
qed

text \<open>
  C19: A planned run reconciles: when the source paths of the native roots are distinct and no inventory
  lists a case twice, the reports of all shards of a partitioning, each having run its units
  successfully, are accepted as complete suite evidence.
\<close>
theorem planned_partition_reconciles:
  assumes "distinct (map root_path (filter (\<lambda>r. runner (shard_target r) = NATIVE_LIBTEST_RUNNER) references))"
    and "\<And>r. distinct (inventory r)"
  shows "complete_suite_evidence (reconcile (map (\<lambda>shard. (label shard,
           shard_report inventory millis (Suc n) shard
             (pack_units_for_partition (divide_giant_roots references (Suc n) weight_of is_measured) shard (Suc n))))
           [0..<Suc n]))"
proof -
  let ?n = "Suc n"
  let ?packs = "\<lambda>shard. pack_units_for_partition (divide_giant_roots references ?n weight_of is_measured) shard ?n"
  let ?reports = "map (\<lambda>shard. (label shard, shard_report inventory millis ?n shard (?packs shard))) [0..<?n]"
  have pos: "map report_position ?reports = [0..<?n]" by (simp add: shard_report_position o_def del: upt_Suc)
  then have cons: "consistent_reports ?n ?reports"
    by (auto simp: consistent_reports_def list_all_iff shard_report_def simp del: upt_Suc)
  have "report_position ` set ?reports = set [0..<?n]" using pos by (metis list.set_map)
  moreover have "map fst (divide_giant_roots references ?n weight_of is_measured) = concat (map (\<lambda>r. map fst (divide_root ?n
      (divide_target ?n (map weight_of references)) weight_of is_measured r)) references)"
    by (simp add: divide_giant_roots_def Let_def map_concat o_def)
  then have "mset (concat (map ?packs [0..<?n])) = mset (concat (map (\<lambda>r. map fst (divide_root ?n
      (divide_target ?n (map weight_of references)) weight_of is_measured r)) references))"
    using packed_units_all [of ?n "divide_giant_roots references ?n weight_of is_measured"] by (simp only: zero_less_Suc)
  then have "root_complete path ?reports" for path
    using planned_root_complete [OF assms(1) assms(2) _
        shard_report_runs(1) [OF refl, of path label inventory millis ?n ?packs "[0..<?n]"]
        shard_report_runs(2) [OF refl, of path label inventory millis ?n ?packs "[0..<?n]"]]
    unfolding root_complete_def by (simp only: length_0_conv)
  ultimately show ?thesis using reconcile_exact [OF cons] by (simp del: upt_Suc)
qed

definition sample_root :: "rstr \<Rightarrow> OvenCompilerTestSuiteShardReference" where
  "sample_root path =
     \<lparr>identity = path, shard_target = \<lparr>package_name = [105], target_name = path, suite_target_kind = [116],
       runner = NATIVE_LIBTEST_RUNNER, source_relative_path = path\<rparr>, source_bytes = 7\<rparr>"

theorem planned_partition_reconciles_witness:
  "complete_suite_evidence (reconcile (map (\<lambda>shard. ([112],
     shard_report (\<lambda>_. [[120], [121], [122]]) (\<lambda>_ _. None) (Suc 1) shard
       (pack_units_for_partition (divide_giant_roots [sample_root [97], sample_root [98]] (Suc 1)
          (\<lambda>r. if root_path r = [97] then 100 else 1) (\<lambda>_. True)) shard (Suc 1))))
     [0..<Suc 1]))"
  by (rule planned_partition_reconciles) (simp_all add: sample_root_def root_path_def)

end
