(* ===== verification/Parser_Cursor.thy ===== *)
theory Parser_Cursor
  imports Lexer_Layout
begin

text \<open>
  The token cursor of the parser: \<open>kernel/incan_syntax/src/parser/helpers.rs\<close> and \<open>util.rs\<close>.

  \<open>Parser\<close> keeps the fields of \<open>struct Parser\<close> that these helpers and the operator ladder read or write.  A method is an
  action \<open>'a parse\<close>: from a state to an outcome and the state it leaves, also when it fails, since the
  caller resynchronises from there.  An index out of bounds is the outcome \<open>Panicked\<close>; \<open>Out_of_fuel\<close>
  belongs to the recursive descent of the theories above.  Diagnostics are kept as a kind with its
  arguments and span; where the code renders a token with \<open>{:?}\<close> the token kind itself is the argument.

  \<open>wp\<close> is the weakest precondition of an action, and \<open>parses\<close> the contract every parsing method is shown
  to have on a stream that ends in the end-of-file token: it returns, never indexes out of bounds,
  leaves the stream alone and consumes at least a given number of tokens.
\<close>

section \<open>State and outcomes\<close>

datatype VocabSurfaceKind =
    VocabFunctionDecl | VocabTypeDecl | VocabConditionalChain | VocabForLoop | VocabWhileLoop | VocabMatchBlock
  | VocabTryBlock | VocabImportStatement | VocabControlFlow | VocabBindingDecl | VocabBlockDeclaration
  | VocabBlockContextKeyword | VocabSubBlock

datatype KeywordPlacement = TopLevel | InBlock "rstr list"

record ActiveImportedKeywordSpec =
  spec_surface_kind :: VocabSurfaceKind
  spec_placement :: KeywordPlacement

datatype ScopedSurfaceFamily = OperatorLike | BindingLike | ExpressionForm

datatype ScopedSurfaceSyntax = Glyph rstr | LeadingDotPath nat "nat option"

datatype ScopedSurfacePosition = DeclarationHead | DeclarationBody | ClauseBody | CallArgument

record ScopedSurfaceEligibility =
  elig_declaration :: rstr
  elig_clause :: "rstr option"
  elig_call :: "rstr option"
  elig_position :: ScopedSurfacePosition

record ScopedSurfaceDescriptor =
  descriptor_key :: rstr
  surface_family :: ScopedSurfaceFamily
  surface_syntax :: ScopedSurfaceSyntax
  eligible_in :: "ScopedSurfaceEligibility list"

record ActiveScopedSurfaceDescriptor =
  dependency_key :: rstr
  descriptor :: ScopedSurfaceDescriptor

record Parser =
  stream :: "Token list"
  pos :: nat
  active_soft_keywords :: "KeywordId list"
  active_imported_keyword_specs :: "rstr \<Rightarrow> ActiveImportedKeywordSpec list option"
  vocab_block_stack :: "rstr list"
  std_async_vocab_active :: bool
  active_scoped_surface_descriptors :: "ActiveScopedSurfaceDescriptor list"
  scoped_call_argument_stack :: "rstr list"
  pending_dedent_blank_lines :: nat

datatype ParseErrorKind =
    Expected_token rstr TokenKind | Expected_identifier TokenKind | Expected_string_literal TokenKind
  | Soft_keyword_requires_import rstr rstr
  | Mixed_path_qualification | Generics_on_qualified_path | Second_constraint_block | No_constraints
  | Duplicate_constraint_key rstr | Unsupported_constraint_key rstr | Expected_constraint_value
  | Invalid_constraint_value rstr | Mut_marker_outside_callable | Callable_arity

type_synonym ParseError = "ParseErrorKind \<times> Span"

datatype 'a parsed = Parsed 'a | Failed ParseError | Panicked | Out_of_fuel

type_synonym 'a parse = "Parser \<Rightarrow> 'a parsed \<times> Parser"

definition preturn :: "'a \<Rightarrow> 'a parse" where
  "preturn a p = (Parsed a, p)"

definition pfail :: "ParseErrorKind \<Rightarrow> Span \<Rightarrow> 'a parse" where
  "pfail k s p = (Failed (k, s), p)"

definition pbind :: "'a parse \<Rightarrow> ('a \<Rightarrow> 'b parse) \<Rightarrow> 'b parse" where
  "pbind m f p =
     (case m p of
        (Parsed a, q) \<Rightarrow> f a q
      | (Failed e, q) \<Rightarrow> (Failed e, q)
      | (Panicked, q) \<Rightarrow> (Panicked, q)
      | (Out_of_fuel, q) \<Rightarrow> (Out_of_fuel, q))"

lemma pbind_return: "pbind (preturn a) f = f a"
  by (rule ext) (simp add: pbind_def preturn_def)

lemma pbind_assoc: "pbind (pbind m f) g = pbind m (\<lambda>a. pbind (f a) g)"
  by (rule ext) (auto simp: pbind_def split: prod.splits parsed.splits)

definition out_of_fuel :: "'a parse" where
  "out_of_fuel p = (Out_of_fuel, p)"

section \<open>Looking at tokens and consuming them\<close>

text \<open>\<open>&self.tokens[i]\<close>\<close>

definition token_at :: "nat \<Rightarrow> Token parse" where
  "token_at i p = (if i < length (stream p) then Parsed (stream p ! i) else Panicked, p)"

definition parser_peek :: "Token parse" where
  "parser_peek p = token_at (pos p) p"

definition current_span :: "Span parse" where
  "current_span = pbind parser_peek (\<lambda>t. preturn (span t))"

definition parser_is_at_end :: "bool parse" where
  "parser_is_at_end = pbind parser_peek (\<lambda>t. preturn (kind t = Eof))"

definition parser_peek_next :: "Token parse" where
  "parser_peek_next p =
     (if pos p + 1 < length (stream p) then token_at (pos p + 1) p
      else if stream p = [] then (Panicked, p)
      else token_at (length (stream p) - 1) p)"

text \<open>\<open>&self.tokens[self.pos - 1]\<close>: the subtraction underflows at the start of the stream.\<close>

definition previous_token :: "Token parse" where
  "previous_token p = (if pos p = 0 then (Panicked, p) else token_at (pos p - 1) p)"

definition previous_end :: "nat parse" where
  "previous_end = pbind previous_token (\<lambda>t. preturn (end_pos (span t)))"

definition step_forward :: "unit parse" where
  "step_forward p = (Parsed (), p\<lparr>pos := pos p + 1\<rparr>)"

definition parser_advance :: "Token parse" where
  "parser_advance =
     pbind parser_is_at_end (\<lambda>at_end. pbind (if at_end then preturn () else step_forward) (\<lambda>_. previous_token))"

fun discriminant :: "TokenKind \<Rightarrow> nat" where
  "discriminant (Keyword _) = 0"
| "discriminant (Operator _) = 1"
| "discriminant (Punctuation _) = 2"
| "discriminant (Ident _) = 3"
| "discriminant (IntTok _) = 4"
| "discriminant (FloatTok _) = 5"
| "discriminant (DecimalTok _) = 6"
| "discriminant (StringTok _) = 7"
| "discriminant (Bytes _) = 8"
| "discriminant (FString _) = 9"
| "discriminant Newline = 10"
| "discriminant Indent = 11"
| "discriminant Dedent = 12"
| "discriminant EllipsisTok = 13"
| "discriminant Eof = 14"

definition check_kind :: "TokenKind \<Rightarrow> TokenKind \<Rightarrow> bool" where
  "check_kind k t =
     (case (k, t) of
        (Keyword k1, Keyword k2) \<Rightarrow> k1 = k2
      | (Operator o1, Operator o2) \<Rightarrow> o1 = o2
      | (Punctuation p1, Punctuation p2) \<Rightarrow> p1 = p2
      | _ \<Rightarrow> discriminant k = discriminant t)"

definition check :: "TokenKind \<Rightarrow> bool parse" where
  "check k = pbind parser_peek (\<lambda>t. preturn (check_kind k (kind t)))"

definition is_keyword :: "KeywordId \<Rightarrow> TokenKind \<Rightarrow> bool" where
  "is_keyword i k = (case k of Keyword j \<Rightarrow> j = i | _ \<Rightarrow> False)"

definition is_operator :: "OperatorId \<Rightarrow> TokenKind \<Rightarrow> bool" where
  "is_operator i k = (case k of Operator j \<Rightarrow> j = i | _ \<Rightarrow> False)"

definition is_punctuation :: "PunctuationId \<Rightarrow> TokenKind \<Rightarrow> bool" where
  "is_punctuation i k = (case k of Punctuation j \<Rightarrow> j = i | _ \<Rightarrow> False)"

text \<open>What \<open>check_keyword\<close> decides on the current token.\<close>

definition keyword_here :: "KeywordId list \<Rightarrow> KeywordId \<Rightarrow> TokenKind \<Rightarrow> bool" where
  "keyword_here active i k =
     (if is_keyword i k then True
      else if \<not> is_soft i \<or> i \<notin> set active then False
      else (case k of Ident name \<Rightarrow> name = keyword_as_str i | _ \<Rightarrow> False))"

definition check_keyword :: "KeywordId \<Rightarrow> bool parse" where
  "check_keyword i p = pbind parser_peek (\<lambda>t. preturn (keyword_here (active_soft_keywords p) i (kind t))) p"

definition check_punct :: "PunctuationId \<Rightarrow> bool parse" where
  "check_punct i = pbind parser_peek (\<lambda>t. preturn (is_punctuation i (kind t)))"

definition check_op :: "OperatorId \<Rightarrow> bool parse" where
  "check_op i = pbind parser_peek (\<lambda>t. preturn (is_operator i (kind t)))"

text \<open>\<open>if check { self.advance(); true } else { false }\<close>\<close>

definition consume_if :: "bool parse \<Rightarrow> bool parse" where
  "consume_if c = pbind c (\<lambda>b. if b then pbind parser_advance (\<lambda>_. preturn True) else preturn False)"

definition match_token :: "TokenKind \<Rightarrow> bool parse" where
  "match_token k = consume_if (check k)"

definition match_keyword :: "KeywordId \<Rightarrow> bool parse" where
  "match_keyword i = consume_if (check_keyword i)"

definition match_punct :: "PunctuationId \<Rightarrow> bool parse" where
  "match_punct i = consume_if (check_punct i)"

definition match_op :: "OperatorId \<Rightarrow> bool parse" where
  "match_op i = consume_if (check_op i)"

text \<open>\<open>if check { Ok(self.advance()) } else { Err(expected_token_message(..)) }\<close>\<close>

definition expect_if :: "bool parse \<Rightarrow> rstr \<Rightarrow> Token parse" where
  "expect_if c msg =
     pbind c (\<lambda>b. if b then parser_advance else pbind parser_peek (\<lambda>t. pfail (Expected_token msg (kind t)) (span t)))"

definition expect :: "TokenKind \<Rightarrow> rstr \<Rightarrow> Token parse" where
  "expect k = expect_if (check k)"

definition expect_keyword :: "KeywordId \<Rightarrow> rstr \<Rightarrow> Token parse" where
  "expect_keyword i = expect_if (check_keyword i)"

definition expect_punct :: "PunctuationId \<Rightarrow> rstr \<Rightarrow> Token parse" where
  "expect_punct i = expect_if (check_punct i)"

definition expect_op :: "OperatorId \<Rightarrow> rstr \<Rightarrow> Token parse" where
  "expect_op i = expect_if (check_op i)"

section \<open>Names and literals\<close>

text \<open>
  The identifier readers differ in the tokens they accept as a name: \<open>accept\<close> gives the name of a token.
\<close>

definition name_token :: "(TokenKind \<Rightarrow> 'a option) \<Rightarrow> (TokenKind \<Rightarrow> ParseErrorKind) \<Rightarrow> 'a parse" where
  "name_token accept err =
     pbind parser_peek (\<lambda>t.
       case accept (kind t) of
         Some a \<Rightarrow> pbind parser_advance (\<lambda>_. preturn a)
       | None \<Rightarrow> pfail (err (kind t)) (span t))"

definition parser_identifier :: "rstr parse" where
  "parser_identifier = name_token (\<lambda>k. case k of Ident name \<Rightarrow> Some name | _ \<Rightarrow> None) Expected_identifier"

definition identifier_or_keyword :: "rstr parse" where
  "identifier_or_keyword =
     name_token (\<lambda>k. case k of Ident name \<Rightarrow> Some name
                    | Keyword i \<Rightarrow> if i = KwNone then Some (lit ''None'') else None | _ \<Rightarrow> None) Expected_identifier"

definition identifier_or_any_keyword :: "rstr parse" where
  "identifier_or_any_keyword =
     name_token (\<lambda>k. case k of Ident name \<Rightarrow> Some name | Keyword kw \<Rightarrow> Some (keyword_as_str kw) | _ \<Rightarrow> None)
       Expected_identifier"

definition identifier_or_from_keyword :: "rstr parse" where
  "identifier_or_from_keyword =
     name_token (\<lambda>k. case k of Ident name \<Rightarrow> Some name
                    | Keyword i \<Rightarrow> if i = KwFrom then Some (lit ''from'') else None | _ \<Rightarrow> None) Expected_identifier"

definition identifier_or_import_keyword :: "rstr parse" where
  "identifier_or_import_keyword =
     name_token (\<lambda>k. case k of Ident name \<Rightarrow> Some name
                    | Keyword i \<Rightarrow> if i = KwRust then Some (lit ''rust'') else None | _ \<Rightarrow> None) Expected_identifier"

definition string_literal :: "rstr parse" where
  "string_literal = name_token (\<lambda>k. case k of StringTok s \<Rightarrow> Some s | _ \<Rightarrow> None) Expected_string_literal"

datatype 'a Spanned = Spanned (node: 'a) (node_span: Span)

definition identifier_spanned :: "rstr Spanned parse" where
  "identifier_spanned = pbind current_span (\<lambda>s. pbind parser_identifier (\<lambda>name. preturn (Spanned name s)))"

definition peek_ident_text :: "rstr \<Rightarrow> bool parse" where
  "peek_ident_text v = pbind parser_peek (\<lambda>t. preturn (kind t = Ident v))"

definition match_ident_text :: "rstr \<Rightarrow> bool parse" where
  "match_ident_text v = consume_if (peek_ident_text v)"

section \<open>Soft keywords\<close>

text \<open>The error a caller reports for the current token when it spells a soft keyword no import activated.\<close>

definition inactive_soft_keyword_error :: "ParseError option parse" where
  "inactive_soft_keyword_error p =
     pbind parser_peek (\<lambda>t. preturn
       (case kind t of
          Ident name \<Rightarrow>
            (case keyword_from_str name of
               None \<Rightarrow> None
             | Some i \<Rightarrow>
                 if \<not> is_soft i \<or> i \<in> set (active_soft_keywords p) then None
                 else map_option (\<lambda>ns. (Soft_keyword_requires_import name ns, span t)) (activation i))
        | _ \<Rightarrow> None)) p"

definition active_soft_keyword :: "KeywordId list \<Rightarrow> TokenKind \<Rightarrow> KeywordId option" where
  "active_soft_keyword active k =
     (case k of
        Keyword i \<Rightarrow> if is_soft i \<and> i \<in> set active then Some i else None
      | Ident name \<Rightarrow>
          (case keyword_from_str name of
             None \<Rightarrow> None
           | Some i \<Rightarrow> if is_soft i \<and> i \<in> set active then Some i else None)
      | _ \<Rightarrow> None)"

definition current_active_soft_keyword :: "KeywordId option parse" where
  "current_active_soft_keyword p =
     pbind parser_peek (\<lambda>t. preturn (active_soft_keyword (active_soft_keywords p) (kind t))) p"

definition keyword_surface_supports_usage :: "VocabSurfaceKind \<Rightarrow> KeywordSurfaceKind \<Rightarrow> bool" where
  "keyword_surface_supports_usage k usage =
     (case (k, usage) of
        (VocabControlFlow, StatementKeywordArgs) \<Rightarrow> True
      | (VocabBlockContextKeyword, StatementKeywordArgs) \<Rightarrow> True
      | (VocabFunctionDecl, DeclarationModifier) \<Rightarrow> True
      | (VocabTryBlock, PrefixExpression) \<Rightarrow> True
      | _ \<Rightarrow> False)"

definition keyword_supports_surface_usage :: "Parser \<Rightarrow> KeywordId \<Rightarrow> KeywordSurfaceKind \<Rightarrow> bool" where
  "keyword_supports_surface_usage p i usage =
     ((case active_imported_keyword_specs p (keyword_as_str i) of
         None \<Rightarrow> False
       | Some specs \<Rightarrow>
           list_ex (\<lambda>spec. keyword_surface_supports_usage (spec_surface_kind spec) usage \<and> spec_placement spec = TopLevel)
             specs)
      \<or> supports_surface_kind i usage)"

definition current_surface_keyword :: "KeywordSurfaceKind \<Rightarrow> KeywordId option parse" where
  "current_surface_keyword usage p =
     pbind current_active_soft_keyword (\<lambda>id. preturn
       (case id of
          None \<Rightarrow> None
        | Some i \<Rightarrow> if keyword_supports_surface_usage p i usage then Some i else None)) p"

definition match_surface_keyword :: "KeywordSurfaceKind \<Rightarrow> KeywordId option parse" where
  "match_surface_keyword usage =
     pbind (current_surface_keyword usage) (\<lambda>id.
       case id of None \<Rightarrow> preturn None | Some i \<Rightarrow> pbind parser_advance (\<lambda>_. preturn (Some i)))"

text \<open>
  The modifiers in front of a \<open>def\<close>: the loop over the tokens from \<open>self.pos\<close> on, with \<open>saw_modifier\<close>.
\<close>

definition token_keyword :: "TokenKind \<Rightarrow> KeywordId option" where
  "token_keyword k = (case k of Keyword i \<Rightarrow> Some i | Ident name \<Rightarrow> keyword_from_str name | _ \<Rightarrow> None)"

fun modifiers_then_def :: "Parser \<Rightarrow> bool \<Rightarrow> Token list \<Rightarrow> bool" where
  "modifiers_then_def p saw [] = False"
| "modifiers_then_def p saw (t # ts) =
     (case token_keyword (kind t) of
        Some i \<Rightarrow>
          if i \<in> set (active_soft_keywords p) \<and> keyword_supports_surface_usage p i DeclarationModifier
          then modifiers_then_def p True ts else saw \<and> kind t = Keyword KwDef
      | None \<Rightarrow> False)"

definition starts_surface_function_decl :: "bool parse" where
  "starts_surface_function_decl p =
     pbind (check_keyword KwDef) (\<lambda>d. preturn (d \<or> modifiers_then_def p False (drop (pos p) (stream p)))) p"

definition is_active_race_for_expr :: "bool parse" where
  "is_active_race_for_expr p =
     (if \<not> std_async_vocab_active p then (Parsed False, p)
      else pbind (peek_ident_text (lit ''race'')) (\<lambda>r.
        if r then pbind parser_peek_next (\<lambda>t. preturn (kind t = Keyword KwFor)) else preturn False) p)"

text \<open>\<open>a || b\<close> of two checks: the second is evaluated only when the first is false.\<close>

fun any_check :: "bool parse list \<Rightarrow> bool parse" where
  "any_check [] = preturn False"
| "any_check (c # cs) = pbind c (\<lambda>b. if b then preturn True else any_check cs)"

definition is_at_expr_start :: "bool parse" where
  "is_at_expr_start =
     any_check
       [pbind parser_peek (\<lambda>t. preturn
          (case kind t of Ident _ \<Rightarrow> True | IntTok _ \<Rightarrow> True | FloatTok _ \<Rightarrow> True | StringTok _ \<Rightarrow> True | Bytes _ \<Rightarrow> True
           | FString _ \<Rightarrow> True | _ \<Rightarrow> False)),
        check_keyword KwTrue, check_keyword KwFalse, check_keyword KwNone, check_keyword KwNot, check_keyword KwSelfKw,
        pbind (current_surface_keyword PrefixExpression) (\<lambda>i. preturn (i \<noteq> None)),
        check_keyword KwMatch, check_keyword KwIf, check_keyword KwLoop,
        check_punct PunctLParen, check_punct PunctLBracket, check_punct PunctLBrace, check_op OpMinus]"

section \<open>Layout and error recovery\<close>

lemma consume_if_progress:
  "consume_if (check k) p = (Parsed True, q) \<Longrightarrow> check_kind k Eof = False \<Longrightarrow> pos p < length (stream p) \<and> q = p\<lparr>pos := pos p + 1\<rparr>"
  by (auto simp: consume_if_def check_def pbind_def preturn_def parser_peek_def token_at_def parser_advance_def
      parser_is_at_end_def step_forward_def previous_token_def split: if_splits)

text \<open>
  \<open>while self.match_token(k) {}\<close>: how often the loop ran.  The cursor does not move past the end of the
  file, so a loop on that kind would not end; the code runs it on newlines and dedents.
\<close>

function skip_tokens :: "TokenKind \<Rightarrow> nat parse" where
  "skip_tokens k p =
     (if check_kind k Eof then (Out_of_fuel, p)
      else case match_token k p of
             (Parsed True, q) \<Rightarrow> (case skip_tokens k q of (Parsed n, r) \<Rightarrow> (Parsed (Suc n), r) | r \<Rightarrow> r)
           | (Parsed False, q) \<Rightarrow> (Parsed 0, q)
           | (Failed e, q) \<Rightarrow> (Failed e, q)
           | (Panicked, q) \<Rightarrow> (Panicked, q)
           | (Out_of_fuel, q) \<Rightarrow> (Out_of_fuel, q))"
  by pat_completeness auto
termination
  by (relation "measure (\<lambda>(k, p). length (stream p) - pos p)") (auto simp: match_token_def dest!: consume_if_progress [OF sym])

declare skip_tokens.simps [simp del]

definition skip_newlines :: "unit parse" where
  "skip_newlines = pbind (skip_tokens Newline) (\<lambda>_. preturn ())"

definition skip_dedents :: "unit parse" where
  "skip_dedents = pbind (skip_tokens Dedent) (\<lambda>_. preturn ())"

definition take_pending_blank_lines :: "nat parse" where
  "take_pending_blank_lines p = (Parsed (pending_dedent_blank_lines p), p\<lparr>pending_dedent_blank_lines := 0\<rparr>)"

definition expect_suite_indent :: "rstr \<Rightarrow> Token parse" where
  "expect_suite_indent msg = pbind take_pending_blank_lines (\<lambda>_. pbind skip_newlines (\<lambda>_. expect Indent msg))"

definition previous_was_dedent :: "Parser \<Rightarrow> bool" where
  "previous_was_dedent p \<longleftrightarrow> 0 < pos p \<and> pos p - 1 < length (stream p) \<and> kind (stream p ! (pos p - 1)) = Dedent"

text \<open>The newline counter is a \<open>u8\<close> that saturates.\<close>

definition consume_inter_statement_blank_prefix :: "nat parse" where
  "consume_inter_statement_blank_prefix p =
     pbind take_pending_blank_lines (\<lambda>pending. pbind (skip_tokens Newline) (\<lambda>newlines.
       let count = min newlines 255
       in preturn (if pending > 0 \<or> count \<ge> 2 \<or> previous_was_dedent p \<and> count \<ge> 1 then 1 else 0))) p"

definition optional_leading_block_docstring :: "rstr option parse" where
  "optional_leading_block_docstring =
     pbind skip_newlines (\<lambda>_. pbind parser_peek (\<lambda>t.
       case kind t of
         StringTok s \<Rightarrow>
           pbind parser_advance (\<lambda>_. pbind (match_token Newline) (\<lambda>_. pbind skip_newlines (\<lambda>_. preturn (Some s))))
       | _ \<Rightarrow> preturn None))"

definition declaration_keywords :: "KeywordId list" where
  "declaration_keywords = [KwDef, KwClass, KwModel, KwTrait, KwEnum, KwType, KwConst, KwStatic, KwImport]"

text \<open>The loop of \<open>synchronize\<close>, behind its first \<open>advance\<close>.\<close>

definition at_declaration :: "Parser \<Rightarrow> TokenKind \<Rightarrow> bool" where
  "at_declaration p k \<longleftrightarrow> list_ex (\<lambda>i. keyword_here (active_soft_keywords p) i k) declaration_keywords"

function synchronize_loop :: "unit parse" where
  "synchronize_loop p =
     (if pos p < length (stream p) then
        (let k = kind (stream p ! pos p)
         in if k = Eof then (Parsed (), p)
            else if at_declaration p k then (Parsed (), p)
            else if k = Newline then step_forward p
            else synchronize_loop (snd (step_forward p)))
      else (Panicked, p))"
  by pat_completeness auto
termination
  by (relation "measure (\<lambda>p. length (stream p) - pos p)") (auto simp: step_forward_def)

declare synchronize_loop.simps [simp del]

definition synchronize :: "unit parse" where
  "synchronize = pbind parser_advance (\<lambda>_. synchronize_loop)"

section \<open>Weakest preconditions\<close>

named_theorems parses_intros "contracts of parsing actions"

definition wp :: "'a parse \<Rightarrow> ('a \<Rightarrow> Parser \<Rightarrow> bool) \<Rightarrow> (ParseError \<Rightarrow> Parser \<Rightarrow> bool) \<Rightarrow> Parser \<Rightarrow> bool" where
  "wp m Q E p =
     (case m p of (Parsed a, q) \<Rightarrow> Q a q | (Failed e, q) \<Rightarrow> E e q | (Panicked, _) \<Rightarrow> False | (Out_of_fuel, _) \<Rightarrow> False)"

lemma wp_pbind [simp]: "wp (pbind m f) Q E p = wp m (\<lambda>a q. wp (f a) Q E q) E p"
  by (auto simp: wp_def pbind_def split: prod.splits parsed.splits)

lemma wp_preturn [simp]: "wp (preturn a) Q E p = Q a p"
  by (simp add: wp_def preturn_def)

lemma wp_pfail [simp]: "wp (pfail k s) Q E p = E (k, s) p"
  by (simp add: wp_def pfail_def)

lemma wp_if [simp]: "wp (if b then m else m') Q E p = (if b then wp m Q E p else wp m' Q E p)"
  by simp

lemma wp_mono:
  "wp m Q E p \<Longrightarrow> (\<And>a q. Q a q \<Longrightarrow> Q' a q) \<Longrightarrow> (\<And>e q. E e q \<Longrightarrow> E' e q) \<Longrightarrow> wp m Q' E' p"
  by (auto simp: wp_def split: prod.splits parsed.splits)

text \<open>A stream that ends in the end-of-file token, with the cursor inside; the rest of it.\<close>

definition cursor_ok :: "Parser \<Rightarrow> bool" where
  "cursor_ok p \<longleftrightarrow> pos p < length (stream p) \<and> kind (last (stream p)) = Eof"

definition peek_kind :: "Parser \<Rightarrow> TokenKind" where
  "peek_kind p = kind (stream p ! pos p)"

definition forward :: "Parser \<Rightarrow> Parser" where
  "forward p = p\<lparr>pos := pos p + 1\<rparr>"

lemma wp_parser_peek [simp]: "cursor_ok p \<Longrightarrow> wp parser_peek Q E p = Q (stream p ! pos p) p"
  by (simp add: wp_def parser_peek_def token_at_def cursor_ok_def)

lemma wp_current_span [simp]: "cursor_ok p \<Longrightarrow> wp current_span Q E p = Q (span (stream p ! pos p)) p"
  by (simp add: current_span_def)

lemma wp_previous_token [simp]:
  "cursor_ok p \<Longrightarrow> 0 < pos p \<Longrightarrow> wp previous_token Q E p = Q (stream p ! (pos p - 1)) p"
  by (auto simp: wp_def previous_token_def token_at_def cursor_ok_def)

lemma wp_previous_end [simp]:
  "cursor_ok p \<Longrightarrow> 0 < pos p \<Longrightarrow> wp previous_end Q E p = Q (end_pos (span (stream p ! (pos p - 1)))) p"
  by (simp add: previous_end_def)

lemma cursor_ok_forward: "cursor_ok p \<Longrightarrow> peek_kind p \<noteq> Eof \<Longrightarrow> cursor_ok (forward p)"
  by (auto simp: cursor_ok_def peek_kind_def forward_def)
    (metis One_nat_def Suc_lessI diff_Suc_1 last_conv_nth length_0_conv not_less_zero)

lemma wp_parser_advance [simp]:
  assumes "cursor_ok p" and "peek_kind p \<noteq> Eof"
  shows "wp parser_advance Q E p = Q (stream p ! pos p) (forward p)"
proof -
  have "wp step_forward Q' E p = Q' () (forward p)" for Q' by (simp add: wp_def step_forward_def forward_def)
  moreover have "cursor_ok (forward p)" by (rule cursor_ok_forward [OF assms])
  moreover have "stream (forward p) ! (pos (forward p) - 1) = stream p ! pos p" "0 < pos (forward p)"
    by (simp_all add: forward_def)
  ultimately show ?thesis
    using assms by (simp add: parser_advance_def parser_is_at_end_def peek_kind_def del: wp_if split: if_split)
qed

lemma wp_consume_if:
  assumes "cursor_ok p" and "\<And>Q. wp c Q E p = Q b p" and "b \<Longrightarrow> peek_kind p \<noteq> Eof"
  shows "wp (consume_if c) Q E p = (if b then Q True (forward p) else Q False p)"
  using assms by (cases b) (simp_all add: consume_if_def)

lemma wp_expect_if:
  assumes "cursor_ok p" and "\<And>Q. wp c Q E p = Q b p" and "b \<Longrightarrow> peek_kind p \<noteq> Eof"
  shows "wp (expect_if c msg) Q E p =
    (if b then Q (stream p ! pos p) (forward p) else E (Expected_token msg (peek_kind p), span (stream p ! pos p)) p)"
  using assms by (cases b) (simp_all add: expect_if_def peek_kind_def)

lemma check_kind_simps [simp]:
  "check_kind (Punctuation i) k = (k = Punctuation i)"
  "check_kind (Operator oi) k = (k = Operator oi)"
  "check_kind (Keyword ki) k = (k = Keyword ki)"
  "check_kind Newline k = (k = Newline)"
  "check_kind Indent k = (k = Indent)"
  "check_kind Dedent k = (k = Dedent)"
  by (cases k; auto simp: check_kind_def)+

lemma wp_check [simp]: "cursor_ok p \<Longrightarrow> wp (check k) Q E p = Q (check_kind k (peek_kind p)) p"
  by (simp add: check_def peek_kind_def)

lemma wp_check_keyword [simp]:
  "cursor_ok p \<Longrightarrow> wp (check_keyword i) Q E p = Q (keyword_here (active_soft_keywords p) i (peek_kind p)) p"
  by (simp add: check_keyword_def wp_def pbind_def preturn_def parser_peek_def token_at_def cursor_ok_def peek_kind_def)

lemma wp_check_punct [simp]: "cursor_ok p \<Longrightarrow> wp (check_punct i) Q E p = Q (peek_kind p = Punctuation i) p"
  by (simp add: check_punct_def peek_kind_def is_punctuation_def split: TokenKind.split)

lemma wp_check_op [simp]: "cursor_ok p \<Longrightarrow> wp (check_op i) Q E p = Q (peek_kind p = Operator i) p"
  by (simp add: check_op_def peek_kind_def is_operator_def split: TokenKind.split)

lemma keyword_not_eof: "keyword_here active i k \<Longrightarrow> k \<noteq> Eof"
  by (auto simp: keyword_here_def is_keyword_def split: if_splits)

lemma wp_match_token [simp]:
  "cursor_ok p \<Longrightarrow> \<not> check_kind k Eof \<Longrightarrow>
   wp (match_token k) Q E p = (if check_kind k (peek_kind p) then Q True (forward p) else Q False p)"
  unfolding match_token_def by (rule wp_consume_if) auto

lemma wp_match_keyword [simp]:
  "cursor_ok p \<Longrightarrow>
   wp (match_keyword i) Q E p = (if keyword_here (active_soft_keywords p) i (peek_kind p) then Q True (forward p) else Q False p)"
  unfolding match_keyword_def by (rule wp_consume_if) (auto dest: keyword_not_eof)

lemma wp_match_punct [simp]:
  "cursor_ok p \<Longrightarrow> wp (match_punct i) Q E p = (if peek_kind p = Punctuation i then Q True (forward p) else Q False p)"
  unfolding match_punct_def by (rule wp_consume_if) auto

lemma wp_match_op [simp]:
  "cursor_ok p \<Longrightarrow> wp (match_op i) Q E p = (if peek_kind p = Operator i then Q True (forward p) else Q False p)"
  unfolding match_op_def by (rule wp_consume_if) auto

lemma wp_expect [simp]:
  "cursor_ok p \<Longrightarrow> \<not> check_kind k Eof \<Longrightarrow>
   wp (expect k msg) Q E p = (if check_kind k (peek_kind p) then Q (stream p ! pos p) (forward p)
     else E (Expected_token msg (peek_kind p), span (stream p ! pos p)) p)"
  unfolding expect_def by (rule wp_expect_if) auto

lemma wp_expect_op [simp]:
  "cursor_ok p \<Longrightarrow>
   wp (expect_op i msg) Q E p = (if peek_kind p = Operator i then Q (stream p ! pos p) (forward p)
     else E (Expected_token msg (peek_kind p), span (stream p ! pos p)) p)"
  unfolding expect_op_def by (rule wp_expect_if) auto

lemma wp_name_token [simp]:
  assumes "cursor_ok p" and "accept Eof = None"
  shows "wp (name_token accept err) Q E p =
    (case accept (peek_kind p) of Some a \<Rightarrow> Q a (forward p) | None \<Rightarrow> E (err (peek_kind p), span (stream p ! pos p)) p)"
proof (cases "accept (peek_kind p)")
  case None
  then show ?thesis using assms by (simp add: name_token_def peek_kind_def)
next
  case (Some a)
  then have "peek_kind p \<noteq> Eof" using assms(2) by auto
  then show ?thesis using assms(1) Some by (simp add: name_token_def flip: peek_kind_def)
qed

section \<open>The parsing contract\<close>

definition remaining :: "Parser \<Rightarrow> nat" where
  "remaining p = length (stream p) - pos p"

definition moved :: "Parser \<Rightarrow> Parser \<Rightarrow> bool" where
  "moved p q \<longleftrightarrow> cursor_ok q \<and> q = p\<lparr>pos := pos q\<rparr> \<and> pos p \<le> pos q"

text \<open>
  From a cursor at position \<open>s\<close> or later with at most \<open>r\<close> tokens left, the action returns, consumes at
  least \<open>c\<close> tokens when it succeeds, and its result satisfies \<open>I\<close>.
\<close>

definition parses :: "nat \<Rightarrow> nat \<Rightarrow> nat \<Rightarrow> ('a \<Rightarrow> bool) \<Rightarrow> 'a parse \<Rightarrow> bool" where
  "parses s r c I m \<longleftrightarrow>
     (\<forall>p. cursor_ok p \<and> remaining p \<le> r \<and> s \<le> pos p \<longrightarrow>
        wp m (\<lambda>a q. moved p q \<and> remaining q + c \<le> remaining p \<and> I a) (\<lambda>e q. moved p q) p)"

lemma moved_refl: "cursor_ok p \<Longrightarrow> moved p p"
  by (simp add: moved_def)

lemma moved_trans: "moved p q \<Longrightarrow> moved q t \<Longrightarrow> moved p t"
  unfolding moved_def by (metis Parser.surjective Parser.update_convs(2) le_trans)

lemma moved_forward: "cursor_ok p \<Longrightarrow> peek_kind p \<noteq> Eof \<Longrightarrow> moved p (forward p) \<and> remaining (forward p) + 1 = remaining p \<and> 1 < remaining p"
  using cursor_ok_forward [of p] by (auto simp: moved_def forward_def remaining_def cursor_ok_def)

lemma parsesI:
  "(\<And>p. cursor_ok p \<Longrightarrow> remaining p \<le> r \<Longrightarrow> s \<le> pos p \<Longrightarrow>
      wp m (\<lambda>a q. moved p q \<and> remaining q + c \<le> remaining p \<and> I a) (\<lambda>e q. moved p q) p) \<Longrightarrow> parses s r c I m"
  by (simp add: parses_def)

lemma parsesD:
  "parses s r c I m \<Longrightarrow> cursor_ok p \<Longrightarrow> remaining p \<le> r \<Longrightarrow> s \<le> pos p \<Longrightarrow>
   wp m (\<lambda>a q. moved p q \<and> remaining q + c \<le> remaining p \<and> I a) (\<lambda>e q. moved p q) p"
  by (simp add: parses_def)

lemma parses_bind:
  assumes m: "parses s r c1 I m"
    and f: "\<And>a. I a \<Longrightarrow> c1 < r \<Longrightarrow> parses (s + c1) (r - c1) (c - c1) J (f a)"
  shows "parses s r c J (pbind m f)"
proof (rule parsesI)
  fix p assume p: "cursor_ok p" "remaining p \<le> r" "s \<le> pos p"
  have "wp m (\<lambda>a q. moved p q \<and> remaining q + c1 \<le> remaining p \<and> I a) (\<lambda>e q. moved p q) p"
    using m p by (simp add: parses_def)
  then have "wp m (\<lambda>a q. wp (f a) (\<lambda>a t. moved p t \<and> remaining t + c \<le> remaining p \<and> J a) (\<lambda>e t. moved p t) q)
      (\<lambda>e q. moved p q) p"
  proof (rule wp_mono)
    fix a q assume q: "moved p q \<and> remaining q + c1 \<le> remaining p \<and> I a"
    have ok: "cursor_ok q" using q by (simp add: moved_def)
    moreover have "stream q = stream p" using q unfolding moved_def by (metis Parser.ext_inject Parser.surjective Parser.update_convs(2))
    ultimately have "s + c1 \<le> pos q" "remaining q \<le> r - c1" "c1 < r"
      using q p by (auto simp: remaining_def cursor_ok_def moved_def)
    then have "wp (f a) (\<lambda>a t. moved q t \<and> remaining t + (c - c1) \<le> remaining q \<and> J a) (\<lambda>e t. moved q t) q"
      using f [of a] q ok by (simp add: parses_def)
    then show "wp (f a) (\<lambda>a t. moved p t \<and> remaining t + c \<le> remaining p \<and> J a) (\<lambda>e t. moved p t) q"
      by (rule wp_mono) (use q in \<open>auto intro: moved_trans\<close>)
  qed
  then show "wp (pbind m f) (\<lambda>a t. moved p t \<and> remaining t + c \<le> remaining p \<and> J a) (\<lambda>e t. moved p t) p" by simp
qed

text \<open>A test that consumes a token exactly when it holds.\<close>

definition matches_token :: "bool parse \<Rightarrow> bool" where
  "matches_token m \<longleftrightarrow>
     (\<forall>p. cursor_ok p \<longrightarrow> wp m (\<lambda>b q. if b then peek_kind p \<noteq> Eof \<and> q = forward p else q = p) (\<lambda>e q. False) p)"

lemma matches_token_rules:
  "\<not> check_kind k Eof \<Longrightarrow> matches_token (match_token k)"
  "matches_token (match_keyword i)" "matches_token (match_punct pi)" "matches_token (match_op oi)"
  by (auto simp: matches_token_def dest: keyword_not_eof)

lemma parses_match:
  assumes m: "matches_token m"
    and yes: "1 < r \<Longrightarrow> parses (s + 1) (r - 1) (c - 1) J (f True)"
    and no: "parses s r c J (f False)"
  shows "parses s r c J (pbind m f)"
proof (rule parsesI)
  fix p assume p: "cursor_ok p" "remaining p \<le> r" "s \<le> pos p"
  have "wp m (\<lambda>b q. if b then peek_kind p \<noteq> Eof \<and> q = forward p else q = p) (\<lambda>e q. False) p"
    using m p by (simp add: matches_token_def)
  then have "wp m (\<lambda>b q. wp (f b) (\<lambda>a t. moved p t \<and> remaining t + c \<le> remaining p \<and> J a) (\<lambda>e t. moved p t) q)
      (\<lambda>e q. moved p q) p"
  proof (rule wp_mono)
    fix b q assume q: "if b then peek_kind p \<noteq> Eof \<and> q = forward p else q = p"
    show "wp (f b) (\<lambda>a t. moved p t \<and> remaining t + c \<le> remaining p \<and> J a) (\<lambda>e t. moved p t) q"
    proof (cases b)
      case True
      then have fwd: "moved p q" "remaining q + 1 = remaining p" "1 < remaining p"
        using moved_forward [OF p(1)] q by simp_all
      moreover have "s + 1 \<le> pos q" using q True p(3) by (simp add: forward_def)
      ultimately have "wp (f True) (\<lambda>a t. moved q t \<and> remaining t + (c - 1) \<le> remaining q \<and> J a) (\<lambda>e t. moved q t) q"
        using yes p(2) by (simp add: parses_def moved_def)
      then have "wp (f True) (\<lambda>a t. moved p t \<and> remaining t + c \<le> remaining p \<and> J a) (\<lambda>e t. moved p t) q"
        by (rule wp_mono) (use fwd in \<open>auto intro: moved_trans\<close>)
      then show ?thesis using True by simp
    next
      case False
      then show ?thesis using no p q by (simp add: parses_def)
    qed
  qed simp
  then show "wp (pbind m f) (\<lambda>a t. moved p t \<and> remaining t + c \<le> remaining p \<and> J a) (\<lambda>e t. moved p t) p" by simp
qed

lemma parses_preturn: "c = 0 \<Longrightarrow> I a \<Longrightarrow> parses s r c I (preturn a)"
  by (simp add: parses_def moved_refl)

lemma parses_pfail: "parses s r c I (pfail k sp)"
  by (simp add: parses_def moved_refl)

lemma parses_if: "(b \<Longrightarrow> parses s r c I m) \<Longrightarrow> (\<not> b \<Longrightarrow> parses s r c I m') \<Longrightarrow> parses s r c I (if b then m else m')"
  by simp

lemma parses_weaken:
  "parses s r c I m \<Longrightarrow> c' \<le> c \<Longrightarrow> (\<And>a. I a \<Longrightarrow> J a) \<Longrightarrow> parses s r c' J m"
  by (auto simp: parses_def intro: wp_mono)

lemma parses_current_span: "parses s r 0 (\<lambda>_. True) current_span"
  by (simp add: parses_def moved_refl)

lemma parses_peek: "parses s r 0 (\<lambda>_. True) parser_peek"
  by (simp add: parses_def moved_refl)

lemma parses_check: "parses s r 0 (\<lambda>_. True) (check k)"
  by (simp add: parses_def moved_refl)

lemma parses_previous_end: "0 < s \<Longrightarrow> parses s r 0 (\<lambda>_. True) previous_end"
  by (simp add: parses_def moved_refl)

lemma parses_previous_token: "0 < s \<Longrightarrow> parses s r 0 (\<lambda>_. True) previous_token"
  by (simp add: parses_def moved_refl)

lemma parses_expect: "\<not> check_kind k Eof \<Longrightarrow> parses s r 1 (\<lambda>_. True) (expect k msg)"
  using moved_forward by (cases "check_kind k Eof") (fastforce simp: parses_def moved_refl)+

lemma parses_expect_op: "parses s r 1 (\<lambda>_. True) (expect_op i msg)"
  using moved_forward by (auto simp: parses_def moved_refl)

lemma parses_name_token: "accept Eof = None \<Longrightarrow> parses s r 1 (\<lambda>_. True) (name_token accept err)"
  using moved_forward by (fastforce simp: parses_def moved_refl split: option.split)

lemma parses_names:
  "parses s r 1 (\<lambda>_. True) parser_identifier"
  "parses s r 1 (\<lambda>_. True) identifier_or_any_keyword"
  "parses s r 1 (\<lambda>_. True) identifier_or_from_keyword"
  unfolding parser_identifier_def identifier_or_any_keyword_def identifier_or_from_keyword_def
  by (rule parses_name_token; simp)+

text \<open>The contract of a sequence, by its first action; these rules decompose a method from left to right.\<close>

lemma parses_zero: "parses s 0 c I m"
  by (auto simp: parses_def remaining_def cursor_ok_def)

lemma parses_bind_look [parses_intros]:
  "(\<And>a. parses s r c J (f a)) \<Longrightarrow> parses s r c J (pbind current_span f)"
  "(\<And>a. parses s r c J (g a)) \<Longrightarrow> parses s r c J (pbind parser_peek g)"
  "(\<And>a. parses s r c J (h a)) \<Longrightarrow> parses s r c J (pbind (check k) h)"
  "0 < s \<Longrightarrow> (\<And>a. parses s r c J (e a)) \<Longrightarrow> parses s r c J (pbind previous_end e)"
  "0 < s \<Longrightarrow> (\<And>a. parses s r c J (u a)) \<Longrightarrow> parses s r c J (pbind previous_token u)"
  using parses_bind [OF parses_current_span, of r s c J f] parses_bind [OF parses_peek, of r s c J g]
    parses_bind [OF parses_check, of r s c J h k] parses_bind [OF parses_previous_end, of s r c J e]
    parses_bind [OF parses_previous_token, of s r c J u]
  by simp_all

lemma parses_bind_consume [parses_intros]:
  "\<not> check_kind k Eof \<Longrightarrow> (\<And>a. 1 < r \<Longrightarrow> parses (s + 1) (r - 1) (c - 1) J (f a)) \<Longrightarrow> parses s r c J (pbind (expect k msg) f)"
  "(\<And>a. 1 < r \<Longrightarrow> parses (s + 1) (r - 1) (c - 1) J (g a)) \<Longrightarrow> parses s r c J (pbind (expect_op oi msg) g)"
  "(\<And>a. 1 < r \<Longrightarrow> parses (s + 1) (r - 1) (c - 1) J (h a)) \<Longrightarrow> parses s r c J (pbind parser_identifier h)"
  "(\<And>a. 1 < r \<Longrightarrow> parses (s + 1) (r - 1) (c - 1) J (h a)) \<Longrightarrow> parses s r c J (pbind identifier_or_any_keyword h)"
  "(\<And>a. 1 < r \<Longrightarrow> parses (s + 1) (r - 1) (c - 1) J (h a)) \<Longrightarrow> parses s r c J (pbind identifier_or_from_keyword h)"
  by (rule parses_bind, (rule parses_expect parses_expect_op parses_names, assumption?)+, simp)+

lemma parses_bind_match [parses_intros]:
  "\<not> check_kind k Eof \<Longrightarrow> (1 < r \<Longrightarrow> parses (s + 1) (r - 1) (c - 1) J (f True)) \<Longrightarrow> parses s r c J (f False)
     \<Longrightarrow> parses s r c J (pbind (match_token k) f)"
  "(1 < r \<Longrightarrow> parses (s + 1) (r - 1) (c - 1) J (f True)) \<Longrightarrow> parses s r c J (f False)
     \<Longrightarrow> parses s r c J (pbind (match_keyword ki) f)"
  "(1 < r \<Longrightarrow> parses (s + 1) (r - 1) (c - 1) J (f True)) \<Longrightarrow> parses s r c J (f False)
     \<Longrightarrow> parses s r c J (pbind (match_punct pi) f)"
  "(1 < r \<Longrightarrow> parses (s + 1) (r - 1) (c - 1) J (f True)) \<Longrightarrow> parses s r c J (f False)
     \<Longrightarrow> parses s r c J (pbind (match_op oi) f)"
  by (rule parses_match; simp add: matches_token_rules)+

lemmas parses_ends [parses_intros] = parses_preturn parses_pfail parses_if

text \<open>Where recovery stops: at the end of the file, at a declaration keyword, or behind a newline.\<close>

definition resynchronized :: "Parser \<Rightarrow> bool" where
  "resynchronized q \<longleftrightarrow>
     peek_kind q = Eof \<or> at_declaration q (peek_kind q) \<or> kind (stream q ! (pos q - 1)) = Newline"

lemma synchronize_loop_step:
  assumes "cursor_ok q"
  shows "synchronize_loop q =
    (if peek_kind q = Eof \<or> at_declaration q (peek_kind q) then (Parsed (), q)
     else if peek_kind q = Newline then (Parsed (), forward q) else synchronize_loop (forward q))"
  using assms by (subst synchronize_loop.simps) (simp add: cursor_ok_def peek_kind_def step_forward_def forward_def Let_def)

lemma wp_synchronize_loop:
  "cursor_ok q \<Longrightarrow> wp synchronize_loop (\<lambda>_ t. moved q t \<and> resynchronized t) (\<lambda>_ _. False) q"
proof (induction q rule: synchronize_loop.induct)
  case (1 q)
  note step = synchronize_loop_step [OF 1(2)]
  have fwd: "peek_kind q \<noteq> Eof \<Longrightarrow> moved q (forward q)" using moved_forward [OF 1(2)] by simp
  show ?case
  proof (cases "peek_kind q = Eof \<or> at_declaration q (peek_kind q) \<or> peek_kind q = Newline")
    case True
    then show ?thesis
      using fwd moved_refl [OF 1(2)] by (auto simp: wp_def step forward_def peek_kind_def resynchronized_def)
  next
    case False
    then have "wp synchronize_loop (\<lambda>_ t. moved (forward q) t \<and> resynchronized t) (\<lambda>_ _. False) (forward q)"
      using 1 fwd by (auto simp: moved_def cursor_ok_def peek_kind_def step_forward_def forward_def)
    then have "wp synchronize_loop (\<lambda>_ t. moved q t \<and> resynchronized t) (\<lambda>_ _. False) (forward q)"
      by (rule wp_mono) (use fwd False in \<open>auto intro: moved_trans\<close>)
    then show ?thesis using False by (simp add: wp_def step)
  qed
qed

text \<open>
  C35: error recovery makes progress.  From any token before the end of the file \<open>synchronize\<close> returns
  with the cursor strictly further on, at the end of the file, at a declaration keyword or behind a
  newline; so the declaration loop, which resynchronises after every error, ends.
\<close>

theorem synchronize_progress:
  assumes "cursor_ok p" and "peek_kind p \<noteq> Eof"
  shows "wp synchronize (\<lambda>_ q. moved p q \<and> pos p < pos q \<and> resynchronized q) (\<lambda>_ _. False) p"
proof -
  have fwd: "moved p (forward p)" using moved_forward [OF assms] by simp
  then have "cursor_ok (forward p)" by (simp add: moved_def)
  from wp_synchronize_loop [OF this]
  have "wp synchronize_loop (\<lambda>_ q. moved p q \<and> pos p < pos q \<and> resynchronized q) (\<lambda>_ _. False) (forward p)"
    by (rule wp_mono) (use fwd in \<open>auto intro: moved_trans simp: moved_def forward_def\<close>)
  then show ?thesis using assms by (simp add: synchronize_def)
qed

text \<open>A cursor at the first token of \<open>pass\<close>, a newline and the end of the file.\<close>

definition sample_cursor :: Parser where
  "sample_cursor =
     \<lparr>stream = map (\<lambda>k. token_new k (span_new 0 0)) [Keyword KwPass, Newline, Eof], pos = 0, active_soft_keywords = [],
      active_imported_keyword_specs = \<lambda>_. None, vocab_block_stack = [], std_async_vocab_active = False,
      active_scoped_surface_descriptors = [], scoped_call_argument_stack = [], pending_dedent_blank_lines = 0\<rparr>"

theorem synchronize_progress_witness:
  "wp synchronize (\<lambda>_ q. moved sample_cursor q \<and> pos sample_cursor < pos q \<and> resynchronized q) (\<lambda>_ _. False) sample_cursor"
  by (rule synchronize_progress) (simp_all add: sample_cursor_def cursor_ok_def peek_kind_def token_new_def)

end
