(* ===== verification/Type_Parser.thy ===== *)
theory Type_Parser
  imports Parser_Cursor
begin

text \<open>
  Type expressions: the syntax tree of \<open>kernel/incan_syntax/src/ast/types.rs\<close> with its rendering, and
  the recursive descent of \<open>parser/types.rs\<close>.

  Methods that call each other take fuel, one unit per call; \<open>type_fuel\<close> is enough for the tokens that
  are left, which \<open>type_expr_returns\<close> shows.  Where a method branches on what it has consumed, the
  branches are definitions of their own that take the methods they call as arguments.
\<close>

section \<open>Syntax tree\<close>

datatype TypeConstraintKey = ConstraintGe | ConstraintGt | ConstraintLe | ConstraintLt

fun constraint_as_str :: "TypeConstraintKey \<Rightarrow> rstr" where
  "constraint_as_str ConstraintGe = lit ''ge''"
| "constraint_as_str ConstraintGt = lit ''gt''"
| "constraint_as_str ConstraintLe = lit ''le''"
| "constraint_as_str ConstraintLt = lit ''lt''"

definition parse_spelling :: "rstr \<Rightarrow> TypeConstraintKey option" where
  "parse_spelling v =
     (if v = lit ''ge'' then Some ConstraintGe
      else if v = lit ''gt'' then Some ConstraintGt
      else if v = lit ''le'' then Some ConstraintLe
      else if v = lit ''lt'' then Some ConstraintLt
      else None)"

record TypeConstraint =
  constraint_key :: TypeConstraintKey
  constraint_value :: IntLiteral

datatype Type =
    TSimple rstr
  | TQualified "rstr list"
  | TDotted "rstr list"
  | TGeneric rstr "Type Spanned list"
  | TDottedGeneric "rstr list" "Type Spanned list"
  | TConstrained rstr "TypeConstraint Spanned list"
  | TIntLiteral IntLiteral
  | TFunction "Type Spanned list" "Type Spanned"
  | TRef "Type Spanned"
  | TRefMut "Type Spanned"
  | TMutParam "Type Spanned"
  | TUnit
  | TTuple "Type Spanned list"
  | TSelfType
  | TInfer

lemma size_node [termination_simp]: "size (node t) < Suc (size_Spanned size t)"
  by (cases t) simp

lemma size_node_member [termination_simp]: "t \<in> set ts \<Longrightarrow> size (node t) < Suc (size_list (size_Spanned size) ts)"
  using size_list_estimation [of t ts "size (node t)" "size_Spanned size"] by (cases t) auto

lemma size_node_function [termination_simp]:
  "t \<in> set ts \<Longrightarrow> size (node t) < Suc (size_list (size_Spanned size) ts + n)"
  "size (node t) < Suc (n + size_Spanned size t)"
  using size_node_member [of t ts] size_node [of t] by simp_all

fun mentions_name :: "rstr \<Rightarrow> Type \<Rightarrow> bool" where
  "mentions_name n (TSimple i) = (i = n)"
| "mentions_name n (TConstrained i _) = (i = n)"
| "mentions_name n (TGeneric h args) = (h = n \<or> list_ex (\<lambda>a. mentions_name n (node a)) args)"
| "mentions_name n (TDottedGeneric _ args) = list_ex (\<lambda>a. mentions_name n (node a)) args"
| "mentions_name n (TFunction params ret) = (list_ex (\<lambda>a. mentions_name n (node a)) params \<or> mentions_name n (node ret))"
| "mentions_name n (TRef t) = mentions_name n (node t)"
| "mentions_name n (TRefMut t) = mentions_name n (node t)"
| "mentions_name n (TMutParam t) = mentions_name n (node t)"
| "mentions_name n (TTuple ts) = list_ex (\<lambda>a. mentions_name n (node a)) ts"
| "mentions_name n _ = False"

text \<open>\<open>if i > 0 { write!(f, sep) }\<close> before every item.\<close>

fun separated :: "rstr \<Rightarrow> rstr list \<Rightarrow> rstr" where
  "separated sep [] = []"
| "separated sep [x] = x"
| "separated sep (x # xs) = x @ sep @ separated sep xs"

definition show_constraint :: "TypeConstraint \<Rightarrow> rstr" where
  "show_constraint c = constraint_as_str (constraint_key c) @ lit ''='' @ int_repr (constraint_value c)"

fun show_type :: "Type \<Rightarrow> rstr" where
  "show_type (TSimple name) = name"
| "show_type (TQualified segments) = separated (lit ''::'') segments"
| "show_type (TDotted segments) = separated (lit ''.'') segments"
| "show_type (TGeneric name args) =
     name @ lit ''['' @ separated (lit '', '') (map (\<lambda>a. show_type (node a)) args) @ lit '']''"
| "show_type (TDottedGeneric segments args) =
     separated (lit ''.'') segments @ lit ''['' @ separated (lit '', '') (map (\<lambda>a. show_type (node a)) args) @ lit '']''"
| "show_type (TConstrained name cs) =
     name @ lit ''['' @ separated (lit '', '') (map (\<lambda>c. show_constraint (node c)) cs) @ lit '']''"
| "show_type (TIntLiteral v) = int_repr v"
| "show_type (TFunction params ret) =
     lit ''('' @ separated (lit '', '') (map (\<lambda>a. show_type (node a)) params) @ lit '') -> '' @ show_type (node ret)"
| "show_type (TRef t) = lit ''&'' @ show_type (node t)"
| "show_type (TRefMut t) = lit ''&mut '' @ show_type (node t)"
| "show_type (TMutParam t) = lit ''mut '' @ show_type (node t)"
| "show_type TUnit = lit ''Unit''"
| "show_type (TTuple ts) = lit ''('' @ separated (lit '', '') (map (\<lambda>a. show_type (node a)) ts) @ lit '')''"
| "show_type TSelfType = lit ''Self''"
| "show_type TInfer = lit ''_''"

record TraitBound =
  bound_name :: rstr
  bound_type_args :: "Type Spanned list"

record TypeParam =
  param_name :: rstr
  param_bounds :: "TraitBound list"
  param_span :: Span

section \<open>Parser\<close>

definition MSG_TYPE_PARAMS :: rstr where
  "MSG_TYPE_PARAMS = lit ''Expected ']' after type parameters''"

definition MSG_TRAIT_BOUNDS :: rstr where
  "MSG_TRAIT_BOUNDS = lit ''Expected ')' after trait bounds''"

definition MSG_BOUND_ARGS :: rstr where
  "MSG_BOUND_ARGS = lit ''Expected ']' after trait bound type arguments''"

definition MSG_ADOPTION_LIST :: rstr where
  "MSG_ADOPTION_LIST = lit ''Expected ')' after trait adoption list''"

definition MSG_TUPLE :: rstr where
  "MSG_TUPLE = lit ''Expected ')' after tuple type''"

definition MSG_RPAREN :: rstr where
  "MSG_RPAREN = lit ''Expected '' @ [39, 41, 39]"

definition MSG_CONSTRAINTS :: rstr where
  "MSG_CONSTRAINTS = lit ''Expected ']' after constrained primitive type constraints''"

definition MSG_TYPE_ARGS :: rstr where
  "MSG_TYPE_ARGS = lit ''Expected ']' after type arguments''"

definition MSG_CONSTRAINT_EQ :: rstr where
  "MSG_CONSTRAINT_EQ = lit ''Expected '=' after constrained primitive key''"

abbreviation punct :: "PunctuationId \<Rightarrow> TokenKind" where
  "punct \<equiv> Punctuation"

definition current_start :: "nat parse" where
  "current_start = pbind current_span (\<lambda>s. preturn (start s))"

definition is_constrainable_primitive_type :: "rstr \<Rightarrow> bool" where
  "is_constrainable_primitive_type name \<longleftrightarrow> name = lit ''int'' \<or> name = lit ''float''"

definition is_mut_param :: "Type Spanned \<Rightarrow> bool" where
  "is_mut_param t = (case node t of TMutParam _ \<Rightarrow> True | _ \<Rightarrow> False)"

definition refuse_mut_marker_outside_callable_params :: "Type Spanned list \<Rightarrow> unit parse" where
  "refuse_mut_marker_outside_callable_params entries =
     (case find is_mut_param entries of
        Some marked \<Rightarrow> pfail Mut_marker_outside_callable (node_span marked)
      | None \<Rightarrow> preturn ())"

definition desugar_callable_type :: "Type Spanned list \<Rightarrow> nat \<Rightarrow> nat \<Rightarrow> Type Spanned parse" where
  "desugar_callable_type args s e =
     (case args of
        [params_arg, ret] \<Rightarrow>
          preturn (Spanned (TFunction (case node params_arg of TTuple types \<Rightarrow> types | TUnit \<Rightarrow> []
                                         | other \<Rightarrow> [Spanned other (node_span params_arg)]) ret) (span_new s e))
      | _ \<Rightarrow> pfail Callable_arity (span_new s e))"

text \<open>\<open>i64::checked_neg\<close>\<close>

definition negated_literal :: "IntLiteral \<Rightarrow> IntLiteral option" where
  "negated_literal v =
     (if in_i64 (- int_value v) then Some (v\<lparr>int_value := - int_value v, int_repr := lit ''-'' @ int_repr v\<rparr>) else None)"

text \<open>\<open>if let TokenKind::Int(value) = &self.peek().kind { self.advance(); .. }\<close>\<close>

definition match_int :: "IntLiteral option parse" where
  "match_int =
     pbind parser_peek (\<lambda>t.
       case kind t of IntTok v \<Rightarrow> pbind parser_advance (\<lambda>_. preturn (Some v)) | _ \<Rightarrow> preturn None)"

definition constrained_primitive_integer_literal :: "IntLiteral parse" where
  "constrained_primitive_integer_literal =
     pbind (match_token (Operator OpMinus)) (\<lambda>negative. pbind match_int (\<lambda>literal.
       case literal of
         Some v \<Rightarrow>
           if negative then
             (case negated_literal v of
                Some w \<Rightarrow> preturn w
              | None \<Rightarrow> pbind previous_token (\<lambda>t. pfail (Invalid_constraint_value (lit ''-'' @ int_repr v)) (span t)))
           else preturn v
       | None \<Rightarrow> pbind current_span (\<lambda>s. pfail Expected_constraint_value s)))"

definition constrained_primitive_type_constraint :: "TypeConstraint Spanned parse" where
  "constrained_primitive_type_constraint =
     pbind current_start (\<lambda>s. pbind parser_identifier (\<lambda>key_name.
       case parse_spelling key_name of
         None \<Rightarrow> pbind previous_end (\<lambda>e. pfail (Unsupported_constraint_key key_name) (span_new s e))
       | Some key \<Rightarrow>
           pbind (expect_op OpEq MSG_CONSTRAINT_EQ) (\<lambda>_. pbind constrained_primitive_integer_literal (\<lambda>v.
             pbind previous_end (\<lambda>e. preturn (Spanned \<lparr>constraint_key = key, constraint_value = v\<rparr> (span_new s e)))))))"

fun constraints_loop :: "nat \<Rightarrow> TypeConstraint Spanned list \<Rightarrow> TypeConstraint Spanned list parse" where
  "constraints_loop 0 cs = out_of_fuel"
| "constraints_loop (Suc n) cs =
     pbind constrained_primitive_type_constraint (\<lambda>c.
       if constraint_key (node c) \<in> set (map (constraint_key \<circ> node) cs)
       then pfail (Duplicate_constraint_key (constraint_as_str (constraint_key (node c)))) (node_span c)
       else pbind (match_token (punct PunctComma)) (\<lambda>more.
         if \<not> more then preturn (cs @ [c])
         else pbind (check (punct PunctRBracket)) (\<lambda>closing.
           if closing then preturn (cs @ [c]) else constraints_loop n (cs @ [c]))))"

definition constrained_primitive_type_constraints :: "nat \<Rightarrow> TypeConstraint Spanned list parse" where
  "constrained_primitive_type_constraints n =
     pbind (check (punct PunctRBracket)) (\<lambda>closing.
       if closing then pbind current_span (\<lambda>s. pfail No_constraints s) else constraints_loop n [])"

text \<open>The qualified rest of a type name: \<open>::\<close> or \<open>.\<close> segments, and whether a \<open>.\<close> was seen.\<close>

fun path_loop :: "nat \<Rightarrow> nat \<Rightarrow> rstr list \<Rightarrow> bool \<Rightarrow> (rstr list \<times> bool) parse" where
  "path_loop 0 s path dotted = out_of_fuel"
| "path_loop (Suc n) s path dotted =
     pbind (match_punct PunctColonColon) (\<lambda>colons.
       if colons then
         (if dotted then pbind current_start (\<lambda>e. pfail Mixed_path_qualification (span_new s e))
          else pbind identifier_or_any_keyword (\<lambda>seg. path_loop n s (path @ [seg]) dotted))
       else pbind (match_punct PunctDot) (\<lambda>dot.
         if dot then pbind identifier_or_any_keyword (\<lambda>seg. path_loop n s (path @ [seg]) True)
         else preturn (path, dotted)))"

definition spanned_to_here :: "Type \<Rightarrow> nat \<Rightarrow> Type Spanned parse" where
  "spanned_to_here t s = pbind previous_end (\<lambda>e. preturn (Spanned t (span_new s e)))"

definition constrained_type :: "nat \<Rightarrow> nat \<Rightarrow> rstr \<Rightarrow> Type Spanned parse" where
  "constrained_type n s name =
     pbind (constrained_primitive_type_constraints n) (\<lambda>cs. pbind (expect (punct PunctRBracket) MSG_CONSTRAINTS) (\<lambda>_.
       pbind previous_end (\<lambda>e. pbind (check (punct PunctLBracket)) (\<lambda>again.
         if again then pbind current_span (\<lambda>sp. pfail Second_constraint_block sp)
         else preturn (Spanned (TConstrained name cs) (span_new s e))))))"

text \<open>Behind the \<open>[\<close> of a named type: the arguments are read by \<open>args\<close>.\<close>

definition applied_type :: "nat \<Rightarrow> Type Spanned list parse \<Rightarrow> nat \<Rightarrow> rstr list \<Rightarrow> bool \<Rightarrow> Type Spanned parse" where
  "applied_type n args s path dotted =
     (if length path \<noteq> 1 \<and> \<not> dotted then pbind current_start (\<lambda>e. pfail Generics_on_qualified_path (span_new s e))
      else if is_constrainable_primitive_type (hd path) \<and> \<not> dotted then constrained_type n s (hd path)
      else pbind args (\<lambda>ts. pbind (expect (punct PunctRBracket) MSG_TYPE_ARGS) (\<lambda>_. pbind previous_end (\<lambda>e.
             if hd path = lit ''Callable'' then desugar_callable_type ts s e
             else if dotted then preturn (Spanned (TDottedGeneric path ts) (span_new s e))
             else preturn (Spanned (TGeneric (hd path) ts) (span_new s e))))))"

definition path_type :: "nat \<Rightarrow> Type Spanned list parse \<Rightarrow> nat \<Rightarrow> rstr list \<Rightarrow> bool \<Rightarrow> Type Spanned parse" where
  "path_type n args s path dotted =
     pbind (match_token (punct PunctLBracket)) (\<lambda>applied.
       if applied then applied_type n args s path dotted
       else if length path = 1 then spanned_to_here (TSimple (hd path)) s
       else if dotted then spanned_to_here (TDotted path) s
       else spanned_to_here (TQualified path) s)"

definition named_type :: "nat \<Rightarrow> Type Spanned list parse \<Rightarrow> nat \<Rightarrow> Type Spanned parse" where
  "named_type n args s =
     pbind parser_identifier (\<lambda>name.
       if name = lit ''Self'' then spanned_to_here TSelfType s
       else pbind (path_loop n s [name] False) (\<lambda>(path, dotted). path_type n args s path dotted))"

definition literal_or_named_type :: "nat \<Rightarrow> Type Spanned list parse \<Rightarrow> nat \<Rightarrow> Type Spanned parse" where
  "literal_or_named_type n args s =
     pbind (match_token (Keyword KwNone)) (\<lambda>none.
       if none then spanned_to_here (TSimple (lit ''None'')) s
       else pbind match_int (\<lambda>literal.
         case literal of Some v \<Rightarrow> spanned_to_here (TIntLiteral v) s | None \<Rightarrow> named_type n args s))"

definition reference_type :: "Type Spanned parse \<Rightarrow> nat \<Rightarrow> Type Spanned parse" where
  "reference_type atom s =
     pbind (match_keyword KwMut) (\<lambda>mutable. pbind atom (\<lambda>inner.
       preturn (Spanned (if mutable then TRefMut inner else TRef inner) (span_new s (end_pos (node_span inner))))))"

definition function_type :: "Type Spanned parse \<Rightarrow> nat \<Rightarrow> Type Spanned list \<Rightarrow> Type Spanned parse" where
  "function_type result s params =
     pbind result (\<lambda>ret. preturn (Spanned (TFunction params ret) (span_new s (end_pos (node_span ret)))))"

text \<open>Behind the \<open>(\<close>: the unit type, a function type, a tuple or a grouped type.\<close>

definition unit_type :: "Type Spanned parse \<Rightarrow> nat \<Rightarrow> Type Spanned parse" where
  "unit_type result s =
     pbind (match_token (punct PunctArrow)) (\<lambda>arrow.
       if arrow then function_type result s [] else spanned_to_here TUnit s)"

definition tuple_type :: "Type Spanned parse \<Rightarrow> Type Spanned list parse \<Rightarrow> nat \<Rightarrow> Type Spanned \<Rightarrow> Type Spanned parse" where
  "tuple_type result entries s first =
     pbind (check (punct PunctRParen)) (\<lambda>closing.
       pbind (if closing then preturn [first] else entries) (\<lambda>types.
         pbind (expect (punct PunctRParen) MSG_TUPLE) (\<lambda>_. pbind (match_token (punct PunctArrow)) (\<lambda>arrow.
           if arrow then function_type result s types
           else pbind (refuse_mut_marker_outside_callable_params types) (\<lambda>_. spanned_to_here (TTuple types) s)))))"

definition grouped_type :: "Type Spanned parse \<Rightarrow> nat \<Rightarrow> Type Spanned \<Rightarrow> Type Spanned parse" where
  "grouped_type result s first =
     pbind (expect (punct PunctRParen) MSG_RPAREN) (\<lambda>_. pbind (match_token (punct PunctArrow)) (\<lambda>arrow.
       if arrow then function_type result s [first]
       else pbind (refuse_mut_marker_outside_callable_params [first]) (\<lambda>_. preturn first)))"

definition parenthesized_type ::
  "Type Spanned parse \<Rightarrow> Type Spanned parse \<Rightarrow> (Type Spanned \<Rightarrow> Type Spanned list parse) \<Rightarrow> nat \<Rightarrow> Type Spanned parse" where
  "parenthesized_type result entry entries s =
     pbind (match_token (punct PunctRParen)) (\<lambda>unit.
       if unit then unit_type result s
       else pbind entry (\<lambda>first. pbind (match_token (punct PunctComma)) (\<lambda>comma.
         if comma then tuple_type result (entries first) s first else grouped_type result s first)))"

text \<open>Union members: a member that is itself a \<open>Union[...]\<close> is spliced in.\<close>

definition union_members :: "Type Spanned list \<Rightarrow> Type Spanned list" where
  "union_members ms =
     concat (map (\<lambda>m. case node m of
                        TGeneric name args \<Rightarrow> if name = lit ''Union'' then args else [m]
                      | _ \<Rightarrow> [m]) ms)"

definition union_type :: "Type Spanned \<Rightarrow> Type Spanned list \<Rightarrow> Type Spanned" where
  "union_type first members =
     Spanned (TGeneric (lit ''Union'') (union_members members))
       (span_new (start (node_span first))
          (if members = [] then start (node_span first) else end_pos (node_span (last members))))"

fun type_expr :: "nat \<Rightarrow> Type Spanned parse"
  and union_loop :: "nat \<Rightarrow> Type Spanned list \<Rightarrow> Type Spanned list parse"
  and type_atom :: "nat \<Rightarrow> Type Spanned parse"
  and parenthesized_type_entry :: "nat \<Rightarrow> Type Spanned parse"
  and entries_loop :: "nat \<Rightarrow> Type Spanned list \<Rightarrow> Type Spanned list parse"
  and type_list :: "nat \<Rightarrow> Type Spanned list parse"
  and types_loop :: "nat \<Rightarrow> Type Spanned list \<Rightarrow> Type Spanned list parse" where
  "type_expr 0 = out_of_fuel"
| "type_expr (Suc n) =
     pbind (type_atom n) (\<lambda>first. pbind (match_punct PunctPipe) (\<lambda>more.
       if \<not> more then preturn first
       else pbind (union_loop n [first]) (\<lambda>members. preturn (union_type first members))))"
| "union_loop 0 ms = out_of_fuel"
| "union_loop (Suc n) ms =
     pbind (type_atom n) (\<lambda>m. pbind (match_punct PunctPipe) (\<lambda>more.
       if \<not> more then preturn (ms @ [m]) else union_loop n (ms @ [m])))"
| "type_atom 0 = out_of_fuel"
| "type_atom (Suc n) =
     pbind current_start (\<lambda>s. pbind (match_op OpAmp) (\<lambda>amp.
       if amp then reference_type (type_atom n) s
       else pbind (match_token (punct PunctLParen)) (\<lambda>paren.
         if paren
         then parenthesized_type (type_expr n) (parenthesized_type_entry n) (\<lambda>first. entries_loop n [first]) s
         else literal_or_named_type n (type_list n) s)))"
| "parenthesized_type_entry 0 = out_of_fuel"
| "parenthesized_type_entry (Suc n) =
     pbind current_start (\<lambda>s. pbind (match_keyword KwMut) (\<lambda>marked.
       if \<not> marked then type_expr n
       else pbind (type_expr n) (\<lambda>inner.
         preturn (Spanned (TMutParam inner) (span_new s (end_pos (node_span inner)))))))"
| "entries_loop 0 ts = out_of_fuel"
| "entries_loop (Suc n) ts =
     pbind (parenthesized_type_entry n) (\<lambda>t. pbind (match_token (punct PunctComma)) (\<lambda>more.
       if \<not> more then preturn (ts @ [t]) else entries_loop n (ts @ [t])))"
| "type_list 0 = out_of_fuel"
| "type_list (Suc n) =
     pbind (check (punct PunctRBracket)) (\<lambda>bracket. pbind (check (punct PunctRParen)) (\<lambda>paren.
       if \<not> bracket \<and> \<not> paren then types_loop n [] else preturn []))"
| "types_loop 0 ts = out_of_fuel"
| "types_loop (Suc n) ts =
     pbind (type_expr n) (\<lambda>t. pbind (match_token (punct PunctComma)) (\<lambda>more.
       if \<not> more then preturn (ts @ [t]) else types_loop n (ts @ [t])))"

section \<open>Type parameters and bounds\<close>

fun bound_name_loop :: "nat \<Rightarrow> rstr \<Rightarrow> rstr parse" where
  "bound_name_loop 0 name = out_of_fuel"
| "bound_name_loop (Suc n) name =
     pbind (match_token (punct PunctDot)) (\<lambda>dot.
       if \<not> dot then preturn name
       else pbind identifier_or_from_keyword (\<lambda>segment. bound_name_loop n (name @ lit ''.'' @ segment)))"

definition trait_bound :: "nat \<Rightarrow> TraitBound parse" where
  "trait_bound n =
     pbind identifier_or_from_keyword (\<lambda>first. pbind (bound_name_loop n first) (\<lambda>name.
       pbind (match_token (punct PunctLBracket)) (\<lambda>applied.
         if \<not> applied then preturn \<lparr>bound_name = name, bound_type_args = []\<rparr>
         else pbind (type_list n) (\<lambda>args. pbind (expect (punct PunctRBracket) MSG_BOUND_ARGS) (\<lambda>_.
           preturn \<lparr>bound_name = name, bound_type_args = args\<rparr>)))))"

definition trait_bound_spanned :: "nat \<Rightarrow> TraitBound Spanned parse" where
  "trait_bound_spanned n =
     pbind current_start (\<lambda>s. pbind (trait_bound n) (\<lambda>b. pbind previous_end (\<lambda>e. preturn (Spanned b (span_new s e)))))"

text \<open>\<open>loop { items.push(item?); if !match(',') { break; } if check(close) { break; } }\<close>: a trailing comma is allowed.\<close>

fun comma_loop :: "nat \<Rightarrow> 'a parse \<Rightarrow> PunctuationId \<Rightarrow> 'a list \<Rightarrow> 'a list parse" where
  "comma_loop 0 item close xs = out_of_fuel"
| "comma_loop (Suc n) item close xs =
     pbind item (\<lambda>x. pbind (match_token (punct PunctComma)) (\<lambda>more.
       if \<not> more then preturn (xs @ [x])
       else pbind (check (punct close)) (\<lambda>closing.
         if closing then preturn (xs @ [x]) else comma_loop n item close (xs @ [x]))))"

text \<open>\<open>while match(',') { items.push(item?); }\<close>\<close>

fun bare_comma_loop :: "nat \<Rightarrow> 'a parse \<Rightarrow> 'a list \<Rightarrow> 'a list parse" where
  "bare_comma_loop 0 item xs = out_of_fuel"
| "bare_comma_loop (Suc n) item xs =
     pbind (match_token (punct PunctComma)) (\<lambda>more.
       if \<not> more then preturn xs else pbind item (\<lambda>x. bare_comma_loop n item (xs @ [x])))"

definition type_param_bounds :: "nat \<Rightarrow> TraitBound list parse" where
  "type_param_bounds n =
     pbind (match_keyword KwWith) (\<lambda>bounded.
       if \<not> bounded then preturn []
       else pbind (match_token (punct PunctLParen)) (\<lambda>several.
         if several
         then pbind (comma_loop n (trait_bound n) PunctRParen []) (\<lambda>bounds.
                pbind (expect (punct PunctRParen) MSG_TRAIT_BOUNDS) (\<lambda>_. preturn bounds))
         else pbind (trait_bound n) (\<lambda>b. preturn [b])))"

definition type_param :: "nat \<Rightarrow> TypeParam parse" where
  "type_param n =
     pbind identifier_spanned (\<lambda>name. pbind (type_param_bounds n) (\<lambda>bounds.
       preturn \<lparr>param_name = node name, param_bounds = bounds, param_span = node_span name\<rparr>))"

definition type_params :: "nat \<Rightarrow> TypeParam list parse" where
  "type_params n =
     pbind (match_token (punct PunctLBracket)) (\<lambda>generic.
       if \<not> generic then preturn []
       else pbind (comma_loop n (type_param n) PunctRBracket []) (\<lambda>params.
         pbind (expect (punct PunctRBracket) MSG_TYPE_PARAMS) (\<lambda>_. preturn params)))"

definition trait_supertrait_list_spanned :: "nat \<Rightarrow> TraitBound Spanned list parse" where
  "trait_supertrait_list_spanned n =
     pbind (match_token (punct PunctLParen)) (\<lambda>several.
       if several
       then pbind (comma_loop n (trait_bound_spanned n) PunctRParen []) (\<lambda>bounds.
              pbind (expect (punct PunctRParen) MSG_ADOPTION_LIST) (\<lambda>_. preturn bounds))
       else pbind (trait_bound_spanned n) (\<lambda>b. bare_comma_loop n (trait_bound_spanned n) [b]))"

section \<open>The parser returns well-formed types\<close>

text \<open>
  What the syntax tree's documentation promises: qualified paths have two segments or more, a constrained
  primitive has constraints with different keys, and the \<open>mut\<close> marker occurs only on a parameter of a
  function type.  The flag says whether the marker may stand at the root; \<open>_\<close> placeholders belong to
  call-site arguments, which another method reads.
\<close>

fun type_ok :: "bool \<Rightarrow> Type \<Rightarrow> bool" where
  "type_ok b (TSimple n) = True"
| "type_ok b (TQualified path) = (2 \<le> length path)"
| "type_ok b (TDotted path) = (2 \<le> length path)"
| "type_ok b (TGeneric n args) = list_all (\<lambda>a. type_ok False (node a)) args"
| "type_ok b (TDottedGeneric path args) = (2 \<le> length path \<and> list_all (\<lambda>a. type_ok False (node a)) args)"
| "type_ok b (TConstrained n cs) =
     (is_constrainable_primitive_type n \<and> cs \<noteq> [] \<and> distinct (map (constraint_key \<circ> node) cs))"
| "type_ok b (TIntLiteral v) = True"
| "type_ok b (TFunction ps r) = (list_all (\<lambda>a. type_ok True (node a)) ps \<and> type_ok False (node r))"
| "type_ok b (TRef t) = type_ok False (node t)"
| "type_ok b (TRefMut t) = type_ok False (node t)"
| "type_ok b (TMutParam t) = (b \<and> type_ok False (node t))"
| "type_ok b TUnit = True"
| "type_ok b (TTuple ts) = (ts \<noteq> [] \<and> list_all (\<lambda>a. type_ok False (node a)) ts)"
| "type_ok b TSelfType = True"
| "type_ok b TInfer = False"

lemma type_ok_param: "type_ok False t \<Longrightarrow> type_ok True t"
  by (cases t) auto

lemma type_ok_unmarked: "type_ok True (node t) \<Longrightarrow> \<not> is_mut_param t \<Longrightarrow> type_ok False (node t)"
  by (cases "node t") (auto simp: is_mut_param_def)

abbreviation well_formed :: "Type Spanned \<Rightarrow> bool" where
  "well_formed t \<equiv> type_ok False (node t)"

abbreviation well_formed_entry :: "Type Spanned \<Rightarrow> bool" where
  "well_formed_entry t \<equiv> type_ok True (node t)"

lemma parses_current_start [parses_intros]: "(\<And>a. parses s r c J (f a)) \<Longrightarrow> parses s r c J (pbind current_start f)"
  unfolding current_start_def
  by (rule parses_bind [where ?c1.0 = 0 and I = "\<lambda>_. True"]) (simp_all add: parses_bind_look parses_preturn)

lemma parses_match_int [parses_intros]:
  assumes "\<And>v. 1 < r \<Longrightarrow> parses (s + 1) (r - 1) (c - 1) J (f (Some v))" and "parses s r c J (f None)"
  shows "parses s r c J (pbind match_int f)"
proof (rule parsesI)
  fix p assume p: "cursor_ok p" "remaining p \<le> r" "s \<le> pos p"
  show "wp (pbind match_int f) (\<lambda>a q. moved p q \<and> remaining q + c \<le> remaining p \<and> J a) (\<lambda>e q. moved p q) p"
  proof (cases "\<exists>v. peek_kind p = IntTok v")
    case True
    then obtain v where v: "peek_kind p = IntTok v" by blast
    have fwd: "moved p (forward p)" "remaining (forward p) + 1 = remaining p" "1 < remaining p"
      using moved_forward [OF p(1)] v by simp_all
    have at: "s + 1 \<le> pos (forward p)" using p(3) by (simp add: forward_def)
    have "parses (s + 1) (r - 1) (c - 1) J (f (Some v))" using assms(1) fwd p by simp
    then have "wp (f (Some v)) (\<lambda>a q. moved (forward p) q \<and> remaining q + (c - 1) \<le> remaining (forward p) \<and> J a)
        (\<lambda>e q. moved (forward p) q) (forward p)"
      by (rule parsesD) (use fwd p at in \<open>simp_all add: moved_def\<close>)
    then have "wp (f (Some v)) (\<lambda>a q. moved p q \<and> remaining q + c \<le> remaining p \<and> J a) (\<lambda>e q. moved p q) (forward p)"
      by (rule wp_mono) (use fwd in \<open>auto intro: moved_trans\<close>)
    then show ?thesis using p v by (simp add: match_int_def flip: peek_kind_def)
  next
    case False
    then have "wp match_int Q E p = Q None p" for Q E
      using p by (cases "peek_kind p") (simp_all add: match_int_def flip: peek_kind_def)
    then show ?thesis using assms(2) p by (simp add: parses_def)
  qed
qed

lemma parses_spanned_to_here [parses_intros]:
  "0 < s \<Longrightarrow> c = 0 \<Longrightarrow> (\<And>sp. I (Spanned t sp)) \<Longrightarrow> parses s r c I (spanned_to_here t st)"
  unfolding spanned_to_here_def by (intro parses_intros) auto

lemma parses_constraint_literal: "parses s r 1 (\<lambda>_. True) constrained_primitive_integer_literal"
  unfolding constrained_primitive_integer_literal_def
  by (intro parses_intros) (auto intro!: parses_intros split: option.split)

lemma parses_constraint: "parses s r 1 (\<lambda>_. True) constrained_primitive_type_constraint"
  unfolding constrained_primitive_type_constraint_def
proof (intro parses_intros)
  fix name :: rstr and st :: nat assume "1 < r"
  have "parses (s + 1) (r - 1) 0 (\<lambda>_. True)
      (pbind (expect_op OpEq MSG_CONSTRAINT_EQ) (\<lambda>_. pbind constrained_primitive_integer_literal (\<lambda>v.
         pbind previous_end (\<lambda>e. preturn (Spanned \<lparr>constraint_key = k, constraint_value = v\<rparr> (span_new st e))))))" for k
    by (intro parses_intros parses_bind [OF parses_constraint_literal]) simp_all
  then show "parses (s + 1) (r - 1) (1 - 1) (\<lambda>_. True)
      (case parse_spelling name of
         None \<Rightarrow> pbind previous_end (\<lambda>e. pfail (Unsupported_constraint_key name) (span_new st e))
       | Some key \<Rightarrow> pbind (expect_op OpEq MSG_CONSTRAINT_EQ) (\<lambda>_. pbind constrained_primitive_integer_literal (\<lambda>v.
             pbind previous_end (\<lambda>e. preturn (Spanned \<lparr>constraint_key = key, constraint_value = v\<rparr> (span_new st e))))))"
    by (auto intro!: parses_intros split: option.split)
qed

definition constraints_ok :: "TypeConstraint Spanned list \<Rightarrow> bool" where
  "constraints_ok cs \<longleftrightarrow> distinct (map (constraint_key \<circ> node) cs)"

lemma parses_constraints_loop:
  "r \<le> n \<Longrightarrow> constraints_ok cs \<Longrightarrow> parses s r 1 (\<lambda>ds. ds \<noteq> [] \<and> constraints_ok ds) (constraints_loop n cs)"
proof (induction n arbitrary: r s cs)
  case 0
  then show ?case by (simp add: parses_zero)
next
  case (Suc n)
  show ?case unfolding constraints_loop.simps
  proof (intro parses_bind [OF parses_constraint] parses_intros)
    fix c :: "TypeConstraint Spanned" assume "constraint_key (node c) \<notin> set (map (constraint_key \<circ> node) cs)"
    then have ok: "constraints_ok (cs @ [c])" using Suc.prems(2) by (auto simp: constraints_ok_def)
    show "parses (s + 1 + 1) (r - 1 - 1) (1 - 1 - 1) (\<lambda>ds. ds \<noteq> [] \<and> constraints_ok ds) (constraints_loop n (cs @ [c]))"
      using Suc.prems(1) ok by (intro parses_weaken [OF Suc.IH]) auto
  qed (use Suc.prems(2) in \<open>auto simp: constraints_ok_def\<close>)
qed

lemma parses_constraints:
  "r \<le> n \<Longrightarrow> parses s r 1 (\<lambda>ds. ds \<noteq> [] \<and> constraints_ok ds) (constrained_primitive_type_constraints n)"
  unfolding constrained_primitive_type_constraints_def
  by (intro parses_intros parses_constraints_loop) (simp_all add: constraints_ok_def)

lemma parses_path_loop:
  "r \<le> n \<Longrightarrow> path \<noteq> [] \<Longrightarrow> (dotted \<longrightarrow> 2 \<le> length path) \<Longrightarrow>
   parses s r 0 (\<lambda>(p, d). p \<noteq> [] \<and> (d \<longrightarrow> 2 \<le> length p)) (path_loop n st path dotted)"
proof (induction n arbitrary: r s path dotted)
  case 0
  then show ?case by (simp add: parses_zero)
next
  case (Suc n)
  have "parses (s + 1 + 1) (r - 1 - 1) (0 - 1 - 1) (\<lambda>(p, d). p \<noteq> [] \<and> (d \<longrightarrow> 2 \<le> length p)) (path_loop n st (path @ [seg]) d)" for seg d
    using Suc.prems by (intro parses_weaken [OF Suc.IH]) (auto simp: Suc_le_eq)
  then show ?case unfolding path_loop.simps
    using Suc.prems by (intro parses_intros) auto
qed

lemma parses_refuse:
  "c = 0 \<Longrightarrow> list_all well_formed_entry ts \<Longrightarrow> parses s r c (\<lambda>_. list_all well_formed ts) (refuse_mut_marker_outside_callable_params ts)"
  by (auto simp: refuse_mut_marker_outside_callable_params_def find_None_iff list_all_iff
      intro!: parses_ends type_ok_unmarked split: option.split)

lemma parses_callable:
  "c = 0 \<Longrightarrow> list_all well_formed ts \<Longrightarrow> parses s r c well_formed (desugar_callable_type ts st e)"
  unfolding desugar_callable_type_def
  by (auto intro!: parses_ends type_ok_param split: list.split Type.split simp: list_all_iff)

lemma parses_constrained:
  "r \<le> n \<Longrightarrow> c \<le> 1 \<Longrightarrow> is_constrainable_primitive_type name \<Longrightarrow> parses s r c well_formed (constrained_type n st name)"
  unfolding constrained_type_def
  by (intro parses_bind [OF parses_constraints] parses_intros) (auto simp: constraints_ok_def)

lemma parses_applied:
  assumes "r \<le> n" and "c = 0" and "path \<noteq> []" and "dotted \<longrightarrow> 2 \<le> length path"
    and args: "\<And>s. parses s r 0 (list_all well_formed) args"
  shows "parses s r c well_formed (applied_type n args st path dotted)"
  unfolding applied_type_def
  using assms
  by (intro parses_intros parses_bind [OF args] parses_constrained parses_callable) auto

lemma parses_named:
  assumes "r \<le> n" and "c \<le> 1" and args: "\<And>s r'. r' + 2 \<le> r \<Longrightarrow> parses s r' 0 (list_all well_formed) args"
  shows "parses s r c well_formed (named_type n args st)"
proof -
  have applied: "parses s' r' 0 well_formed (applied_type n args st path dotted)"
    if "r' + 2 \<le> r" "path \<noteq> []" "dotted \<longrightarrow> 2 \<le> length path" for s' r' path dotted
    using that assms(1) by (intro parses_applied args) auto
  have path: "parses s' r' 0 well_formed (path_type n args st path dotted)"
    if "r' + 1 \<le> r" "0 < s'" "path \<noteq> []" "dotted \<longrightarrow> 2 \<le> length path" for s' r' path dotted
  proof -
    have "2 \<le> length path" if "length path \<noteq> 1" using \<open>path \<noteq> []\<close> that by (cases path) (auto simp: Suc_le_eq)
    then show ?thesis
      unfolding path_type_def using that by (intro parses_intros parses_weaken [OF applied]) auto
  qed
  show ?thesis
    unfolding named_type_def
    using assms(1,2)
    by (intro parses_intros parses_bind [OF parses_path_loop]) (auto intro!: parses_weaken [OF path])
qed

lemma parses_literal_or_named:
  assumes "r \<le> n" and "c \<le> 1" and args: "\<And>s r'. r' + 2 \<le> r \<Longrightarrow> parses s r' 0 (list_all well_formed) args"
  shows "parses s r c well_formed (literal_or_named_type n args st)"
  unfolding literal_or_named_type_def
  using assms by (intro parses_intros) (auto intro!: parses_intros parses_named)

lemma parses_reference:
  assumes "c = 0" and atom: "\<And>s r'. r' \<le> r \<Longrightarrow> parses s r' 0 well_formed atom"
  shows "parses s r c well_formed (reference_type atom st)"
  unfolding reference_type_def using assms by (intro parses_intros parses_bind [OF atom]) auto

lemma parses_function:
  assumes "c = 0" and "list_all well_formed_entry params" and result: "\<And>s r'. r' \<le> r \<Longrightarrow> parses s r' 0 well_formed result"
  shows "parses s r c well_formed (function_type result st params)"
  unfolding function_type_def using assms by (intro parses_bind [OF result] parses_intros) auto

text \<open>Behind the opening parenthesis, with \<open>r\<close> tokens left at it.\<close>

lemma parses_parenthesized:
  assumes "0 < s" and "c = 0"
    and result: "\<And>s r'. r' \<le> r \<Longrightarrow> parses s r' 0 well_formed result"
    and entry: "\<And>s. parses s r 1 well_formed_entry entry"
    and entries: "\<And>s r' first. r' \<le> r \<Longrightarrow> well_formed_entry first \<Longrightarrow>
        parses s r' 0 (\<lambda>ts. ts \<noteq> [] \<and> list_all well_formed_entry ts) (entries first)"
  shows "parses s r c well_formed (parenthesized_type result entry entries st)"
proof -
  have unit: "parses s' r' 0 well_formed (unit_type result st)" if "r' \<le> r" "0 < s'" for s' r'
    unfolding unit_type_def using that by (intro parses_intros parses_function result) auto
  have grouped: "parses s' r' 0 well_formed (grouped_type result st first)" if "r' \<le> r" "0 < s'" "well_formed_entry first" for s' r' first
    unfolding grouped_type_def using that
    by (intro parses_intros parses_function result parses_bind [OF parses_refuse]) auto
  have tuple: "parses s' r' 0 well_formed (tuple_type result (entries first) st first)"
    if "r' \<le> r" "0 < s'" "well_formed_entry first" for s' r' first
  proof -
    have "parses s' r' 0 (\<lambda>ts. ts \<noteq> [] \<and> list_all well_formed_entry ts) (if closing then preturn [first] else entries first)" for closing
      using that by (intro parses_intros entries) auto
    then show ?thesis
      unfolding tuple_type_def using that
      by (intro parses_intros) (rule parses_bind, assumption, intro parses_intros parses_function result parses_bind [OF parses_refuse], auto)
  qed
  show ?thesis
    unfolding parenthesized_type_def
    using assms(1,2)
    by (intro parses_intros parses_bind [OF entry]) (auto intro!: parses_weaken [OF unit] parses_weaken [OF tuple] parses_weaken [OF grouped])
qed

lemma union_type_ok:
  "list_all well_formed ms \<Longrightarrow> well_formed (union_type first ms)"
  by (auto simp: union_type_def union_members_def list_all_iff split: Type.splits)

lemma type_parser_contract:
  "(4 * r + 2 \<le> n \<longrightarrow> parses s r 1 well_formed (type_expr n))
   \<and> (4 * r + 2 \<le> n \<longrightarrow> list_all well_formed ms \<longrightarrow> parses s r 1 (\<lambda>ts. ts \<noteq> [] \<and> list_all well_formed ts) (union_loop n ms))
   \<and> (4 * r + 1 \<le> n \<longrightarrow> parses s r 1 well_formed (type_atom n))
   \<and> (4 * r + 3 \<le> n \<longrightarrow> parses s r 1 well_formed_entry (parenthesized_type_entry n))
   \<and> (4 * r + 4 \<le> n \<longrightarrow> list_all well_formed_entry es \<longrightarrow>
        parses s r 1 (\<lambda>ts. ts \<noteq> [] \<and> list_all well_formed_entry ts) (entries_loop n es))
   \<and> (4 * r + 4 \<le> n \<longrightarrow> parses s r 0 (list_all well_formed) (type_list n))
   \<and> (4 * r + 3 \<le> n \<longrightarrow> list_all well_formed ms \<longrightarrow> parses s r 1 (list_all well_formed) (types_loop n ms))"
proof (induction n arbitrary: r s ms es)
  case 0
  then show ?case by simp
next
  case (Suc n)
  have expr: "4 * r + 2 \<le> n \<Longrightarrow> parses s r 1 well_formed (type_expr n)"
    and union: "4 * r + 2 \<le> n \<Longrightarrow> list_all well_formed ms \<Longrightarrow> parses s r 1 (\<lambda>ts. ts \<noteq> [] \<and> list_all well_formed ts) (union_loop n ms)"
    and atom: "4 * r + 1 \<le> n \<Longrightarrow> parses s r 1 well_formed (type_atom n)"
    and entry: "4 * r + 3 \<le> n \<Longrightarrow> parses s r 1 well_formed_entry (parenthesized_type_entry n)"
    and entries: "4 * r + 4 \<le> n \<Longrightarrow> list_all well_formed_entry es \<Longrightarrow>
        parses s r 1 (\<lambda>ts. ts \<noteq> [] \<and> list_all well_formed_entry ts) (entries_loop n es)"
    and tlist: "4 * r + 4 \<le> n \<Longrightarrow> parses s r 0 (list_all well_formed) (type_list n)"
    and types: "4 * r + 3 \<le> n \<Longrightarrow> list_all well_formed ms \<Longrightarrow> parses s r 1 (list_all well_formed) (types_loop n ms)"
    for r s ms es
    using Suc.IH [of r s ms es] by simp_all
  have "parses s r 1 well_formed (type_expr (Suc n))" if "4 * r + 2 \<le> Suc n"
    unfolding type_expr.simps using that
    by (intro parses_bind [OF atom] parses_intros parses_bind [OF union]) (auto simp: union_type_ok)
  moreover have "parses s r 1 (\<lambda>ts. ts \<noteq> [] \<and> list_all well_formed ts) (union_loop (Suc n) ms)"
    if "4 * r + 2 \<le> Suc n" "list_all well_formed ms"
    unfolding union_loop.simps using that
    by (intro parses_bind [OF atom] parses_intros parses_weaken [OF union]) auto
  moreover have "parses s r 1 well_formed (type_atom (Suc n))" if "4 * r + 1 \<le> Suc n"
    unfolding type_atom.simps using that
    by (intro parses_intros parses_reference parses_parenthesized parses_literal_or_named parses_weaken [OF atom]
        parses_weaken [OF expr] entry parses_weaken [OF entries] tlist) auto
  moreover have "parses s r 1 well_formed_entry (parenthesized_type_entry (Suc n))" if "4 * r + 3 \<le> Suc n"
    unfolding parenthesized_type_entry.simps using that
    by (intro parses_intros parses_bind [OF expr] parses_weaken [OF expr]) (auto intro: type_ok_param)
  moreover have "parses s r 1 (\<lambda>ts. ts \<noteq> [] \<and> list_all well_formed_entry ts) (entries_loop (Suc n) es)"
    if "4 * r + 4 \<le> Suc n" "list_all well_formed_entry es"
    unfolding entries_loop.simps using that
    by (intro parses_bind [OF entry] parses_intros parses_weaken [OF entries]) auto
  moreover have "parses s r 0 (list_all well_formed) (type_list (Suc n))" if "4 * r + 4 \<le> Suc n"
    unfolding type_list.simps using that
    by (intro parses_intros parses_weaken [OF types]) auto
  moreover have "parses s r 1 (list_all well_formed) (types_loop (Suc n) ms)" if "4 * r + 3 \<le> Suc n" "list_all well_formed ms"
    unfolding types_loop.simps using that
    by (intro parses_bind [OF expr] parses_intros parses_weaken [OF types]) auto
  ultimately show ?case by blast
qed

section \<open>Bounds and parameters\<close>

lemma parses_bound_name: "r \<le> n \<Longrightarrow> parses s r 0 (\<lambda>_. True) (bound_name_loop n name)"
proof (induction n arbitrary: r s name)
  case 0
  then show ?case by (simp add: parses_zero)
next
  case (Suc n)
  show ?case unfolding bound_name_loop.simps using Suc.prems
    by (intro parses_intros parses_weaken [OF Suc.IH]) auto
qed

definition bound_ok :: "TraitBound \<Rightarrow> bool" where
  "bound_ok b \<longleftrightarrow> list_all well_formed (bound_type_args b)"

lemma parses_trait_bound: "4 * r \<le> n \<Longrightarrow> parses s r 1 bound_ok (trait_bound n)"
proof -
  assume n: "4 * r \<le> n"
  have args: "parses s r' 0 (list_all well_formed) (type_list n)" if "r' + 2 \<le> r" for s r'
    using type_parser_contract [of r' n s] that n by simp
  show ?thesis unfolding trait_bound_def using n
    by (intro parses_intros parses_bind [OF parses_bound_name] parses_bind [OF args]) (auto simp: bound_ok_def)
qed

lemma parses_trait_bound_spanned: "4 * r \<le> n \<Longrightarrow> parses s r 1 (bound_ok \<circ> node) (trait_bound_spanned n)"
  unfolding trait_bound_spanned_def
  by (intro parses_intros parses_bind [OF parses_trait_bound]) auto

lemma parses_comma_loop:
  "(\<And>s r'. r' \<le> r \<Longrightarrow> parses s r' 1 I item) \<Longrightarrow> r \<le> n \<Longrightarrow> list_all I xs \<Longrightarrow>
   parses s r 1 (\<lambda>ys. ys \<noteq> [] \<and> list_all I ys) (comma_loop n item close xs)"
proof (induction n arbitrary: r s xs)
  case 0
  then show ?case by (simp add: parses_zero)
next
  case (Suc n)
  show ?case unfolding comma_loop.simps using Suc.prems
    by (intro parses_bind [OF Suc.prems(1)] parses_intros parses_weaken [OF Suc.IH]) auto
qed

lemma parses_bare_comma_loop:
  "(\<And>s r'. r' \<le> r \<Longrightarrow> parses s r' 1 I item) \<Longrightarrow> r \<le> n \<Longrightarrow> list_all I xs \<Longrightarrow> xs \<noteq> [] \<Longrightarrow>
   parses s r 0 (\<lambda>ys. ys \<noteq> [] \<and> list_all I ys) (bare_comma_loop n item xs)"
proof (induction n arbitrary: r s xs)
  case 0
  then show ?case by (simp add: parses_zero)
next
  case (Suc n)
  have item: "r' \<le> r \<Longrightarrow> parses s r' 1 I item" for s r' using Suc.prems(1) by simp
  show ?case unfolding bare_comma_loop.simps using Suc.prems(2-)
    by (intro parses_intros parses_bind [OF item] parses_weaken [OF Suc.IH] item) auto
qed

lemma parses_bounds: "4 * r \<le> n \<Longrightarrow> parses s r 0 (list_all bound_ok) (type_param_bounds n)"
  unfolding type_param_bounds_def
  by (intro parses_intros parses_bind [OF parses_comma_loop [where I = bound_ok]] parses_bind [OF parses_trait_bound] parses_trait_bound)
    auto

definition param_ok :: "TypeParam \<Rightarrow> bool" where
  "param_ok t \<longleftrightarrow> list_all bound_ok (param_bounds t)"

lemma parses_type_param: "4 * r \<le> n \<Longrightarrow> parses s r 1 param_ok (type_param n)"
proof -
  assume n: "4 * r \<le> n"
  have name: "parses s r 1 (\<lambda>_. True) identifier_spanned"
    unfolding identifier_spanned_def by (intro parses_intros) simp_all
  show ?thesis unfolding type_param_def using n
    by (intro parses_bind [OF name] parses_bind [OF parses_bounds] parses_intros) (auto simp: param_ok_def)
qed

lemma parses_type_params: "4 * r \<le> n \<Longrightarrow> parses s r 0 (list_all param_ok) (type_params n)"
  unfolding type_params_def
  by (intro parses_intros parses_bind [OF parses_comma_loop [where I = param_ok]] parses_type_param) auto

lemma parses_supertraits:
  "4 * r \<le> n \<Longrightarrow> parses s r 1 (\<lambda>bs. bs \<noteq> [] \<and> list_all (bound_ok \<circ> node) bs) (trait_supertrait_list_spanned n)"
  unfolding trait_supertrait_list_spanned_def
  by (intro parses_intros parses_bind [OF parses_comma_loop [where I = "bound_ok \<circ> node"]]
      parses_bind [OF parses_trait_bound_spanned]
      parses_weaken [OF parses_bare_comma_loop [where I = "bound_ok \<circ> node"]] parses_trait_bound_spanned) auto

section \<open>Parsing what the lexer produced\<close>

definition parser_new :: "Token list \<Rightarrow> Parser" where
  "parser_new ts =
     \<lparr>stream = ts, pos = 0, active_soft_keywords = [], active_imported_keyword_specs = \<lambda>_. None,
      vocab_block_stack = [], std_async_vocab_active = False, active_scoped_surface_descriptors = [],
      scoped_call_argument_stack = [], pending_dedent_blank_lines = 0\<rparr>"

definition type_fuel :: "Parser \<Rightarrow> nat" where
  "type_fuel p = 4 * remaining p + 4"

lemma lexed_cursor:
  assumes "lex pf src = Inr ts" and "stream p = ts" and "pos p < length ts"
  shows "cursor_ok p"
proof -
  obtain ys t where "fst (tokenize_tolerant pf (lexer_new src)) = ys @ [t]" "kind t = Eof"
    using tokenize_tolerant_stream [of pf src] by (metis append.assoc kind_token_new)
  moreover have "fst (tokenize_tolerant pf (lexer_new src)) = ts"
    using assms(1) by (auto simp: lex_def tokenize_def split: prod.splits if_splits)
  ultimately show ?thesis using assms(2,3) by (simp add: cursor_ok_def)
qed

text \<open>
  C8: the type parser is total.  On the tokens of any source text the lexer accepts, from any position
  and with whatever soft keywords active, reading a type expression, a type-parameter list or a list of
  supertraits returns: it neither indexes outside the stream nor runs on, it stays inside the stream,
  consumes at least one token where the grammar requires one, and either reports an error or yields a
  tree in which qualified paths are qualified, constraints have different keys and \<open>mut\<close> marks only
  parameters of function types.
\<close>

theorem type_parser_total:
  assumes "lex pf src = Inr ts" and "stream p = ts" and "pos p < length ts" and "type_fuel p \<le> n"
  shows "wp (type_expr n) (\<lambda>t q. moved p q \<and> pos p < pos q \<and> type_ok False (node t)) (\<lambda>e q. moved p q) p
    \<and> wp (type_params n) (\<lambda>params q. moved p q \<and> list_all param_ok params) (\<lambda>e q. moved p q) p
    \<and> wp (trait_supertrait_list_spanned n)
        (\<lambda>bs q. moved p q \<and> pos p < pos q \<and> bs \<noteq> [] \<and> list_all (bound_ok \<circ> node) bs) (\<lambda>e q. moved p q) p"
proof -
  have ok: "cursor_ok p" by (rule lexed_cursor [OF assms(1-3)])
  have n: "4 * remaining p + 4 \<le> n" using assms(4) by (simp add: type_fuel_def)
  have less: "moved p q \<Longrightarrow> remaining q + 1 \<le> remaining p \<Longrightarrow> pos p < pos q" for q
    unfolding moved_def remaining_def by (cases q; cases p) auto
  have expr: "parses (pos p) (remaining p) 1 well_formed (type_expr n)"
    using type_parser_contract [of "remaining p" n "pos p"] n by simp
  show ?thesis
    using parsesD [OF expr ok] parsesD [OF parses_type_params [of "remaining p" n "pos p"] ok]
      parsesD [OF parses_supertraits [of "remaining p" n "pos p"] ok] n
    by (auto elim!: wp_mono intro: less)
qed

theorem type_parser_total_witness:
  "\<exists>ts. lex (\<lambda>_. None) (lit ''a'') = Inr ts
    \<and> wp (type_expr (type_fuel (parser_new ts))) (\<lambda>t q. moved (parser_new ts) q \<and> pos (parser_new ts) < pos q \<and> type_ok False (node t))
        (\<lambda>e q. moved (parser_new ts) q) (parser_new ts)"
proof -
  have "case lex (\<lambda>_. None) (lit ''a'') of Inr ts \<Rightarrow> 0 < length ts | Inl _ \<Rightarrow> False" by code_simp
  then obtain ts where "lex (\<lambda>_. None) (lit ''a'') = Inr ts" "0 < length ts" by (auto split: sum.splits)
  then show ?thesis using type_parser_total [of "\<lambda>_. None" "lit ''a''" ts "parser_new ts"] by (auto simp: parser_new_def)
qed

end
