(* ===== verification/Type_Printing.thy ===== *)
theory Type_Printing
  imports Type_Parser Lexer_Roundtrip
begin

text \<open>
  The rendering of types: \<open>show_type\<close> (\<open>Display\<close> of \<open>ast/types.rs\<close>) and the lexer.  \<open>type_tokens\<close> are the tokens
  of the rendering with the blanks in front of them; \<open>faithful\<close> delimits the trees whose rendering denotes
  them again.  The unit type, tuples of one element and the placeholder \<open>_\<close> are not among them: they are
  rendered as \<open>Unit\<close>, \<open>(T)\<close> and \<open>_\<close>, which are a name, a grouped type and a name.  \<open>lex_show_type\<close>: the lexer
  reads the rendering of such a tree as exactly these tokens.
\<close>

section \<open>Tokens of a type\<close>

text \<open>The token a name is read as, and one more blank in front of the first token.\<close>

definition word_token :: "rstr \<Rightarrow> TokenKind" where
  "word_token s = (case from_str_hard_only s of Some k \<Rightarrow> Keyword k | None \<Rightarrow> Ident s)"

fun indented :: "placed list \<Rightarrow> placed list" where
  "indented [] = []"
| "indented ((b, k) # ks) = (Suc b, k) # ks"

fun comma_tokens :: "placed list list \<Rightarrow> placed list" where
  "comma_tokens [] = []"
| "comma_tokens [x] = x"
| "comma_tokens (x # xs) = x @ (0, punct PunctComma) # indented (comma_tokens xs)"

fun path_tokens :: "PunctuationId \<Rightarrow> rstr list \<Rightarrow> placed list" where
  "path_tokens sep [] = []"
| "path_tokens sep [x] = [(0, word_token x)]"
| "path_tokens sep (x # xs) = (0, word_token x) # (0, punct sep) # path_tokens sep xs"

definition decimal_literal :: "nat \<Rightarrow> IntLiteral" where
  "decimal_literal m = \<lparr>int_value = int_literal_value m, int_magnitude = m, int_repr = show_nat m, int_suffix = None\<rparr>"

definition literal_tokens :: "IntLiteral \<Rightarrow> placed list" where
  "literal_tokens v =
     (if v = decimal_literal (int_magnitude v) then [(0, IntTok v)]
      else [(0, Operator OpMinus), (0, IntTok (decimal_literal (int_magnitude v)))])"

definition constraint_tokens :: "TypeConstraint \<Rightarrow> placed list" where
  "constraint_tokens c =
     (0, Ident (constraint_as_str (constraint_key c))) # (0, Operator OpEq) # literal_tokens (constraint_value c)"

fun type_tokens :: "Type \<Rightarrow> placed list" where
  "type_tokens (TSimple name) = [(0, word_token name)]"
| "type_tokens (TQualified segments) = path_tokens PunctColonColon segments"
| "type_tokens (TDotted segments) = path_tokens PunctDot segments"
| "type_tokens (TGeneric name args) =
     (0, word_token name) # (0, punct PunctLBracket) # comma_tokens (map (\<lambda>a. type_tokens (node a)) args) @ [(0, punct PunctRBracket)]"
| "type_tokens (TDottedGeneric segments args) =
     path_tokens PunctDot segments @ (0, punct PunctLBracket) # comma_tokens (map (\<lambda>a. type_tokens (node a)) args)
       @ [(0, punct PunctRBracket)]"
| "type_tokens (TConstrained name cs) =
     (0, word_token name) # (0, punct PunctLBracket) # comma_tokens (map (\<lambda>c. constraint_tokens (node c)) cs) @ [(0, punct PunctRBracket)]"
| "type_tokens (TIntLiteral v) = [(0, IntTok v)]"
| "type_tokens (TFunction params ret) =
     (0, punct PunctLParen) # comma_tokens (map (\<lambda>a. type_tokens (node a)) params)
       @ (0, punct PunctRParen) # (1, punct PunctArrow) # indented (type_tokens (node ret))"
| "type_tokens (TRef t) = (0, Operator OpAmp) # type_tokens (node t)"
| "type_tokens (TRefMut t) = (0, Operator OpAmp) # (0, Keyword KwMut) # indented (type_tokens (node t))"
| "type_tokens (TMutParam t) = (0, Keyword KwMut) # indented (type_tokens (node t))"
| "type_tokens TUnit = [(0, word_token (lit ''Unit''))]"
| "type_tokens (TTuple ts) =
     (0, punct PunctLParen) # comma_tokens (map (\<lambda>a. type_tokens (node a)) ts) @ [(0, punct PunctRParen)]"
| "type_tokens TSelfType = [(0, Ident (lit ''Self''))]"
| "type_tokens TInfer = [(0, word_token (lit ''_''))]"

text \<open>
  A word is a name the lexer reads back: a non-empty run of identifier characters that is no keyword, or
  a keyword in its canonical spelling.  A type name is a word that is no keyword.
\<close>

definition word_ok :: "rstr \<Rightarrow> bool" where
  "word_ok s \<longleftrightarrow> s \<noteq> [] \<and> is_ident_start (hd s) \<and> list_all is_ident_continue s
     \<and> (case from_str_hard_only s of Some k \<Rightarrow> keyword_as_str k = s | None \<Rightarrow> True)"

definition name_ok :: "rstr \<Rightarrow> bool" where
  "name_ok s \<longleftrightarrow> word_ok s \<and> from_str_hard_only s = None \<and> s \<noteq> lit ''Self''"

definition path_ok :: "rstr list \<Rightarrow> bool" where
  "path_ok path \<longleftrightarrow> 2 \<le> length path \<and> name_ok (hd path) \<and> list_all word_ok path"

definition literal_ok :: "IntLiteral \<Rightarrow> bool" where
  "literal_ok v \<longleftrightarrow> v = decimal_literal (int_magnitude v) \<and> int_magnitude v < 2 ^ 128"

text \<open>A constraint value: a literal, or the negation of one.\<close>

definition value_ok :: "IntLiteral \<Rightarrow> bool" where
  "value_ok v \<longleftrightarrow> int_magnitude v < 2 ^ 128
     \<and> (v = decimal_literal (int_magnitude v) \<or> negated_literal (decimal_literal (int_magnitude v)) = Some v)"

fun faithful :: "bool \<Rightarrow> Type \<Rightarrow> bool" where
  "faithful b (TSimple name) = (name_ok name \<or> name = lit ''None'')"
| "faithful b (TQualified path) = path_ok path"
| "faithful b (TDotted path) = path_ok path"
| "faithful b (TGeneric name args) =
     (name_ok name \<and> \<not> is_constrainable_primitive_type name \<and> name \<noteq> lit ''Callable'' \<and> list_all (\<lambda>a. faithful False (node a)) args)"
| "faithful b (TDottedGeneric path args) =
     (path_ok path \<and> hd path \<noteq> lit ''Callable'' \<and> list_all (\<lambda>a. faithful False (node a)) args)"
| "faithful b (TConstrained name cs) =
     (is_constrainable_primitive_type name \<and> cs \<noteq> [] \<and> constraints_ok cs \<and> list_all (\<lambda>c. value_ok (constraint_value (node c))) cs)"
| "faithful b (TIntLiteral v) = literal_ok v"
| "faithful b (TFunction params ret) = (list_all (\<lambda>a. faithful True (node a)) params \<and> faithful False (node ret))"
| "faithful b (TRef t) = faithful False (node t)"
| "faithful b (TRefMut t) = faithful False (node t)"
| "faithful b (TMutParam t) = (b \<and> faithful False (node t))"
| "faithful b TUnit = False"
| "faithful b (TTuple ts) = (2 \<le> length ts \<and> list_all (\<lambda>a. faithful False (node a)) ts)"
| "faithful b TSelfType = True"
| "faithful b TInfer = False"

section \<open>The rendering is those tokens\<close>

lemma spell_append [simp]: "spell (xs @ ys) = spell xs @ spell ys"
  by (simp add: spell_def)

lemma spell_indented: "ks \<noteq> [] \<Longrightarrow> spell (indented ks) = 32 # spell ks"
  by (cases ks rule: indented.cases) simp_all

lemma lexeme_word [simp]: "word_ok s \<Longrightarrow> lexeme (word_token s) = s"
  by (auto simp: word_ok_def word_token_def split: option.splits)

lemma comma_tokens_nonempty: "xs \<noteq> [] \<Longrightarrow> \<forall>x\<in>set xs. x \<noteq> [] \<Longrightarrow> comma_tokens xs \<noteq> []"
  by (cases xs rule: comma_tokens.cases) auto

lemma mut_lexeme: "keyword_as_str KwMut = [109, 117, 116]"
  by code_simp

lemmas lexemes [simp] = punctuation_lexemes operator_lexemes mut_lexeme

lemma spell_comma_tokens:
  "\<forall>x\<in>set xs. x \<noteq> [] \<Longrightarrow> spell (comma_tokens xs) = separated (lit '', '') (map spell xs)"
proof (induction xs rule: comma_tokens.induct)
  case (3 x y xs)
  then have "comma_tokens (y # xs) \<noteq> []" by (intro comma_tokens_nonempty) auto
  then show ?case using 3 by (simp add: spell_indented)
qed simp_all

lemma spell_path_tokens:
  "list_all word_ok path \<Longrightarrow> spell (path_tokens sep path) = separated (lexeme (punct sep)) path"
  by (induction sep path rule: path_tokens.induct) simp_all

lemma path_tokens_nonempty: "path \<noteq> [] \<Longrightarrow> path_tokens sep path \<noteq> []"
  by (cases path; cases "tl path") auto

lemma type_tokens_nonempty: "faithful b t \<Longrightarrow> type_tokens t \<noteq> []"
  by (cases t) (auto simp: path_ok_def intro!: path_tokens_nonempty)

lemma lookups:
  "from_str_hard_only (lit ''None'') = Some KwNone" "from_str_hard_only (lit ''int'') = None"
  "from_str_hard_only (lit ''float'') = None" "from_str_hard_only (lit ''Self'') = None"
  "keyword_as_str KwNone = lit ''None''"
  by code_simp+

lemmas character_classes = is_ident_start_def is_ident_continue_def is_ascii_alphanumeric_def is_ascii_alphabetic_def is_ascii_digit_def

lemma special_words: "word_ok (lit ''None'')" "word_ok (lit ''int'')" "word_ok (lit ''float'')" "printable (Ident (lit ''Self''))"
  using lookups by (simp_all add: word_ok_def character_classes)

lemmas none_word = special_words(1) lookups(1)

lemma constrainable_word:
  "is_constrainable_primitive_type s \<Longrightarrow> word_ok s \<and> from_str_hard_only s = None \<and> s \<noteq> lit ''Self''"
  using special_words lookups by (auto simp: is_constrainable_primitive_type_def simp del: lit_def) (simp_all add: lit_def)

lemma negated_repr: "negated_literal w = Some v \<Longrightarrow> int_repr v = 45 # int_repr w"
  by (auto simp: negated_literal_def split: if_splits)

lemma repr_decimal_literal [simp]: "int_repr (decimal_literal m) = show_nat m"
  by (simp add: decimal_literal_def)

lemma spell_literal: "value_ok v \<Longrightarrow> spell (literal_tokens v) = int_repr v"
  by (auto simp: value_ok_def literal_tokens_def dest: negated_repr)

lemma spell_constraint: "value_ok (constraint_value c) \<Longrightarrow> spell (constraint_tokens c) = show_constraint c"
  by (simp add: constraint_tokens_def show_constraint_def spell_literal)

lemma spell_items:
  assumes "\<And>a. a \<in> set xs \<Longrightarrow> f a \<noteq> []" and "\<And>a. a \<in> set xs \<Longrightarrow> spell (f a) = g a"
  shows "spell (comma_tokens (map f xs)) = separated [44, 32] (map g xs)"
  using spell_comma_tokens [of "map f xs"] assms by (auto simp: comp_def cong: map_cong)

lemma show_type_tokens: "faithful b t \<Longrightarrow> spell (type_tokens t) = show_type t"
proof (induction b t rule: faithful.induct)
  case (1 b name)
  then show ?case using none_word(1) by (auto simp: name_ok_def simp del: lit_def)
next
  case (4 b name args)
  then have "spell (comma_tokens (map (\<lambda>a. type_tokens (node a)) args)) = separated [44, 32] (map (\<lambda>a. show_type (node a)) args)"
    by (intro spell_items) (auto simp: list_all_iff dest: type_tokens_nonempty)
  then show ?case using 4 by (simp add: name_ok_def)
next
  case (5 b path args)
  then have "spell (comma_tokens (map (\<lambda>a. type_tokens (node a)) args)) = separated [44, 32] (map (\<lambda>a. show_type (node a)) args)"
    by (intro spell_items) (auto simp: list_all_iff dest: type_tokens_nonempty)
  then show ?case using 5 by (simp add: path_ok_def spell_path_tokens)
next
  case (6 b name cs)
  then have "spell (comma_tokens (map (\<lambda>c. constraint_tokens (node c)) cs)) = separated [44, 32] (map (\<lambda>c. show_constraint (node c)) cs)"
    by (intro spell_items) (auto simp: list_all_iff spell_constraint, simp add: constraint_tokens_def)
  then show ?case using 6 constrainable_word by simp
next
  case (8 b params ret)
  then have "spell (comma_tokens (map (\<lambda>a. type_tokens (node a)) params)) = separated [44, 32] (map (\<lambda>a. show_type (node a)) params)"
    by (intro spell_items) (auto simp: list_all_iff dest: type_tokens_nonempty)
  then show ?case using 8 by (auto simp: spell_indented dest: type_tokens_nonempty)
next
  case (13 b ts)
  then have "spell (comma_tokens (map (\<lambda>a. type_tokens (node a)) ts)) = separated [44, 32] (map (\<lambda>a. show_type (node a)) ts)"
    by (intro spell_items) (auto simp: list_all_iff dest: type_tokens_nonempty)
  then show ?case using 13 by simp
qed (auto simp: path_ok_def spell_path_tokens spell_indented literal_ok_def dest: type_tokens_nonempty)

section \<open>No spelling runs into the next\<close>

fun spaced :: "placed list \<Rightarrow> rstr \<Rightarrow> bool" where
  "spaced [] r = True"
| "spaced ((b, k) # ks) r = (separates k (spell ks @ r) \<and> spaced ks r)"

lemma spaced_append [simp]: "spaced (xs @ ys) r \<longleftrightarrow> spaced xs (spell ys @ r) \<and> spaced ys r"
proof (induction xs)
  case (Cons x xs)
  then show ?case by (cases x) auto
qed simp

lemma spaced_well: "spaced ks [] \<Longrightarrow> well_spaced ks"
  by (induction ks rule: well_spaced.induct) auto

lemma spaced_indented [simp]: "spaced (indented ks) r = spaced ks r"
  by (cases ks rule: indented.cases) simp_all

text \<open>What follows a type inside another one, or at its end.\<close>

definition ends_type :: "rstr \<Rightarrow> bool" where
  "ends_type r \<longleftrightarrow> r = [] \<or> hd r = 44 \<or> hd r = 93 \<or> hd r = 41"

lemma separates_punct [simp]:
  "separates (punct PunctComma) r" "separates (punct PunctLParen) r" "separates (punct PunctRParen) r"
  "separates (punct PunctLBracket) r" "separates (punct PunctRBracket) r" "separates (punct PunctColonColon) r"
  "separates (punct PunctArrow) r"
  by (cases r; simp)+

lemma separates_word [simp]:
  "r = [] \<or> hd r \<in> {32, 40, 41, 44, 46, 58, 61, 91, 93} \<Longrightarrow> separates (word_token s) r"
  "r = [] \<or> hd r \<in> {32, 40, 41, 44, 46, 58, 61, 91, 93} \<Longrightarrow> separates (Ident s) r"
  "r = [] \<or> hd r \<in> {32, 40, 41, 44, 46, 58, 61, 91, 93} \<Longrightarrow> separates (Keyword i) r"
  by (cases r; auto simp: word_token_def is_ident_continue_def is_ascii_alphanumeric_def is_ascii_alphabetic_def
      is_ascii_digit_def split: option.split)+

lemma separates_symbol [simp]:
  "r = [] \<or> hd r \<notin> {42, 46, 47, 58, 60, 61, 62, 124} \<Longrightarrow> separates (Operator oi) r"
  "r = [] \<or> hd r \<notin> {42, 46, 47, 58, 60, 61, 62, 124} \<Longrightarrow> separates (punct PunctDot) r"
  by (cases r; auto)+

lemma separates_int [simp]: "r = [] \<or> hd r \<in> {41, 44, 93} \<Longrightarrow> separates (IntTok v) r"
  by (cases r) (auto simp: is_ident_continue_def is_ascii_alphanumeric_def is_ascii_alphabetic_def is_ascii_digit_def)

declare separates.simps(2) [simp del]

lemma word_start: "word_ok s \<Longrightarrow> s \<noteq> [] \<and> is_ident_start (hd s)"
  by (simp add: word_ok_def)

lemma ident_start_plain: "is_ident_start c \<Longrightarrow> c \<notin> {42, 46, 47, 58, 60, 61, 62, 124}"
  by (auto simp: is_ident_start_def is_ascii_alphabetic_def)

lemma digits_plain: "hd (show_nat m) \<notin> {42, 45, 46, 47, 58, 60, 61, 62, 124}"
  using show_nat_digits [of m] show_nat_nonempty [of m] by (cases "show_nat m") (auto simp: is_ascii_digit_def)

lemma path_first: "path_ok path \<Longrightarrow> \<exists>ks. path_tokens sep path = (0, word_token (hd path)) # ks"
  by (cases path; cases "tl path") (auto simp: path_ok_def)

lemma type_first_char:
  assumes "faithful b t"
  shows "hd (spell (type_tokens t) @ r) \<notin> {42, 46, 47, 58, 60, 61, 62, 124}"
proof (cases t)
  case (TSimple n)
  then show ?thesis using assms word_start [of n] ident_start_plain none_word(1) word_start [OF none_word(1)]
    by (auto simp: name_ok_def simp del: lit_def)
next
  case (TQualified path)
  then show ?thesis using assms path_first [of path PunctColonColon] word_start ident_start_plain
    by (fastforce simp: path_ok_def name_ok_def)
next
  case (TDotted path)
  then show ?thesis using assms path_first [of path PunctDot] word_start ident_start_plain
    by (fastforce simp: path_ok_def name_ok_def)
next
  case (TGeneric n args)
  then show ?thesis using assms word_start [of n] ident_start_plain by (auto simp: name_ok_def)
next
  case (TDottedGeneric path args)
  then show ?thesis using assms path_first [of path PunctDot] word_start ident_start_plain
    by (fastforce simp: path_ok_def name_ok_def)
next
  case (TConstrained n cs)
  then show ?thesis using assms constrainable_word [of n] word_start [of n] ident_start_plain by auto
next
  case (TIntLiteral v)
  then have "int_repr v = show_nat (int_magnitude v)" using assms by (simp add: literal_ok_def) (metis repr_decimal_literal)
  then show ?thesis using TIntLiteral digits_plain [of "int_magnitude v"] show_nat_nonempty [of "int_magnitude v"] by simp
qed (use assms in auto)

lemma spaced_comma:
  "\<forall>x\<in>set xs. x \<noteq> [] \<and> (\<forall>q. ends_type q \<longrightarrow> spaced x q) \<Longrightarrow> ends_type r \<Longrightarrow> spaced (comma_tokens xs) r"
  by (induction xs rule: comma_tokens.induct) (auto simp: ends_type_def)

lemma spaced_path:
  assumes "sep = PunctDot \<or> sep = PunctColonColon" and "list_all word_ok path" and "r = [] \<or> hd r \<in> {41, 44, 91, 93}"
  shows "spaced (path_tokens sep path) r"
  using assms(1,2)
proof (induction sep path rule: path_tokens.induct)
  case (2 sep x)
  then show ?case using assms(3) by auto
next
  case (3 sep x y xs)
  obtain ks where "path_tokens sep (y # xs) = (0, word_token y) # ks" by (cases xs) auto
  moreover have "y \<noteq> []" "hd y \<notin> {42, 46, 47, 58, 60, 61, 62, 124}"
    using 3(3) word_start [of y] ident_start_plain [of "hd y"] by simp_all
  moreover have "spaced (path_tokens sep (y # xs)) r" using 3 by simp
  ultimately show ?case using 3(2,3) by auto
qed simp

lemma spaced_constraint: "value_ok (constraint_value c) \<Longrightarrow> ends_type r \<Longrightarrow> spaced (constraint_tokens c) r"
  using digits_plain [of "int_magnitude (constraint_value c)"] show_nat_nonempty [of "int_magnitude (constraint_value c)"]
  by (auto simp: constraint_tokens_def literal_tokens_def value_ok_def ends_type_def dest!: arg_cong [where f = int_repr])

lemma spaced_type: "faithful b t \<Longrightarrow> ends_type r \<Longrightarrow> spaced (type_tokens t) r"
proof (induction b t arbitrary: r rule: faithful.induct)
  case (4 b name args)
  then have "spaced (comma_tokens (map (\<lambda>a. type_tokens (node a)) args)) (93 # r)"
    by (intro spaced_comma) (auto simp: list_all_iff ends_type_def dest: type_tokens_nonempty)
  then show ?case by simp
next
  case (5 b path args)
  then have "spaced (comma_tokens (map (\<lambda>a. type_tokens (node a)) args)) (93 # r)"
    by (intro spaced_comma) (auto simp: list_all_iff ends_type_def dest: type_tokens_nonempty)
  then show ?case using 5 by (simp add: spaced_path path_ok_def)
next
  case (6 b name cs)
  then have "spaced (comma_tokens (map (\<lambda>c. constraint_tokens (node c)) cs)) (93 # r)"
    by (intro spaced_comma) (auto simp: list_all_iff ends_type_def spaced_constraint, simp_all add: constraint_tokens_def)
  then show ?case by simp
next
  case (8 b params ret)
  then have "spaced (comma_tokens (map (\<lambda>a. type_tokens (node a)) params)) (41 # q)" for q
    by (intro spaced_comma) (auto simp: list_all_iff ends_type_def dest: type_tokens_nonempty)
  then show ?case using 8 by simp
next
  case (13 b ts)
  then have "spaced (comma_tokens (map (\<lambda>a. type_tokens (node a)) ts)) (41 # r)"
    by (intro spaced_comma) (auto simp: list_all_iff ends_type_def dest: type_tokens_nonempty)
  then show ?case by simp
next
  case (9 b t)
  then show ?case using type_first_char [of False "node t" r] by simp
next
  case (10 b t)
  then show ?case using type_tokens_nonempty [of False "node t"] by (simp add: spell_indented)
next
  case (11 b t)
  then show ?case using type_tokens_nonempty [of False "node t"] by (simp add: spell_indented)
qed (auto simp: path_ok_def ends_type_def intro!: spaced_path)

section \<open>Printable and balanced\<close>

definition balanced :: "placed list \<Rightarrow> bool" where
  "balanced xs \<longleftrightarrow> list_all (printable \<circ> snd) xs \<and> (\<forall>d ks. closes_opened d (map snd xs @ ks) = closes_opened d ks)"

lemma balanced_append: "balanced xs \<Longrightarrow> balanced ys \<Longrightarrow> balanced (xs @ ys)"
  by (simp add: balanced_def)

lemma balanced_plain: "printable k \<Longrightarrow> \<not> is_open k \<Longrightarrow> \<not> is_close k \<Longrightarrow> balanced xs \<Longrightarrow> balanced ((b, k) # xs)"
  by (simp add: balanced_def bracket_step_def is_open_def is_close_def)

lemma balanced_Nil [simp]: "balanced []"
  by (simp add: balanced_def)

lemma balanced_brackets:
  assumes "(opening, closing) \<in> {(PunctLBracket, PunctRBracket), (PunctLParen, PunctRParen)}" and "balanced xs" and "balanced ys"
  shows "balanced ((b, punct opening) # xs @ (d, punct closing) # ys)"
  using assms by (auto simp: balanced_def bracket_step_def is_open_def is_close_def)

lemma balanced_indented [simp]: "balanced (indented xs) = balanced xs"
  by (cases xs rule: indented.cases) (simp_all add: balanced_def)

lemma word_printable: "word_ok s \<Longrightarrow> printable (word_token s) \<and> \<not> is_open (word_token s) \<and> \<not> is_close (word_token s)"
  by (auto simp: word_ok_def word_token_def is_open_def is_close_def from_str_hard_only_def split: option.splits if_splits)

lemma plain_tokens:
  "printable (punct i)" "\<not> is_open (Operator oi)" "\<not> is_close (Operator oi)" "\<not> is_open (Keyword ki)" "\<not> is_close (Keyword ki)"
  "\<not> is_open (IntTok v)" "\<not> is_close (IntTok v)" "\<not> is_open (Ident w)" "\<not> is_close (Ident w)"
  "printable (Operator OpAmp)" "printable (Operator OpEq)" "printable (Operator OpMinus)" "printable (Keyword KwMut)"
  by (simp_all add: is_open_def is_close_def) code_simp+

lemma comma_plain: "\<not> is_open (punct PunctComma)" "\<not> is_close (punct PunctComma)" "\<not> is_open (punct PunctDot)" "\<not> is_close (punct PunctDot)"
  "\<not> is_open (punct PunctColonColon)" "\<not> is_close (punct PunctColonColon)" "\<not> is_open (punct PunctArrow)" "\<not> is_close (punct PunctArrow)"
  by (simp_all add: is_open_def is_close_def)

lemma balanced_comma: "\<forall>x\<in>set xs. balanced x \<Longrightarrow> balanced (comma_tokens xs)"
  by (induction xs rule: comma_tokens.induct) (auto intro!: balanced_append balanced_plain simp: plain_tokens comma_plain)

lemma balanced_path: "sep = PunctDot \<or> sep = PunctColonColon \<Longrightarrow> list_all word_ok path \<Longrightarrow> balanced (path_tokens sep path)"
  by (induction sep path rule: path_tokens.induct) (auto intro!: balanced_plain simp: word_printable plain_tokens comma_plain)

lemma literal_printable: "m < 2 ^ 128 \<Longrightarrow> printable (IntTok (decimal_literal m))"
  by (simp add: int_token_def decimal_literal_def)

lemma balanced_constraint:
  assumes "value_ok (constraint_value c)"
  shows "balanced (constraint_tokens c)"
proof -
  let ?m = "int_magnitude (constraint_value c)"
  have "printable (IntTok (decimal_literal ?m))" using assms by (intro literal_printable) (simp add: value_ok_def)
  moreover have "printable (Ident (constraint_as_str (constraint_key c)))" by (cases "constraint_key c"; simp only:; code_simp)
  ultimately show ?thesis
    by (auto simp: constraint_tokens_def literal_tokens_def plain_tokens simp del: printable.simps intro!: balanced_plain)
qed

lemma balanced_type: "faithful b t \<Longrightarrow> balanced (type_tokens t)"
proof (induction b t rule: faithful.induct)
  case (1 b name)
  then show ?case using none_word(1) by (auto simp: name_ok_def word_printable simp del: lit_def intro!: balanced_plain)
next
  case (4 b name args)
  then have "balanced (comma_tokens (map (\<lambda>a. type_tokens (node a)) args))" by (intro balanced_comma) (auto simp: list_all_iff)
  then show ?case using 4 by (auto simp: name_ok_def word_printable intro!: balanced_plain balanced_brackets)
next
  case (5 b path args)
  then have "balanced (comma_tokens (map (\<lambda>a. type_tokens (node a)) args))" by (intro balanced_comma) (auto simp: list_all_iff)
  then show ?case using 5 by (auto simp: path_ok_def intro!: balanced_append balanced_path balanced_brackets)
next
  case (6 b name cs)
  then have "balanced (comma_tokens (map (\<lambda>c. constraint_tokens (node c)) cs))"
    by (intro balanced_comma) (auto simp: list_all_iff balanced_constraint)
  then show ?case using 6 constrainable_word [of name] by (auto simp: word_printable intro!: balanced_plain balanced_brackets)
next
  case (7 b v)
  then have "v = decimal_literal (int_magnitude v)" "int_magnitude v < 2 ^ 128" by (simp_all add: literal_ok_def)
  then show ?case using literal_printable [of "int_magnitude v"] by (auto simp: plain_tokens simp del: printable.simps intro!: balanced_plain)
next
  case (8 b params ret)
  then have "balanced (comma_tokens (map (\<lambda>a. type_tokens (node a)) params))" by (intro balanced_comma) (auto simp: list_all_iff)
  then show ?case using 8 by (auto simp: plain_tokens comma_plain simp del: printable.simps intro!: balanced_plain balanced_brackets)
next
  case (13 b ts)
  then have "balanced (comma_tokens (map (\<lambda>a. type_tokens (node a)) ts))" by (intro balanced_comma) (auto simp: list_all_iff)
  then show ?case by (auto intro!: balanced_brackets)
next
  case (14 b)
  then show ?case using special_words(4) by (simp add: plain_tokens balanced_plain)
qed (auto simp: path_ok_def plain_tokens simp del: printable.simps intro!: balanced_path balanced_plain)

text \<open>The lexer reads a rendered type as its tokens.\<close>

lemma path_first_blank: "path_ok path \<Longrightarrow> fst (hd (path_tokens sep path @ ks)) = 0"
  using path_first [of path sep] by auto

lemma type_first_blank: "faithful b t \<Longrightarrow> fst (hd (type_tokens t)) = 0"
  using path_first_blank [where ks = "[]"] by (cases t) (auto simp: path_first_blank)

lemma lex_show_type:
  assumes "faithful False t"
  shows "\<exists>ts. lex pf (show_type t) = Inr ts \<and> map kind ts = map snd (type_tokens t) @ [Eof]"
proof -
  have "closes_opened 0 (map snd (type_tokens t))"
    using balanced_type [OF assms] unfolding balanced_def by (metis append.right_neutral closes_opened.simps(1))
  then have "\<exists>ts. lex pf (spell (type_tokens t)) = Inr ts \<and> map kind ts = map snd (type_tokens t) @ [Eof]"
    using balanced_type [OF assms] spaced_type [OF assms, of "[]"] type_first_blank [OF assms]
    by (intro lex_spelled) (auto simp: balanced_def ends_type_def spaced_well)
  then show ?thesis using show_type_tokens [OF assms] by simp
qed

end
