(* ===== verification/Token_Reading.thy ===== *)
theory Token_Reading
  imports Type_Printing
begin

text \<open>
  What a parsing action makes of a given token sequence.  \<open>reads\<close> is the contract of an action that succeeds
  on a token sequence, with one rule per cursor helper; the round trips of types and of operator
  expressions follow the parser's methods with these rules.
\<close>

section \<open>Reading tokens back\<close>

text \<open>A cursor in front of the given tokens, with no library syntax active.\<close>

definition at_tokens :: "Parser \<Rightarrow> TokenKind list \<Rightarrow> bool" where
  "at_tokens p ks \<longleftrightarrow>
     cursor_ok p \<and> map kind (drop (pos p) (stream p)) = ks \<and> active_scoped_surface_descriptors p = []"

text \<open>
  From a cursor at position \<open>s\<close> or later and in front of \<open>ks\<close>, the action succeeds with a result in \<open>Q\<close> and
  leaves the cursor in front of \<open>ks'\<close>.
\<close>

definition reads :: "nat \<Rightarrow> ('a \<Rightarrow> bool) \<Rightarrow> 'a parse \<Rightarrow> TokenKind list \<Rightarrow> TokenKind list \<Rightarrow> bool" where
  "reads s Q m ks ks' \<longleftrightarrow>
     (\<forall>p. at_tokens p ks \<and> s \<le> pos p \<longrightarrow>
        wp m (\<lambda>a q. Q a \<and> at_tokens q ks' \<and> pos p + (length ks - length ks') \<le> pos q) (\<lambda>_ _. False) p)"

named_theorems reads_intros "how actions read a given token sequence"

lemma drop_cursor: "cursor_ok p \<Longrightarrow> drop (pos p) (stream p) = stream p ! pos p # drop (Suc (pos p)) (stream p)"
  by (simp add: cursor_ok_def Cons_nth_drop_Suc)

lemma at_tokens_peek: "at_tokens p (k # ks) \<Longrightarrow> cursor_ok p \<and> peek_kind p = k"
  by (auto simp: at_tokens_def peek_kind_def drop_cursor)

lemma at_tokens_forward: "at_tokens p (k # ks) \<Longrightarrow> k \<noteq> Eof \<Longrightarrow> at_tokens (forward p) ks \<and> pos (forward p) = Suc (pos p)"
  using cursor_ok_forward [of p] by (auto simp: at_tokens_def drop_cursor peek_kind_def forward_def)

lemma readsI:
  "(\<And>p. at_tokens p ks \<Longrightarrow> s \<le> pos p \<Longrightarrow>
      wp m (\<lambda>a q. Q a \<and> at_tokens q ks' \<and> pos p + (length ks - length ks') \<le> pos q) (\<lambda>_ _. False) p) \<Longrightarrow> reads s Q m ks ks'"
  by (simp add: reads_def)

lemma readsD:
  "reads s Q m ks ks' \<Longrightarrow> at_tokens p ks \<Longrightarrow> s \<le> pos p \<Longrightarrow>
   wp m (\<lambda>a q. Q a \<and> at_tokens q ks' \<and> pos p + (length ks - length ks') \<le> pos q) (\<lambda>_ _. False) p"
  by (simp add: reads_def)

lemma reads_bind:
  assumes "reads s P m ks ks1" and "\<And>a. P a \<Longrightarrow> reads (s + (length ks - length ks1)) Q (f a) ks1 ks2"
  shows "reads s Q (pbind m f) ks ks2"
proof (rule readsI)
  fix p assume p: "at_tokens p ks" "s \<le> pos p"
  let ?R = "\<lambda>a t. Q a \<and> at_tokens t ks2 \<and> pos p + (length ks - length ks2) \<le> pos t"
  from readsD [OF assms(1) p] have "wp m (\<lambda>a q. wp (f a) ?R (\<lambda>_ _. False) q) (\<lambda>_ _. False) p"
  proof (rule wp_mono)
    fix a q assume q: "P a \<and> at_tokens q ks1 \<and> pos p + (length ks - length ks1) \<le> pos q"
    then have "reads (s + (length ks - length ks1)) Q (f a) ks1 ks2" using assms(2) by blast
    from readsD [OF this] show "wp (f a) ?R (\<lambda>_ _. False) q"
      by (rule wp_mono) (use q p(2) in auto)
  qed simp
  then show "wp (pbind m f) ?R (\<lambda>_ _. False) p" by simp
qed

lemma reads_weaken: "reads s P m ks ks' \<Longrightarrow> (\<And>a. P a \<Longrightarrow> Q a) \<Longrightarrow> reads s Q m ks ks'"
  unfolding reads_def by (blast intro: wp_mono)

lemma reads_look:
  assumes "\<And>p. at_tokens p ks \<Longrightarrow> s \<le> pos p \<Longrightarrow> \<exists>a. P a \<and> (\<forall>Q E. wp m Q E p = Q a p)"
    and "\<And>a. P a \<Longrightarrow> reads s Q (f a) ks ks2"
  shows "reads s Q (pbind m f) ks ks2"
proof (rule readsI)
  fix p assume p: "at_tokens p ks" "s \<le> pos p"
  let ?R = "\<lambda>a q. Q a \<and> at_tokens q ks2 \<and> pos p + (length ks - length ks2) \<le> pos q"
  obtain a where a: "P a" and m: "\<forall>Q E. wp m Q E p = Q a p" using assms(1) [OF p] by blast
  show "wp (pbind m f) ?R (\<lambda>_ _. False) p"
    using readsD [OF assms(2) [OF a] p] by (simp add: m)
qed

lemma reads_step:
  assumes "k \<noteq> Eof" and "\<And>p. at_tokens p (k # ks) \<Longrightarrow> \<exists>a. P a \<and> (\<forall>Q E. wp m Q E p = Q a (forward p))"
    and "\<And>a. P a \<Longrightarrow> reads (Suc s) Q (f a) ks ks2"
  shows "reads s Q (pbind m f) (k # ks) ks2"
proof (rule readsI)
  fix p assume p: "at_tokens p (k # ks)" "s \<le> pos p"
  let ?R = "\<lambda>a q. Q a \<and> at_tokens q ks2 \<and> pos p + (length (k # ks) - length ks2) \<le> pos q"
  obtain a where a: "P a" and m: "\<forall>Q E. wp m Q E p = Q a (forward p)" using assms(2) [OF p(1)] by blast
  have fwd: "at_tokens (forward p) ks" "pos (forward p) = Suc (pos p)" using at_tokens_forward [OF p(1) assms(1)] by simp_all
  have "reads (Suc s) Q (f a) ks ks2" by (rule assms(3) [OF a])
  from readsD [OF this fwd(1)] have "wp (f a) ?R (\<lambda>_ _. False) (forward p)"
    by (rule wp_mono) (use fwd p(2) in auto)
  then show "wp (pbind m f) ?R (\<lambda>_ _. False) p" by (simp add: m)
qed

lemma reads_step_value:
  assumes "k \<noteq> Eof" and "\<And>p Q E. at_tokens p (k # ks) \<Longrightarrow> wp m Q E p = Q a (forward p)" and "reads (Suc s) Q (f a) ks ks2"
  shows "reads s Q (pbind m f) (k # ks) ks2"
proof (rule reads_step [OF assms(1)])
  show "\<exists>x. x = a \<and> (\<forall>Q E. wp m Q E p = Q x (forward p))" if "at_tokens p (k # ks)" for p
    using assms(2) [OF that] by simp
  show "reads (Suc s) Q (f x) ks ks2" if "x = a" for x using assms(3) that by simp
qed

lemma reads_look_value:
  assumes "\<And>p Q E. at_tokens p ks \<Longrightarrow> wp m Q E p = Q a p" and "reads s Q (f a) ks ks2"
  shows "reads s Q (pbind m f) ks ks2"
proof (rule reads_look)
  show "\<exists>x. x = a \<and> (\<forall>Q E. wp m Q E p = Q x p)" if "at_tokens p ks" for p
    using assms(1) [OF that] by simp
  show "reads s Q (f x) ks ks2" if "x = a" for x using assms(2) that by simp
qed

text \<open>The tests of the cursor, on the token in front of them.\<close>

lemma reads_match_token [reads_intros]:
  assumes "\<not> check_kind k Eof" and "check_kind k t \<Longrightarrow> reads (Suc s) Q (f True) ks ks2" and "\<not> check_kind k t \<Longrightarrow> reads s Q (f False) (t # ks) ks2"
  shows "reads s Q (pbind (match_token k) f) (t # ks) ks2"
proof (cases "check_kind k t")
  case True
  show ?thesis
    by (rule reads_step_value [where a = True]) (use assms True at_tokens_peek in \<open>auto\<close>)
next
  case False
  show ?thesis
    by (rule reads_look_value [where a = False]) (use assms False at_tokens_peek in \<open>auto\<close>)
qed

lemma reads_match_punct [reads_intros]:
  assumes "t = punct i \<Longrightarrow> reads (Suc s) Q (f True) ks ks2" and "t \<noteq> punct i \<Longrightarrow> reads s Q (f False) (t # ks) ks2"
  shows "reads s Q (pbind (match_punct i) f) (t # ks) ks2"
proof (cases "t = punct i")
  case True
  show ?thesis
    by (rule reads_step_value [where a = True]) (use assms True at_tokens_peek in \<open>auto\<close>)
next
  case False
  show ?thesis
    by (rule reads_look_value [where a = False]) (use assms False at_tokens_peek in \<open>auto\<close>)
qed

lemma reads_match_op [reads_intros]:
  assumes "t = Operator i \<Longrightarrow> reads (Suc s) Q (f True) ks ks2" and "t \<noteq> Operator i \<Longrightarrow> reads s Q (f False) (t # ks) ks2"
  shows "reads s Q (pbind (match_op i) f) (t # ks) ks2"
proof (cases "t = Operator i")
  case True
  show ?thesis
    by (rule reads_step_value [where a = True]) (use assms True at_tokens_peek in \<open>auto\<close>)
next
  case False
  show ?thesis
    by (rule reads_look_value [where a = False]) (use assms False at_tokens_peek in \<open>auto\<close>)
qed

lemma mut_hard: "keyword_here active KwMut k \<longleftrightarrow> k = Keyword KwMut"
proof -
  have "\<not> is_soft KwMut" by code_simp
  then show ?thesis by (auto simp: keyword_here_def is_keyword_def split: TokenKind.split)
qed

lemma reads_match_mut [reads_intros]:
  assumes "t = Keyword KwMut \<Longrightarrow> reads (Suc s) Q (f True) ks ks2" and "t \<noteq> Keyword KwMut \<Longrightarrow> reads s Q (f False) (t # ks) ks2"
  shows "reads s Q (pbind (match_keyword KwMut) f) (t # ks) ks2"
proof (cases "t = Keyword KwMut")
  case True
  show ?thesis
    by (rule reads_step_value [where a = True]) (use assms True at_tokens_peek in \<open>auto simp: mut_hard\<close>)
next
  case False
  show ?thesis
    by (rule reads_look_value [where a = False]) (use assms False at_tokens_peek in \<open>auto simp: mut_hard\<close>)
qed

lemma reads_check [reads_intros]:
  "reads s Q (f (check_kind k t)) (t # ks) ks2 \<Longrightarrow> reads s Q (pbind (check k) f) (t # ks) ks2"
  by (rule reads_look_value [where a = "check_kind k t"]) (auto dest!: at_tokens_peek)

lemma reads_expect [reads_intros]:
  "check_kind k t \<Longrightarrow> \<not> check_kind k Eof \<Longrightarrow> (\<And>a. reads (Suc s) Q (f a) ks ks2) \<Longrightarrow> reads s Q (pbind (expect k msg) f) (t # ks) ks2"
  by (rule reads_step [where P = "\<lambda>_. True"]) (auto dest!: at_tokens_peek)

lemma reads_expect_op [reads_intros]:
  "t = Operator i \<Longrightarrow> (\<And>a. reads (Suc s) Q (f a) ks ks2) \<Longrightarrow> reads s Q (pbind (expect_op i msg) f) (t # ks) ks2"
  by (rule reads_step [where P = "\<lambda>_. True"]) (auto dest!: at_tokens_peek)

lemma reads_current_start [reads_intros]:
  "(\<And>a. reads s Q (f a) (t # ks) ks2) \<Longrightarrow> reads s Q (pbind current_start f) (t # ks) ks2"
  by (rule reads_look [where P = "\<lambda>_. True"]) (auto simp: current_start_def dest!: at_tokens_peek)

lemma reads_previous_end [reads_intros]:
  "0 < s \<Longrightarrow> (\<And>a. reads s Q (f a) ks ks2) \<Longrightarrow> reads s Q (pbind previous_end f) ks ks2"
  by (rule reads_look [where P = "\<lambda>_. True"]) (auto simp: at_tokens_def)

lemma reads_preturn [reads_intros]: "Q a \<Longrightarrow> reads s Q (preturn a) ks ks"
  by (simp add: reads_def)

lemma reads_if [reads_intros]: "(b \<Longrightarrow> reads s Q m ks ks2) \<Longrightarrow> (\<not> b \<Longrightarrow> reads s Q m' ks ks2) \<Longrightarrow> reads s Q (if b then m else m') ks ks2"
  by simp

lemma reads_identifier [reads_intros]:
  "(reads (Suc s) Q (f name) ks ks2) \<Longrightarrow> reads s Q (pbind parser_identifier f) (Ident name # ks) ks2"
  by (rule reads_step_value [where a = name]) (auto simp: parser_identifier_def dest!: at_tokens_peek)

lemma reads_any_word [reads_intros]:
  "word_ok w \<Longrightarrow> (reads (Suc s) Q (f w) ks ks2) \<Longrightarrow> reads s Q (pbind identifier_or_any_keyword f) (word_token w # ks) ks2"
  by (rule reads_step_value [where a = w])
    (auto simp: identifier_or_any_keyword_def word_ok_def word_token_def dest!: at_tokens_peek split: option.splits)

lemma reads_int [reads_intros]:
  "reads (Suc s) Q (f (Some v)) ks ks2 \<Longrightarrow> reads s Q (pbind match_int f) (IntTok v # ks) ks2"
  by (rule reads_step_value [where a = "Some v"]) (auto simp: match_int_def peek_kind_def dest!: at_tokens_peek)

lemma reads_not_int:
  assumes "\<And>v. t \<noteq> IntTok v" and "reads s Q (f None) (t # ks) ks2"
  shows "reads s Q (pbind match_int f) (t # ks) ks2"
proof (rule reads_look_value [where a = None])
  fix p Q E assume "at_tokens p (t # ks)"
  then have "cursor_ok p" "kind (stream p ! pos p) = t" using at_tokens_peek by (auto simp: peek_kind_def)
  then show "wp match_int Q E p = Q None p"
    using assms(1) by (cases t) (auto simp: match_int_def)
qed (rule assms(2))

lemma reads_spanned [reads_intros]: "0 < s \<Longrightarrow> (\<And>sp. Q (Spanned t sp)) \<Longrightarrow> reads s Q (spanned_to_here t st) ks ks"
  unfolding spanned_to_here_def by (intro reads_intros)

end
