(* ===== verification/Expression_Ladder.thy ===== *)
theory Expression_Ladder
  imports Token_Reading "HOL-Library.Sublist"
begin

text \<open>
  The operator ladder of the expression parser: \<open>or_expr\<close> down to \<open>multiplicative\<close> of
  \<open>kernel/incan_syntax/src/parser/expr.rs\<close>, \<open>unary\<close>, \<open>power\<close> and \<open>power_base\<close> of \<open>prefix_and_power.rs\<close>, and the
  scoped glyphs a library's vocabulary puts in the place of operators.

  The ladder is a function of the parser for its operands (\<open>postfix\<close>), which is not modelled: \<open>'o Expr\<close> has
  the constructors the ladder builds over an arbitrary type of operands.  The theorems say of any operand
  parser that keeps the parsing contract what the ladder makes of it.  \<open>grouped\<close> is the grouping the operator
  registry documents: the ladder does not read the registry, so that they agree is a theorem.
\<close>

section \<open>Operator expressions\<close>

datatype BinaryOp =
    BinAdd | BinSub | BinMul | BinDiv | BinFloorDiv | BinMod | BinPow | BinMatMul | BinPipeForward | BinPipeBackward
  | BinBitAnd | BinBitOr | BinBitXor | BinShl | BinShr | BinEq | BinNotEq | BinLt | BinGt | BinLtEq | BinGtEq
  | BinAnd | BinOr | BinIn | BinNotIn | BinIs | BinIsNot

datatype UnaryOp = UnNeg | UnNot | UnInvert

record ScopedSurfaceOwner =
  owner_declaration :: rstr
  owner_clause :: "rstr option"
  owner_call :: "rstr option"

datatype 'o Expr =
    Operand 'o
  | Binary "'o Expr Spanned" BinaryOp "'o Expr Spanned"
  | Unary UnaryOp "'o Expr Spanned"
  | ERange "'o Expr Spanned" "'o Expr Spanned" bool
  | PrefixUnary KeywordId "'o Expr Spanned"
  | ScopedGlyph rstr rstr rstr "'o Expr Spanned" "'o Expr Spanned" ScopedSurfaceOwner

type_synonym 'o expr = "'o Expr Spanned"

section \<open>Scoped glyphs\<close>

text \<open>An action that only looks at the parser's state.\<close>

definition pget :: "(Parser \<Rightarrow> 'a) \<Rightarrow> 'a parse" where
  "pget f p = (Parsed (f p), p)"

definition vec_last :: "'a list \<Rightarrow> 'a option" where
  "vec_last xs = (if xs = [] then None else Some (last xs))"

text \<open>\<open>Iterator::rposition\<close>: the last index whose element satisfies the predicate.\<close>

fun rposition :: "('a \<Rightarrow> bool) \<Rightarrow> 'a list \<Rightarrow> nat option" where
  "rposition P [] = None"
| "rposition P (x # xs) = (case rposition P xs of Some i \<Rightarrow> Some (Suc i) | None \<Rightarrow> if P x then Some 0 else None)"

definition current_vocab_clause_matches :: "Parser \<Rightarrow> rstr \<Rightarrow> rstr option \<Rightarrow> bool" where
  "current_vocab_clause_matches p declaration clause =
     (case clause of
        None \<Rightarrow> False
      | Some c \<Rightarrow>
          (case rposition (\<lambda>active. active = c) (vocab_block_stack p) of
             None \<Rightarrow> False
           | Some depth \<Rightarrow> declaration \<in> set (take depth (vocab_block_stack p))))"

definition scoped_surface_eligibility_accepts_current_context :: "Parser \<Rightarrow> ScopedSurfaceEligibility \<Rightarrow> bool" where
  "scoped_surface_eligibility_accepts_current_context p e =
     (case elig_position e of
        DeclarationBody \<Rightarrow> vec_last (vocab_block_stack p) = Some (elig_declaration e)
      | ClauseBody \<Rightarrow> current_vocab_clause_matches p (elig_declaration e) (elig_clause e)
      | CallArgument \<Rightarrow>
          (case vec_last (scoped_call_argument_stack p) of None \<Rightarrow> False | Some call \<Rightarrow> elig_call e = Some call)
      | DeclarationHead \<Rightarrow> False)"

text \<open>The tests both descriptor searches make: an operator- or binding-like surface that may occur here.\<close>

definition glyph_surface_here :: "Parser \<Rightarrow> ActiveScopedSurfaceDescriptor \<Rightarrow> bool" where
  "glyph_surface_here p active \<longleftrightarrow>
     surface_family (descriptor active) \<in> {OperatorLike, BindingLike}
     \<and> list_ex (scoped_surface_eligibility_accepts_current_context p) (eligible_in (descriptor active))"

definition active_scoped_glyph_surface_descriptor :: "rstr \<Rightarrow> Parser \<Rightarrow> ActiveScopedSurfaceDescriptor option" where
  "active_scoped_glyph_surface_descriptor glyph p =
     find (\<lambda>active. glyph_surface_here p active \<and> surface_syntax (descriptor active) = Glyph glyph)
       (active_scoped_surface_descriptors p)"

definition token_symbol_spelling :: "TokenKind \<Rightarrow> rstr option" where
  "token_symbol_spelling k =
     (case k of
        Operator i \<Rightarrow> Some (hd (op_spellings (operator_info_for i)))
      | Punctuation i \<Rightarrow> Some (punctuation_as_str i)
      | _ \<Rightarrow> None)"

text \<open>The loop of \<open>scoped_glyph_token_count_at\<close> over the tokens behind the position, with \<open>matched\<close>.\<close>

fun glyph_tokens :: "rstr \<Rightarrow> rstr \<Rightarrow> TokenKind list \<Rightarrow> nat option" where
  "glyph_tokens spelling matched [] =
     (if str_bytes_len matched < str_bytes_len spelling then None else if matched = spelling then Some 0 else None)"
| "glyph_tokens spelling matched (k # ks) =
     (if str_bytes_len matched < str_bytes_len spelling then
        (case token_symbol_spelling k of
           None \<Rightarrow> None
         | Some piece \<Rightarrow>
             if prefix (matched @ piece) spelling then map_option Suc (glyph_tokens spelling (matched @ piece) ks) else None)
      else if matched = spelling then Some 0 else None)"

definition scoped_glyph_token_count_at :: "Parser \<Rightarrow> rstr \<Rightarrow> nat \<Rightarrow> nat option" where
  "scoped_glyph_token_count_at p spelling i = glyph_tokens spelling [] (map kind (drop i (stream p)))"

text \<open>One step of the search for the longest glyph: more tokens first, then the longer spelling.\<close>

definition best_glyph_step ::
  "Parser \<Rightarrow> ActiveScopedSurfaceDescriptor \<Rightarrow> (ActiveScopedSurfaceDescriptor \<times> rstr \<times> nat) option
     \<Rightarrow> (ActiveScopedSurfaceDescriptor \<times> rstr \<times> nat) option" where
  "best_glyph_step p active best =
     (if \<not> glyph_surface_here p active then best
      else case surface_syntax (descriptor active) of
             LeadingDotPath _ _ \<Rightarrow> best
           | Glyph spelling \<Rightarrow>
               (case scoped_glyph_token_count_at p spelling (pos p) of
                  None \<Rightarrow> best
                | Some c \<Rightarrow>
                    (case best of
                       None \<Rightarrow> Some (active, spelling, c)
                     | Some (_, current, d) \<Rightarrow>
                         if c > d \<or> c = d \<and> str_bytes_len spelling > str_bytes_len current
                         then Some (active, spelling, c) else best)))"

fun advance_times :: "nat \<Rightarrow> unit parse" where
  "advance_times 0 = preturn ()"
| "advance_times (Suc n) = pbind parser_advance (\<lambda>_. advance_times n)"

definition consume_active_scoped_glyph :: "(ActiveScopedSurfaceDescriptor \<times> rstr) option parse" where
  "consume_active_scoped_glyph =
     pbind (pget (\<lambda>p. fold (best_glyph_step p) (active_scoped_surface_descriptors p) None)) (\<lambda>best.
       case best of
         None \<Rightarrow> preturn None
       | Some (active, spelling, c) \<Rightarrow> pbind (advance_times c) (\<lambda>_. preturn (Some (active, spelling))))"

definition scoped_surface_owner :: "Parser \<Rightarrow> ActiveScopedSurfaceDescriptor \<Rightarrow> ScopedSurfaceOwner" where
  "scoped_surface_owner p active =
     (case find (scoped_surface_eligibility_accepts_current_context p) (eligible_in (descriptor active)) of
        Some e \<Rightarrow> \<lparr>owner_declaration = elig_declaration e, owner_clause = elig_clause e, owner_call = elig_call e\<rparr>
      | None \<Rightarrow>
          \<lparr>owner_declaration = (case vec_last (vocab_block_stack p) of Some d \<Rightarrow> d | None \<Rightarrow> []),
           owner_clause = None, owner_call = vec_last (scoped_call_argument_stack p)\<rparr>)"

definition scoped_glyph_binary_from_active ::
  "Parser \<Rightarrow> ActiveScopedSurfaceDescriptor \<Rightarrow> rstr \<Rightarrow> 'o expr \<Rightarrow> 'o expr \<Rightarrow> Span \<Rightarrow> 'o expr" where
  "scoped_glyph_binary_from_active p active glyph left right sp =
     Spanned (ScopedGlyph (dependency_key active) (descriptor_key (descriptor active)) glyph left right
                (scoped_surface_owner p active)) sp"

definition scoped_glyph_binary :: "Parser \<Rightarrow> rstr \<Rightarrow> 'o expr \<Rightarrow> 'o expr \<Rightarrow> Span \<Rightarrow> 'o expr option" where
  "scoped_glyph_binary p glyph left right sp =
     map_option (\<lambda>active. scoped_glyph_binary_from_active p active glyph left right sp)
       (active_scoped_glyph_surface_descriptor glyph p)"

section \<open>The ladder\<close>

definition merged :: "'o expr \<Rightarrow> 'o expr \<Rightarrow> Span" where
  "merged left right = span_merge (node_span left) (node_span right)"

definition previous_start :: "nat parse" where
  "previous_start = pbind previous_token (\<lambda>t. preturn (start (span t)))"

text \<open>The operand of a prefix operator that was just consumed.\<close>

definition prefixed :: "('o expr \<Rightarrow> 'o Expr) \<Rightarrow> 'o expr parse \<Rightarrow> 'o expr parse" where
  "prefixed build operand =
     pbind previous_start (\<lambda>s. pbind operand (\<lambda>e. preturn (Spanned (build e) (span_new s (end_pos (node_span e))))))"

text \<open>An \<open>if\<close>/\<open>else if\<close> chain of tests that each consume their operator.\<close>

fun first_match :: "(bool parse \<times> BinaryOp) list \<Rightarrow> BinaryOp option parse" where
  "first_match [] = preturn None"
| "first_match ((test, bop) # tests) = pbind test (\<lambda>b. if b then preturn (Some bop) else first_match tests)"

definition or_match :: "bool parse \<Rightarrow> bool parse \<Rightarrow> bool parse" where
  "or_match a b = pbind a (\<lambda>yes. if yes then preturn True else b)"

text \<open>The test in front of an operator that a scoped glyph may own.\<close>

definition unless_owned :: "rstr \<Rightarrow> bool parse \<Rightarrow> bool parse" where
  "unless_owned glyph test =
     pbind (pget (active_scoped_glyph_surface_descriptor glyph)) (\<lambda>d. if d = None then test else preturn False)"

definition plain_binary :: "BinaryOp \<Rightarrow> 'o expr \<Rightarrow> 'o expr \<Rightarrow> 'o expr parse" where
  "plain_binary bop left right = preturn (Spanned (Binary left bop right) (merged left right))"

fun binary_glyph :: "BinaryOp \<Rightarrow> rstr option" where
  "binary_glyph BinPipeForward = Some (lit ''|>'')"
| "binary_glyph BinPipeBackward = Some (lit ''<|'')"
| "binary_glyph BinEq = Some (lit ''=='')"
| "binary_glyph BinNotEq = Some (lit ''!='')"
| "binary_glyph BinLt = Some (lit ''<'')"
| "binary_glyph BinGt = Some (lit ''>'')"
| "binary_glyph BinLtEq = Some (lit ''<='')"
| "binary_glyph BinGtEq = Some (lit ''>='')"
| "binary_glyph BinAdd = Some (lit ''+'')"
| "binary_glyph BinSub = Some (lit ''-'')"
| "binary_glyph BinMul = Some (lit ''*'')"
| "binary_glyph BinMatMul = Some (lit ''@'')"
| "binary_glyph BinFloorDiv = Some (lit ''//'')"
| "binary_glyph BinDiv = Some (lit ''/'')"
| "binary_glyph BinMod = Some (lit ''%'')"
| "binary_glyph _ = None"

definition scoped_or_binary :: "BinaryOp \<Rightarrow> 'o expr \<Rightarrow> 'o expr \<Rightarrow> 'o expr parse" where
  "scoped_or_binary bop left right =
     pget (\<lambda>p. let plain = Spanned (Binary left bop right) (merged left right) in
       case binary_glyph bop of
         None \<Rightarrow> plain
       | Some glyph \<Rightarrow> (case scoped_glyph_binary p glyph left right (merged left right) of Some e \<Rightarrow> e | None \<Rightarrow> plain))"

text \<open>
  The loops of the ladder: a step extends the expression on its left or ends the loop.  One unit of fuel per
  round.
\<close>

fun step_loop :: "nat \<Rightarrow> ('e \<Rightarrow> 'e option parse) \<Rightarrow> 'e \<Rightarrow> 'e parse" where
  "step_loop 0 step left = out_of_fuel"
| "step_loop (Suc n) step left =
     pbind (step left) (\<lambda>longer. case longer of None \<Rightarrow> preturn left | Some e \<Rightarrow> step_loop n step e)"

definition infix_step ::
  "BinaryOp option parse \<Rightarrow> (BinaryOp \<Rightarrow> 'o expr \<Rightarrow> 'o expr \<Rightarrow> 'o expr parse) \<Rightarrow> 'o expr parse \<Rightarrow> 'o expr
     \<Rightarrow> 'o expr option parse" where
  "infix_step next_op build operand left =
     pbind next_op (\<lambda>found.
       case found of
         None \<Rightarrow> preturn None
       | Some bop \<Rightarrow> pbind operand (\<lambda>right. pbind (build bop left right) (\<lambda>e. preturn (Some e))))"

definition infix_level ::
  "nat \<Rightarrow> BinaryOp option parse \<Rightarrow> (BinaryOp \<Rightarrow> 'o expr \<Rightarrow> 'o expr \<Rightarrow> 'o expr parse) \<Rightarrow> 'o expr parse
     \<Rightarrow> 'o expr parse" where
  "infix_level n next_op build operand = pbind operand (step_loop n (infix_step next_op build operand))"

abbreviation match_operator :: "OperatorId \<Rightarrow> bool parse" where
  "match_operator i \<equiv> match_token (Operator i)"

fun unary :: "nat \<Rightarrow> 'o expr parse \<Rightarrow> 'o expr parse"
  and power :: "nat \<Rightarrow> 'o expr parse \<Rightarrow> 'o expr parse"
  and power_base :: "nat \<Rightarrow> 'o expr parse \<Rightarrow> 'o expr parse" where
  "unary 0 postfix = out_of_fuel"
| "unary (Suc n) postfix =
     pbind (match_operator OpMinus) (\<lambda>minus.
       if minus then prefixed (Unary UnNeg) (unary n postfix)
       else pbind (match_operator OpTilde) (\<lambda>tilde.
         if tilde then prefixed (Unary UnInvert) (unary n postfix) else power n postfix))"
| "power 0 postfix = out_of_fuel"
| "power (Suc n) postfix =
     pbind (power_base n postfix) (\<lambda>left. pbind (match_operator OpStarStar) (\<lambda>raised.
       if raised then pbind (unary n postfix) (\<lambda>right. preturn (Spanned (Binary left BinPow right) (merged left right)))
       else preturn left))"
| "power_base 0 postfix = out_of_fuel"
| "power_base (Suc n) postfix =
     pbind (current_surface_keyword PrefixExpression) (\<lambda>id.
       case id of
         None \<Rightarrow> postfix
       | Some i \<Rightarrow> pbind parser_advance (\<lambda>_. prefixed (PrefixUnary i)
           (pbind (or_match (check_op OpMinus) (check_op OpTilde)) (\<lambda>sign.
              if sign then unary n postfix else power_base n postfix))))"

definition multiplicative_op :: "BinaryOp option parse" where
  "multiplicative_op =
     first_match
       [(match_operator OpStar, BinMul),
        (unless_owned (lit ''@'') (or_match (match_token (punct PunctAt)) (match_operator OpMatMul)), BinMatMul),
        (match_operator OpSlashSlash, BinFloorDiv), (match_operator OpSlash, BinDiv), (match_operator OpPercent, BinMod)]"

definition multiplicative :: "nat \<Rightarrow> 'o expr parse \<Rightarrow> 'o expr parse" where
  "multiplicative n postfix = infix_level n multiplicative_op scoped_or_binary (unary n postfix)"

definition additive :: "nat \<Rightarrow> 'o expr parse \<Rightarrow> 'o expr parse" where
  "additive n postfix =
     infix_level n (first_match [(match_operator OpPlus, BinAdd), (match_operator OpMinus, BinSub)]) scoped_or_binary
       (multiplicative n postfix)"

definition shift :: "nat \<Rightarrow> 'o expr parse \<Rightarrow> 'o expr parse" where
  "shift n postfix =
     infix_level n
       (first_match [(unless_owned (lit ''<<'') (match_operator OpShl), BinShl),
                     (unless_owned (lit ''>>'') (match_operator OpShr), BinShr)])
       plain_binary (additive n postfix)"

definition bit_and :: "nat \<Rightarrow> 'o expr parse \<Rightarrow> 'o expr parse" where
  "bit_and n postfix =
     infix_level n (first_match [(unless_owned (lit ''&'') (match_operator OpAmp), BinBitAnd)]) plain_binary (shift n postfix)"

definition bit_xor :: "nat \<Rightarrow> 'o expr parse \<Rightarrow> 'o expr parse" where
  "bit_xor n postfix =
     infix_level n (first_match [(unless_owned (lit ''^'') (match_operator OpCaret), BinBitXor)]) plain_binary (bit_and n postfix)"

definition bit_or :: "nat \<Rightarrow> 'o expr parse \<Rightarrow> 'o expr parse" where
  "bit_or n postfix =
     infix_level n
       (first_match [(unless_owned (lit ''|'') (or_match (match_token (punct PunctPipe)) (match_operator OpPipe)), BinBitOr)])
       plain_binary (bit_xor n postfix)"

definition range_expr :: "nat \<Rightarrow> 'o expr parse \<Rightarrow> 'o expr parse" where
  "range_expr n postfix =
     pbind (bit_or n postfix) (\<lambda>left. pbind (match_operator OpDotDotEq) (\<lambda>inclusive.
       pbind (if inclusive then preturn True else match_operator OpDotDot) (\<lambda>is_range.
         if \<not> is_range then preturn left
         else pbind (bit_or n postfix) (\<lambda>right. preturn (Spanned (ERange left right inclusive) (merged left right))))))"

definition comparison_op :: "BinaryOp option parse" where
  "comparison_op =
     pbind (first_match
        [(match_operator OpPipeForward, BinPipeForward), (match_operator OpPipeBackward, BinPipeBackward),
         (match_operator OpEqEq, BinEq), (match_operator OpNotEq, BinNotEq), (match_operator OpLt, BinLt),
         (match_operator OpGt, BinGt), (match_operator OpLtEq, BinLtEq), (match_operator OpGtEq, BinGtEq),
         (match_token (Keyword KwIn), BinIn)]) (\<lambda>found.
       case found of
         Some bop \<Rightarrow> preturn (Some bop)
       | None \<Rightarrow> pbind (check_keyword KwNot) (\<lambda>negated.
           pbind (if negated then pbind parser_peek_next (\<lambda>t. preturn (kind t = Keyword KwIn)) else preturn False) (\<lambda>not_in.
             if not_in then pbind parser_advance (\<lambda>_. pbind parser_advance (\<lambda>_. preturn (Some BinNotIn)))
             else pbind (match_token (Keyword KwIs)) (\<lambda>identity.
               if identity then pbind (match_token (Keyword KwNot)) (\<lambda>negated. preturn (Some (if negated then BinIsNot else BinIs)))
               else preturn None))))"

definition comparison_step :: "'o expr parse \<Rightarrow> 'o expr parse \<Rightarrow> 'o expr \<Rightarrow> 'o expr option parse" where
  "comparison_step nested operand left =
     pbind consume_active_scoped_glyph (\<lambda>owned.
       case owned of
         Some (active, glyph) \<Rightarrow>
           pbind (if surface_family (descriptor active) = BindingLike then nested else operand) (\<lambda>right.
             pget (\<lambda>p. Some (scoped_glyph_binary_from_active p active glyph left right (merged left right))))
       | None \<Rightarrow> infix_step comparison_op scoped_or_binary operand left)"

fun comparison :: "nat \<Rightarrow> 'o expr parse \<Rightarrow> 'o expr parse" where
  "comparison 0 postfix = out_of_fuel"
| "comparison (Suc n) postfix =
     pbind (range_expr n postfix) (step_loop n (comparison_step (comparison n postfix) (range_expr n postfix)))"

fun not_expr :: "nat \<Rightarrow> 'o expr parse \<Rightarrow> 'o expr parse" where
  "not_expr 0 postfix = out_of_fuel"
| "not_expr (Suc n) postfix =
     pbind (match_token (Keyword KwNot)) (\<lambda>negated.
       if negated then prefixed (Unary UnNot) (not_expr n postfix) else comparison n postfix)"

definition and_expr :: "nat \<Rightarrow> 'o expr parse \<Rightarrow> 'o expr parse" where
  "and_expr n postfix = infix_level n (first_match [(match_token (Keyword KwAnd), BinAnd)]) plain_binary (not_expr n postfix)"

definition or_expr :: "nat \<Rightarrow> 'o expr parse \<Rightarrow> 'o expr parse" where
  "or_expr n postfix = infix_level n (first_match [(match_token (Keyword KwOr), BinOr)]) plain_binary (and_expr n postfix)"

definition expression :: "nat \<Rightarrow> 'o expr parse \<Rightarrow> 'o expr parse" where
  "expression n postfix = or_expr n postfix"

definition expression_fuel :: "Parser \<Rightarrow> nat" where
  "expression_fuel p = 3 * remaining p + 4"

section \<open>The grouping the registry documents\<close>

fun binary_operator :: "BinaryOp \<Rightarrow> OperatorId" where
  "binary_operator BinAdd = OpPlus"
| "binary_operator BinSub = OpMinus"
| "binary_operator BinMul = OpStar"
| "binary_operator BinDiv = OpSlash"
| "binary_operator BinFloorDiv = OpSlashSlash"
| "binary_operator BinMod = OpPercent"
| "binary_operator BinPow = OpStarStar"
| "binary_operator BinMatMul = OpMatMul"
| "binary_operator BinPipeForward = OpPipeForward"
| "binary_operator BinPipeBackward = OpPipeBackward"
| "binary_operator BinBitAnd = OpAmp"
| "binary_operator BinBitOr = OpPipe"
| "binary_operator BinBitXor = OpCaret"
| "binary_operator BinShl = OpShl"
| "binary_operator BinShr = OpShr"
| "binary_operator BinEq = OpEqEq"
| "binary_operator BinNotEq = OpNotEq"
| "binary_operator BinLt = OpLt"
| "binary_operator BinGt = OpGt"
| "binary_operator BinLtEq = OpLtEq"
| "binary_operator BinGtEq = OpGtEq"
| "binary_operator BinAnd = OpAnd"
| "binary_operator BinOr = OpOr"
| "binary_operator BinIn = OpIn"
| "binary_operator BinNotIn = OpIn"
| "binary_operator BinIs = OpIs"
| "binary_operator BinIsNot = OpIs"

definition precedence_of :: "OperatorId \<Rightarrow> nat" where
  "precedence_of i = op_precedence (operator_info_for i)"

definition binary_precedence :: "BinaryOp \<Rightarrow> nat" where
  "binary_precedence b = precedence_of (binary_operator b)"

definition binary_associativity :: "BinaryOp \<Rightarrow> Associativity" where
  "binary_associativity b = op_associativity (operator_info_for (binary_operator b))"

text \<open>Tighter than every operator.\<close>

definition ATOMIC :: nat where
  "ATOMIC = 100"

text \<open>
  How tightly the root of an expression binds.  Prefix \<open>-\<close> has no entry of its own and binds like \<open>~\<close>.  A
  library's glyph is no registered operator: it binds like the arithmetic operator it replaces where its
  operands allow that, and like a comparison otherwise.
\<close>

definition glyph_binding :: "rstr \<Rightarrow> nat \<Rightarrow> nat \<Rightarrow> nat" where
  "glyph_binding g l r =
     (if g \<in> set [lit ''*'', lit ''@'', lit ''//'', lit ''/'', lit ''%''] \<and> precedence_of OpStar \<le> l \<and> precedence_of OpStar < r
      then precedence_of OpStar
      else if g \<in> set [lit ''+'', lit ''-''] \<and> precedence_of OpPlus \<le> l \<and> precedence_of OpPlus < r
      then precedence_of OpPlus
      else precedence_of OpEqEq)"

lemma size_left [termination_simp]: "size (node l) < Suc (size_Spanned size l + m)"
  by (cases l) auto

fun binding :: "'o Expr \<Rightarrow> nat" where
  "binding (Operand a) = ATOMIC"
| "binding (Binary l b r) = binary_precedence b"
| "binding (Unary u e) = precedence_of (if u = UnNot then OpNot else OpTilde)"
| "binding (ERange l r inclusive) = precedence_of (if inclusive then OpDotDotEq else OpDotDot)"
| "binding (PrefixUnary i e) = ATOMIC"
| "binding (ScopedGlyph dep key g l r owner) = glyph_binding g (binding (node l)) (binding (node r))"

fun is_signed :: "'o Expr \<Rightarrow> bool" where
  "is_signed (Unary u e) = (u \<noteq> UnNot)"
| "is_signed _ = False"

fun grouped :: "'o Expr \<Rightarrow> bool" where
  "grouped (Operand a) = True"
| "grouped (Binary l b r) =
     (grouped (node l) \<and> grouped (node r)
      \<and> (case binary_associativity b of
           AssocLeft \<Rightarrow> binary_precedence b \<le> binding (node l) \<and> binary_precedence b < binding (node r)
         | AssocRight \<Rightarrow> binary_precedence b < binding (node l)
             \<and> (binary_precedence b \<le> binding (node r) \<or> is_signed (node r))
         | AssocNone \<Rightarrow> binary_precedence b < binding (node l) \<and> binary_precedence b < binding (node r)))"
| "grouped (Unary u e) = (grouped (node e) \<and> binding (Unary u e) \<le> binding (node e))"
| "grouped (ERange l r inclusive) =
     (grouped (node l) \<and> grouped (node r)
      \<and> binding (ERange l r inclusive) < binding (node l) \<and> binding (ERange l r inclusive) < binding (node r))"
| "grouped (PrefixUnary i e) = (grouped (node e) \<and> (ATOMIC \<le> binding (node e) \<or> is_signed (node e)))"
| "grouped (ScopedGlyph dep key g l r owner) =
     (grouped (node l) \<and> grouped (node r) \<and> precedence_of OpEqEq \<le> binding (node l) \<and> precedence_of OpEqEq \<le> binding (node r))"

text \<open>The entries of the registry the ladder has to agree with.\<close>

lemma operator_columns:
  "map op_precedence OPERATORS =
     [50, 50, 60, 70, 60, 60, 60, 60, 40, 40, 45, 43, 44, 48, 48, 65, 40, 40, 40, 40, 40, 40,
      10, 10, 10, 10, 10, 10, 10, 10, 10, 10, 10, 10, 10, 42, 42, 25, 20, 30, 40, 40]"
  "map op_associativity OPERATORS =
     replicate 3 AssocLeft @ AssocRight # replicate 11 AssocLeft @ AssocRight # replicate 19 AssocLeft
       @ [AssocNone, AssocNone, AssocLeft, AssocLeft, AssocRight, AssocLeft, AssocLeft]"
  by code_simp+

lemma operator_index_less: "operator_index i < length OPERATORS"
proof -
  have "length OPERATORS = 42" using arg_cong [OF operator_columns(1), of length] by simp
  then show ?thesis by (cases i) simp_all
qed

lemma operator_column: "f (operator_info_for i) = map f OPERATORS ! operator_index i"
  using operator_index_less [of i] by (simp add: operator_info_for_def)

lemma registered_precedences [simp]:
  "binary_precedence BinOr = 20" "binary_precedence BinAnd = 25"
  "binary_precedence BinEq = 40" "binary_precedence BinNotEq = 40" "binary_precedence BinLt = 40" "binary_precedence BinGt = 40"
  "binary_precedence BinLtEq = 40" "binary_precedence BinGtEq = 40" "binary_precedence BinIn = 40" "binary_precedence BinNotIn = 40"
  "binary_precedence BinIs = 40" "binary_precedence BinIsNot = 40" "binary_precedence BinPipeForward = 40" "binary_precedence BinPipeBackward = 40"
  "binary_precedence BinBitOr = 43" "binary_precedence BinBitXor = 44" "binary_precedence BinBitAnd = 45"
  "binary_precedence BinShl = 48" "binary_precedence BinShr = 48" "binary_precedence BinAdd = 50" "binary_precedence BinSub = 50"
  "binary_precedence BinMul = 60" "binary_precedence BinDiv = 60" "binary_precedence BinFloorDiv = 60" "binary_precedence BinMod = 60"
  "binary_precedence BinMatMul = 60" "binary_precedence BinPow = 70"
  "precedence_of OpNot = 30" "precedence_of OpTilde = 65" "precedence_of OpDotDot = 42" "precedence_of OpDotDotEq = 42"
  "precedence_of OpEqEq = 40" "precedence_of OpNotEq = 40" "precedence_of OpLt = 40" "precedence_of OpGt = 40"
  "precedence_of OpLtEq = 40" "precedence_of OpGtEq = 40" "precedence_of OpPipeForward = 40" "precedence_of OpPipeBackward = 40"
  "precedence_of OpPipe = 43" "precedence_of OpCaret = 44" "precedence_of OpAmp = 45" "precedence_of OpShl = 48" "precedence_of OpShr = 48"
  "precedence_of OpPlus = 50" "precedence_of OpMinus = 50" "precedence_of OpStar = 60" "precedence_of OpSlash = 60"
  "precedence_of OpSlashSlash = 60" "precedence_of OpPercent = 60" "precedence_of OpMatMul = 60" "precedence_of OpStarStar = 70"
  by (simp_all add: binary_precedence_def precedence_of_def operator_column [of op_precedence] operator_columns(1))

lemma registered_associativity [simp]:
  "binary_associativity b = (if b = BinPow then AssocRight else AssocLeft)"
  by (cases b) (simp_all add: binary_associativity_def operator_column [of op_associativity] operator_columns(2) nth_append)

lemma atomic_simps [simp]: "ATOMIC = 100"
  by (simp add: ATOMIC_def)

end
