(* ===== verification/Expression_Grouping.thy ===== *)
theory Expression_Grouping
  imports Expression_Ladder
begin

text \<open>
  What the operator ladder produces.  From any cursor inside a token stream and with any library syntax
  active, the ladder returns, never indexes outside the stream, and yields only expressions grouped the way
  the operator registry documents; \<open>extends\<close> is the contract of one round of a ladder loop.
\<close>

section \<open>Contracts of the ladder's parts\<close>

lemma parses_mono: "parses s r c I m \<Longrightarrow> s \<le> s' \<Longrightarrow> r' \<le> r \<Longrightarrow> parses s' r' c I m"
  by (auto simp: parses_def)

lemma moved_remaining: "moved p q \<Longrightarrow> remaining q \<le> remaining p"
  unfolding moved_def remaining_def by (cases q; cases p) auto

lemma moved_further: "moved p q \<Longrightarrow> remaining q < remaining p \<Longrightarrow> pos p < pos q"
  unfolding moved_def remaining_def by (cases q; cases p) auto

lemma wp_pget [simp]: "wp (pget f) Q E p = Q (f p) p"
  by (simp add: wp_def pget_def)

lemma wp_previous_start [simp]:
  "cursor_ok p \<Longrightarrow> 0 < pos p \<Longrightarrow> wp previous_start Q E p = Q (start (span (stream p ! (pos p - 1)))) p"
  by (simp add: previous_start_def)

lemma parses_prefixed:
  assumes "parses s r 1 I operand" and "0 < s" and "\<And>e sp. I e \<Longrightarrow> J (Spanned (build e) sp)"
  shows "parses s r 1 J (prefixed build operand)"
  unfolding prefixed_def previous_start_def
proof (rule parses_bind [where ?c1.0 = 0 and I = "\<lambda>_. True"])
  show "parses s r 0 (\<lambda>_. True) (pbind previous_token (\<lambda>t. preturn (start (span t))))"
    using assms(2) by (intro parses_intros) simp_all
qed (use assms in \<open>auto intro!: parses_bind [OF assms(1)] parses_intros\<close>)

lemma parses_surface_keyword:
  assumes "\<And>i. 1 < r \<Longrightarrow> parses (s + 1) (r - 1) (c - 1) J (g i)" and "parses s r c J m"
  shows "parses s r c J (pbind (current_surface_keyword usage) (\<lambda>id. case id of None \<Rightarrow> m | Some i \<Rightarrow> pbind parser_advance (\<lambda>_. g i)))"
proof (rule parsesI)
  fix p assume p: "cursor_ok p" "remaining p \<le> r" "s \<le> pos p"
  define id where "id = (case active_soft_keyword (active_soft_keywords p) (peek_kind p) of
      None \<Rightarrow> None | Some i \<Rightarrow> if keyword_supports_surface_usage p i usage then Some i else None)"
  have look: "wp (current_surface_keyword usage) Q E p = Q id p" for Q :: "KeywordId option \<Rightarrow> Parser \<Rightarrow> bool" and E
    using p(1) by (simp add: current_surface_keyword_def current_active_soft_keyword_def id_def wp_def pbind_def preturn_def
        parser_peek_def token_at_def cursor_ok_def peek_kind_def)
  show "wp (pbind (current_surface_keyword usage) (\<lambda>id. case id of None \<Rightarrow> m | Some i \<Rightarrow> pbind parser_advance (\<lambda>_. g i)))
      (\<lambda>a q. moved p q \<and> remaining q + c \<le> remaining p \<and> J a) (\<lambda>e q. moved p q) p"
  proof (cases id)
    case None
    then show ?thesis using parsesD [OF assms(2) p] by (simp add: look)
  next
    case (Some i)
    have "peek_kind p \<noteq> Eof" using Some by (auto simp: id_def active_soft_keyword_def)
    moreover from moved_forward [OF p(1) this] have fwd: "moved p (forward p)" "remaining (forward p) + 1 = remaining p" "1 < remaining p"
      by simp_all
    moreover have "wp (g i) (\<lambda>a q. moved (forward p) q \<and> remaining q + (c - 1) \<le> remaining (forward p) \<and> J a)
        (\<lambda>e q. moved (forward p) q) (forward p)"
      by (rule parsesD [OF assms(1)]) (use fwd p in \<open>simp_all add: moved_def forward_def\<close>)
    then have "wp (g i) (\<lambda>a q. moved p q \<and> remaining q + c \<le> remaining p \<and> J a) (\<lambda>e q. moved p q) (forward p)"
      by (rule wp_mono) (use fwd in \<open>auto intro: moved_trans\<close>)
    ultimately show ?thesis using p(1) Some by (simp add: look)
  qed
qed

text \<open>Choosing an operator: nothing is consumed when there is none.\<close>

fun picked :: "Parser \<Rightarrow> BinaryOp set \<Rightarrow> BinaryOp option \<Rightarrow> Parser \<Rightarrow> bool" where
  "picked p bops None q = (cursor_ok p \<and> q = p)"
| "picked p bops (Some b) q = (b \<in> bops \<and> moved p q \<and> remaining q + 1 \<le> remaining p)"

definition picks :: "BinaryOp option parse \<Rightarrow> BinaryOp set \<Rightarrow> bool" where
  "picks m bops \<longleftrightarrow> (\<forall>p. cursor_ok p \<longrightarrow> wp m (picked p bops) (\<lambda>_ _. False) p)"

lemma matches_or: "matches_token a \<Longrightarrow> matches_token b \<Longrightarrow> matches_token (or_match a b)"
  unfolding matches_token_def or_match_def by (auto elim!: wp_mono split: if_splits)

lemma matches_unless: "matches_token a \<Longrightarrow> matches_token (unless_owned g a)"
  unfolding matches_token_def unless_owned_def by (auto split: if_splits)

lemmas matches_operators = matches_or matches_unless matches_token_rules(1)

lemma picks_first_match: "list_all (\<lambda>(t, b). matches_token t \<and> b \<in> bops) tests \<Longrightarrow> picks (first_match tests) bops"
proof (induction tests)
  case Nil
  then show ?case by (simp add: picks_def)
next
  case (Cons x xs)
  obtain t b where x: "x = (t, b)" by force
  show ?case
    unfolding picks_def
  proof (intro allI impI)
    fix p assume p: "cursor_ok p"
    have "wp t (\<lambda>b q. if b then peek_kind p \<noteq> Eof \<and> q = forward p else q = p) (\<lambda>_ _. False) p"
      using Cons.prems p by (simp add: x matches_token_def)
    then show "wp (first_match (x # xs)) (picked p bops) (\<lambda>_ _. False) p"
      unfolding x first_match.simps wp_pbind
      by (rule wp_mono) (use Cons p moved_forward [OF p] in \<open>auto simp: x picks_def split: if_splits\<close>)
  qed
qed

lemma picks_else:
  assumes "picks m bops" and "cursor_ok p"
    and "wp other (picked p bops') (\<lambda>_ _. False) p"
    and "bops \<subseteq> bops'"
  shows "wp (pbind m (\<lambda>found. case found of Some b \<Rightarrow> preturn (Some b) | None \<Rightarrow> other)) (picked p bops') (\<lambda>_ _. False) p"
  unfolding wp_pbind
proof (rule wp_mono [OF assms(1) [unfolded picks_def, rule_format, OF assms(2)]])
  show "wp (case found of None \<Rightarrow> other | Some b \<Rightarrow> preturn (Some b)) (picked p bops') (\<lambda>_ _. False) q" if "picked p bops found q" for found q
    using that assms(3,4) by (cases found) auto
qed

lemma picks_comparison:
  "picks comparison_op {BinPipeForward, BinPipeBackward, BinEq, BinNotEq, BinLt, BinGt, BinLtEq, BinGtEq, BinIn, BinNotIn, BinIs, BinIsNot}"
  (is "picks _ ?ops")
  unfolding picks_def
proof (intro allI impI)
  fix p assume p: "cursor_ok p"
  let ?Q = "picked p ?ops"
  have first: "picks (first_match
        [(match_operator OpPipeForward, BinPipeForward), (match_operator OpPipeBackward, BinPipeBackward),
         (match_operator OpEqEq, BinEq), (match_operator OpNotEq, BinNotEq), (match_operator OpLt, BinLt),
         (match_operator OpGt, BinGt), (match_operator OpLtEq, BinLtEq), (match_operator OpGtEq, BinGtEq),
         (match_token (Keyword KwIn), BinIn)]) ?ops"
    by (rule picks_first_match) (simp add: matches_operators)
  have fwd: "peek_kind q \<noteq> Eof \<Longrightarrow> cursor_ok q \<Longrightarrow> moved q (forward q) \<and> remaining (forward q) + 1 = remaining q \<and> cursor_ok (forward q)" for q
    using moved_forward [of q] by (auto simp: moved_def)
  have notin: "peek_kind (forward p) \<noteq> Eof" if "kind t = Keyword KwIn" "peek_kind p \<noteq> Eof"
      "t = (if pos p + 1 < length (stream p) then stream p ! (pos p + 1) else stream p ! (length (stream p) - 1))" for t
    using that fwd [OF that(2) p] by (auto simp: peek_kind_def forward_def cursor_ok_def split: if_splits)
  let ?t = "if pos p + 1 < length (stream p) then stream p ! (pos p + 1) else stream p ! (length (stream p) - 1)"
  have next_token: "wp parser_peek_next Q E p = Q (if pos p + 1 < length (stream p) then stream p ! (pos p + 1) else stream p ! (length (stream p) - 1)) p"
    for Q :: "Token \<Rightarrow> Parser \<Rightarrow> bool" and E
    using p by (auto simp: wp_def parser_peek_next_def token_at_def cursor_ok_def)
  have rest: "wp (pbind (check_keyword KwNot) (\<lambda>negated.
           pbind (if negated then pbind parser_peek_next (\<lambda>t. preturn (kind t = Keyword KwIn)) else preturn False) (\<lambda>not_in.
             if not_in then pbind parser_advance (\<lambda>_. pbind parser_advance (\<lambda>_. preturn (Some BinNotIn)))
             else pbind (match_token (Keyword KwIs)) (\<lambda>identity.
               if identity then pbind (match_token (Keyword KwNot)) (\<lambda>negated. preturn (Some (if negated then BinIsNot else BinIs)))
               else preturn None)))) ?Q (\<lambda>_ _. False) p"
  proof (cases "keyword_here (active_soft_keywords p) KwNot (peek_kind p) \<and> kind ?t = Keyword KwIn")
    case True
    then have "peek_kind p \<noteq> Eof" by (auto dest: keyword_not_eof)
    note 1 = fwd [OF this p] and 2 = notin [OF _ this refl]
    note 3 = fwd [OF 2]
    show ?thesis using p True \<open>peek_kind p \<noteq> Eof\<close> 1 2 3 by (auto simp: next_token intro: moved_trans)
  next
    case False
    then have "wp (if keyword_here (active_soft_keywords p) KwNot (peek_kind p) then pbind parser_peek_next (\<lambda>t. preturn (kind t = Keyword KwIn)) else preturn False) Q E p
        = Q False p" for Q :: "bool \<Rightarrow> Parser \<Rightarrow> bool" and E
      by (auto simp: next_token)
    moreover have "wp (pbind (match_token (Keyword KwIs)) (\<lambda>identity.
               if identity then pbind (match_token (Keyword KwNot)) (\<lambda>negated. preturn (Some (if negated then BinIsNot else BinIs)))
               else preturn None)) ?Q (\<lambda>_ _. False) p"
    proof (cases "peek_kind p = Keyword KwIs")
      case True
      then have 1: "moved p (forward p)" "remaining (forward p) + 1 = remaining p" "cursor_ok (forward p)" using fwd [OF _ p] by auto
      then have 2: "peek_kind (forward p) = Keyword KwNot \<Longrightarrow> moved p (forward (forward p)) \<and> remaining (forward (forward p)) + 1 = remaining (forward p)"
        using fwd [of "forward p"] by (auto intro: moved_trans)
      show ?thesis using p True 1 2 by auto
    qed (use p in \<open>simp add: moved_refl\<close>)
    ultimately show ?thesis using p by simp
  qed
  show "wp comparison_op ?Q (\<lambda>_ _. False) p"
    unfolding comparison_op_def by (rule picks_else [OF first p rest]) auto
qed

section \<open>Scoped glyphs only take operator and punctuation tokens\<close>

lemma glyph_tokens_symbols: "glyph_tokens spelling matched ks = Some c \<Longrightarrow> c \<le> length ks \<and> Eof \<notin> set (take c ks)"
proof (induction ks arbitrary: matched c)
  case (Cons k ks)
  show ?case
  proof (cases c)
    case (Suc d)
    then obtain piece where "token_symbol_spelling k = Some piece" "glyph_tokens spelling (matched @ piece) ks = Some d"
      using Cons.prems by (auto split: if_splits option.splits)
    with Cons.IH have "d \<le> length ks \<and> Eof \<notin> set (take d ks)" "k \<noteq> Eof" by (auto simp: token_symbol_spelling_def)
    then show ?thesis using Suc by auto
  qed simp
qed (simp split: if_splits)

lemma wp_advance_times:
  "cursor_ok p \<Longrightarrow> Eof \<notin> set (take c (map kind (drop (pos p) (stream p)))) \<Longrightarrow> c \<le> length (stream p) - pos p \<Longrightarrow>
   wp (advance_times c) (\<lambda>_ q. moved p q) (\<lambda>_ _. False) p"
proof (induction c arbitrary: p)
  case 0
  then show ?case by (simp add: moved_refl)
next
  case (Suc c)
  have first: "map kind (drop (pos p) (stream p)) = peek_kind p # map kind (drop (pos (forward p)) (stream (forward p)))"
    using Suc.prems(1) by (simp add: drop_cursor peek_kind_def forward_def)
  with Suc.prems(2) have "peek_kind p \<noteq> Eof" by auto
  note fwd = moved_forward [OF Suc.prems(1) this]
  then have "wp (advance_times c) (\<lambda>_ q. moved (forward p) q) (\<lambda>_ _. False) (forward p)"
    using Suc.prems(2,3) first by (intro Suc.IH) (auto simp: moved_def forward_def)
  then have "wp (advance_times c) (\<lambda>_ q. moved p q) (\<lambda>_ _. False) (forward p)"
    by (rule wp_mono) (use fwd in \<open>auto intro: moved_trans\<close>)
  then show ?case using Suc.prems(1) \<open>peek_kind p \<noteq> Eof\<close> by simp
qed

lemma best_glyph_counts:
  "(\<And>a g c. best = Some (a, g, c) \<Longrightarrow> scoped_glyph_token_count_at p g (pos p) = Some c) \<Longrightarrow>
   fold (best_glyph_step p) ds best = Some (a, g, c) \<Longrightarrow> scoped_glyph_token_count_at p g (pos p) = Some c"
proof (induction ds arbitrary: best)
  case (Cons d ds)
  have "scoped_glyph_token_count_at p g' (pos p) = Some c'" if "best_glyph_step p d best = Some (a', g', c')" for a' g' c'
    using that Cons.prems(1) by (auto simp: best_glyph_step_def split: if_splits option.splits prod.splits ScopedSurfaceSyntax.splits)
  with Cons.prems(2) show ?case by (intro Cons.IH [of "best_glyph_step p d best"]) auto
qed auto

lemma parses_scoped_glyph: "parses s r 0 (\<lambda>_. True) consume_active_scoped_glyph"
proof (rule parsesI)
  fix p assume p: "cursor_ok p"
  define best where "best = fold (best_glyph_step p) (active_scoped_surface_descriptors p) None"
  have "wp (case best of None \<Rightarrow> preturn None | Some (active, spelling, c) \<Rightarrow> pbind (advance_times c) (\<lambda>_. preturn (Some (active, spelling))))
      (\<lambda>_ q. moved p q) (\<lambda>_ q. moved p q) p"
  proof (cases best)
    case (Some x)
    then obtain a g c where x: "best = Some (a, g, c)" by (cases x) auto
    then have "scoped_glyph_token_count_at p g (pos p) = Some c" using best_glyph_counts [of None p] by (auto simp: best_def)
    then have "wp (advance_times c) (\<lambda>_ q. moved p q) (\<lambda>_ _. False) p"
      using glyph_tokens_symbols p by (intro wp_advance_times) (auto simp: scoped_glyph_token_count_at_def take_map dest!: glyph_tokens_symbols)
    then have "wp (advance_times c) (\<lambda>_ q. moved p q) (\<lambda>_ q. moved p q) p" by (rule wp_mono) auto
    then show ?thesis by (simp add: x)
  qed (simp add: p moved_refl)
  then show "wp consume_active_scoped_glyph (\<lambda>a q. moved p q \<and> remaining q + 0 \<le> remaining p \<and> True) (\<lambda>e q. moved p q) p"
    unfolding consume_active_scoped_glyph_def wp_pbind wp_pget best_def [symmetric]
    by (rule wp_mono) (auto simp: moved_remaining)
qed

section \<open>Loops\<close>

text \<open>A round of a loop either ends it or consumes a token and yields an expression that again satisfies \<open>I\<close>.\<close>

definition extends :: "nat \<Rightarrow> ('e \<Rightarrow> bool) \<Rightarrow> ('e \<Rightarrow> 'e option parse) \<Rightarrow> bool" where
  "extends r I step \<longleftrightarrow>
     (\<forall>left p. I left \<and> cursor_ok p \<and> remaining p \<le> r \<longrightarrow>
        wp (step left) (\<lambda>longer q. moved p q \<and> (\<forall>e. longer = Some e \<longrightarrow> I e \<and> remaining q < remaining p)) (\<lambda>_ q. moved p q) p)"

lemma parses_step_loop: "extends r I step \<Longrightarrow> r' \<le> r \<Longrightarrow> r' \<le> n \<Longrightarrow> I left \<Longrightarrow> parses s r' 0 I (step_loop n step left)"
proof (induction n arbitrary: r' s left)
  case 0
  then show ?case by (simp add: parses_zero)
next
  case (Suc n)
  show ?case
  proof (rule parsesI)
    fix p assume p: "cursor_ok p" "remaining p \<le> r'" "s \<le> pos p"
    let ?R = "\<lambda>a q. moved p q \<and> remaining q + 0 \<le> remaining p \<and> I a"
    have "wp (step left) (\<lambda>longer q. moved p q \<and> (\<forall>e. longer = Some e \<longrightarrow> I e \<and> remaining q < remaining p)) (\<lambda>_ q. moved p q) p"
      using Suc.prems p by (simp add: extends_def)
    then have "wp (step left) (\<lambda>longer q. wp (case longer of None \<Rightarrow> preturn left | Some e \<Rightarrow> step_loop n step e) ?R (\<lambda>_ q. moved p q) q) (\<lambda>_ q. moved p q) p"
    proof (rule wp_mono)
      fix longer q assume q: "moved p q \<and> (\<forall>e. longer = Some e \<longrightarrow> I e \<and> remaining q < remaining p)"
      show "wp (case longer of None \<Rightarrow> preturn left | Some e \<Rightarrow> step_loop n step e) ?R (\<lambda>_ q. moved p q) q"
      proof (cases longer)
        case None
        then show ?thesis using q Suc.prems(4) by (simp add: moved_remaining)
      next
        case (Some e)
        have "parses 0 (remaining q) 0 I (step_loop n step e)" using Suc.prems Some q p(2) by (intro Suc.IH) auto
        then have "wp (step_loop n step e) (\<lambda>a t. moved q t \<and> remaining t + 0 \<le> remaining q \<and> I a) (\<lambda>_ t. moved q t) q"
          by (rule parsesD) (use q in \<open>auto simp: moved_def\<close>)
        then show ?thesis unfolding Some option.case by (rule wp_mono) (use q Some in \<open>auto intro: moved_trans\<close>)
      qed
    qed simp
    then show "wp (step_loop (Suc n) step left) ?R (\<lambda>_ q. moved p q) p" by simp
  qed
qed

lemma extends_infix:
  assumes "picks next_op bops" and "parses 0 r 1 J operand"
    and "\<And>b l x s r. b \<in> bops \<Longrightarrow> I l \<Longrightarrow> J x \<Longrightarrow> parses s r 0 I (build b l x)"
  shows "extends r I (infix_step next_op build operand)"
  unfolding extends_def
proof (intro allI impI)
  fix left p assume p: "I left \<and> cursor_ok p \<and> remaining p \<le> r"
  let ?R = "\<lambda>longer q. moved p q \<and> (\<forall>e. longer = Some e \<longrightarrow> I e \<and> remaining q < remaining p)"
  have "wp next_op (picked p bops) (\<lambda>_ _. False) p" using assms(1) p by (simp add: picks_def)
  then show "wp (infix_step next_op build operand left) ?R (\<lambda>_ q. moved p q) p"
    unfolding infix_step_def wp_pbind
  proof (rule wp_mono)
    fix found q assume q: "picked p bops found q"
    show "wp (case found of None \<Rightarrow> preturn None
        | Some b \<Rightarrow> pbind operand (\<lambda>right. pbind (build b left right) (\<lambda>e. preturn (Some e)))) ?R (\<lambda>_ q. moved p q) q"
    proof (cases found)
      case None
      then show ?thesis using q by (simp add: moved_refl)
    next
      case (Some b)
      have b: "b \<in> bops" "moved p q" "remaining q < remaining p" using q Some by auto
      have "parses 0 r 0 (\<lambda>o'. \<exists>e. o' = Some e \<and> I e) (pbind operand (\<lambda>right. pbind (build b left right) (\<lambda>e. preturn (Some e))))"
        using b(1) p by (auto intro!: parses_bind [OF assms(2)] parses_bind [OF assms(3)] parses_intros)
      then have "wp (pbind operand (\<lambda>right. pbind (build b left right) (\<lambda>e. preturn (Some e))))
          (\<lambda>o' t. moved q t \<and> remaining t + 0 \<le> remaining q \<and> (\<exists>e. o' = Some e \<and> I e)) (\<lambda>_ t. moved q t) q"
        by (rule parsesD) (use b p in \<open>auto simp: moved_def\<close>)
      then show ?thesis unfolding Some option.case by (rule wp_mono) (use b in \<open>auto intro: moved_trans\<close>)
    qed
  qed simp
qed

lemma parses_infix_level:
  assumes "picks next_op bops" and "parses 0 r 1 J operand" and "\<And>e. J e \<Longrightarrow> I e" and "r \<le> n"
    and "\<And>b l x s r. b \<in> bops \<Longrightarrow> I l \<Longrightarrow> J x \<Longrightarrow> parses s r 0 I (build b l x)"
  shows "parses 0 r 1 I (infix_level n next_op build operand)"
  unfolding infix_level_def
  using assms(3,4)
  by (auto intro!: parses_bind [OF assms(2)] parses_step_loop [OF extends_infix [OF assms(1,2,5)]])

section \<open>The levels of the ladder\<close>

text \<open>What the ladder needs of the parser for its operands.\<close>

definition operand_parser :: "'o expr parse \<Rightarrow> bool" where
  "operand_parser postfix \<longleftrightarrow> (\<forall>s r. parses s r 1 (\<lambda>e. \<exists>a. node e = Operand a) postfix)"

abbreviation at_level :: "nat \<Rightarrow> 'o expr \<Rightarrow> bool" where
  "at_level b e \<equiv> grouped (node e) \<and> b \<le> binding (node e)"

text \<open>A prefix expression: signed, or at the level of \<open>**\<close>.\<close>

abbreviation prefix_level :: "'o expr \<Rightarrow> bool" where
  "prefix_level e \<equiv> grouped (node e) \<and> (70 \<le> binding (node e) \<or> is_signed (node e))"

lemma signed_binding: "is_signed e \<Longrightarrow> binding e = 65"
  by (cases e) auto

lemma prefix_level_binding: "prefix_level e \<Longrightarrow> at_level 65 e"
  using signed_binding by fastforce

definition sign_only :: "nat \<Rightarrow> 'o expr parse \<Rightarrow> 'o expr parse" where
  "sign_only n postfix =
     pbind (match_operator OpMinus) (\<lambda>minus.
       if minus then prefixed (Unary UnNeg) (unary n postfix)
       else pbind (match_operator OpTilde) (\<lambda>tilde.
         if tilde then prefixed (Unary UnInvert) (unary n postfix) else pfail Callable_arity (span_new 0 0)))"

lemma unary_at_sign:
  "cursor_ok p \<Longrightarrow> peek_kind p \<in> {Operator OpMinus, Operator OpTilde} \<Longrightarrow> wp (unary (Suc n) postfix) Q E p = wp (sign_only n postfix) Q E p"
  by (auto simp: sign_only_def)

lemma parses_sign_only:
  assumes "\<And>s. parses s (r - 1) 1 prefix_level (unary n postfix)"
  shows "parses s r 1 (\<lambda>e. grouped (node e) \<and> is_signed (node e)) (sign_only n postfix)"
  unfolding sign_only_def
  by (intro parses_intros parses_weaken [OF parses_prefixed [OF assms, where J = "\<lambda>e. grouped (node e) \<and> is_signed (node e)"]])
    (auto simp: signed_binding)

lemma parses_keyword_operand:
  assumes "\<And>s r'. r' < r \<Longrightarrow> parses s r' 1 prefix_level (unary n postfix)" and "\<And>s. parses s r 1 (at_level 100) (power_base (Suc n) postfix)"
  shows "parses s r 1 (\<lambda>e. grouped (node e) \<and> (100 \<le> binding (node e) \<or> is_signed (node e)))
    (pbind (or_match (check_op OpMinus) (check_op OpTilde)) (\<lambda>sign. if sign then unary (Suc n) postfix else power_base (Suc n) postfix))"
proof (rule parsesI)
  fix p assume p: "cursor_ok p" "remaining p \<le> r" "s \<le> pos p"
  let ?R = "\<lambda>e q. moved p q \<and> remaining q + 1 \<le> remaining p \<and> grouped (node e) \<and> (100 \<le> binding (node e) \<or> is_signed (node e))"
  have r: "0 < r" using p by (auto simp: remaining_def cursor_ok_def)
  have sign: "wp (unary (Suc n) postfix) ?R (\<lambda>_ q. moved p q) p" if "peek_kind p \<in> {Operator OpMinus, Operator OpTilde}"
    unfolding unary_at_sign [OF p(1) that]
    by (rule wp_mono [OF parsesD [OF parses_sign_only p(1), of r]]) (use assms(1) p r in auto)
  have base: "wp (power_base (Suc n) postfix) ?R (\<lambda>_ q. moved p q) p"
    by (rule wp_mono [OF parsesD [OF assms(2) p]]) auto
  show "wp (pbind (or_match (check_op OpMinus) (check_op OpTilde))
      (\<lambda>sign. if sign then unary (Suc n) postfix else power_base (Suc n) postfix)) ?R (\<lambda>_ q. moved p q) p"
    using p(1) sign base by (simp add: or_match_def del: unary.simps power_base.simps)
qed

lemma prefix_contract:
  assumes "operand_parser postfix"
  shows "(3 * r + 2 \<le> n \<longrightarrow> parses s r 1 prefix_level (unary n postfix))
    \<and> (3 * r + 1 \<le> n \<longrightarrow> parses s r 1 (at_level 70) (power n postfix))
    \<and> (3 * r \<le> n \<longrightarrow> parses s r 1 (at_level 100) (power_base n postfix))"
proof (induction n arbitrary: r s rule: less_induct)
  case (less k)
  show ?case
  proof (cases k)
    case 0
    then show ?thesis by (simp add: parses_zero)
  next
    case (Suc n)
    have un: "m \<le> n \<Longrightarrow> 3 * r + 2 \<le> m \<Longrightarrow> parses s r 1 prefix_level (unary m postfix)"
      and pow: "3 * r + 1 \<le> n \<Longrightarrow> parses s r 1 (at_level 70) (power n postfix)"
      and base: "3 * r \<le> n \<Longrightarrow> parses s r 1 (at_level 100) (power_base n postfix)" for r s m
      using less.IH [of m r s] less.IH [of n r s] Suc by simp_all
    have "parses s r 1 prefix_level (unary (Suc n) postfix)" if "3 * r + 2 \<le> Suc n"
      unfolding unary.simps
      using that by (intro parses_intros parses_weaken [OF parses_prefixed [OF un [OF order_refl], where J = prefix_level]] parses_weaken [OF pow])
        (auto simp: signed_binding)
    moreover have "parses s r 1 (at_level 70) (power (Suc n) postfix)" if "3 * r + 1 \<le> Suc n"
      unfolding power.simps
      using that by (intro parses_bind [OF base] parses_intros parses_bind [OF un [OF order_refl]]) auto
    moreover have "parses s r 1 (at_level 100) (power_base (Suc n) postfix)" if n: "3 * r \<le> Suc n"
      unfolding power_base.simps
    proof (rule parses_surface_keyword)
      show "parses s r 1 (at_level 100) postfix"
        by (rule parses_weaken [where I = "\<lambda>e. \<exists>a. node e = Operand a"]) (use assms in \<open>auto simp: operand_parser_def\<close>)
      fix i assume r: "1 < r"
      then obtain m where m: "n = Suc m" using n by (cases n) auto
      show "parses (s + 1) (r - 1) (1 - 1) (at_level 100) (prefixed (PrefixUnary i)
             (pbind (or_match (check_op OpMinus) (check_op OpTilde)) (\<lambda>sign. if sign then unary n postfix else power_base n postfix)))"
        unfolding m
        by (rule parses_weaken [OF parses_prefixed [OF parses_keyword_operand]]) (use n m r un base in auto)
    qed
    ultimately show ?thesis unfolding Suc by blast
  qed
qed

lemma parses_plain_binary:
  "b \<noteq> BinPow \<Longrightarrow> at_level (binary_precedence b) l \<Longrightarrow> at_level (Suc (binary_precedence b)) x \<Longrightarrow>
   parses s r 0 (at_level (binary_precedence b)) (plain_binary b l x)"
  unfolding plain_binary_def by (rule parses_preturn) auto

lemma parses_scoped_or_binary:
  assumes "binary_precedence b \<in> {40, 50, 60}" and "at_level (binary_precedence b) l" and "at_level (Suc (binary_precedence b)) x"
  shows "parses s r 0 (at_level (binary_precedence b)) (scoped_or_binary b l x)"
proof -
  have "b \<noteq> BinPow" using assms(1) by auto
  have glyph: "binary_precedence b \<le> glyph_binding g (binding (node l)) (binding (node x))" if "binary_glyph b = Some g" for g
    using assms that by (cases b) (auto simp: glyph_binding_def)
  have "at_level (binary_precedence b) (fst (the_result, p))" if "scoped_or_binary b l x p = (Parsed the_result, p)" for the_result p
    using that assms glyph \<open>b \<noteq> BinPow\<close>
    by (auto simp: scoped_or_binary_def pget_def Let_def scoped_glyph_binary_def scoped_glyph_binary_from_active_def split: option.splits)
  then show ?thesis
    by (auto simp: parses_def wp_def scoped_or_binary_def pget_def moved_refl)
qed

lemma parses_level:
  assumes tests: "list_all (\<lambda>(t, b). matches_token t \<and> binary_precedence b = q) tests" and "parses 0 r 1 (at_level c) operand"
    and "q < c" and "r \<le> n" and "q < 70" and "build = plain_binary \<or> build = scoped_or_binary \<and> q \<in> {40, 50, 60}"
  shows "parses 0 r 1 (at_level q) (infix_level n (first_match tests) build operand)"
proof (rule parses_infix_level)
  show "picks (first_match tests) {b. binary_precedence b = q}"
    by (rule picks_first_match) (use tests in \<open>auto simp: list_all_iff\<close>)
  show "parses 0 r 1 (at_level (Suc q)) operand" by (rule parses_weaken [OF assms(2)]) (use assms(3) in auto)
  fix b and l x :: "'a expr" and s r
  assume b: "b \<in> {b. binary_precedence b = q}" "at_level q l" "at_level (Suc q) x"
  then have "b \<noteq> BinPow" using assms(5) by auto
  then show "parses s r 0 (at_level q) (build b l x)"
    using b assms(6) parses_plain_binary [of b l x s r] parses_scoped_or_binary [of b l x s r] by auto
qed (use assms(4) in auto)

lemma arithmetic_levels:
  assumes "operand_parser postfix" and "3 * r + 2 \<le> n"
  shows "parses 0 r 1 (at_level 60) (multiplicative n postfix)" "parses 0 r 1 (at_level 50) (additive n postfix)"
    "parses 0 r 1 (at_level 48) (shift n postfix)" "parses 0 r 1 (at_level 45) (bit_and n postfix)"
    "parses 0 r 1 (at_level 44) (bit_xor n postfix)" "parses 0 r 1 (at_level 43) (bit_or n postfix)"
proof -
  have un: "parses 0 r 1 (at_level 65) (unary n postfix)"
    by (rule parses_weaken [where I = prefix_level]) (use prefix_contract [OF assms(1), of r n 0] assms(2) in \<open>auto simp: signed_binding\<close>)
  show mul: "parses 0 r 1 (at_level 60) (multiplicative n postfix)"
    unfolding multiplicative_def multiplicative_op_def
    by (rule parses_level [OF _ un]) (use assms(2) in \<open>auto simp: matches_operators\<close>)
  show add: "parses 0 r 1 (at_level 50) (additive n postfix)"
    unfolding additive_def by (rule parses_level [OF _ mul]) (use assms(2) in \<open>auto simp: matches_operators\<close>)
  show sh: "parses 0 r 1 (at_level 48) (shift n postfix)"
    unfolding shift_def by (rule parses_level [OF _ add]) (use assms(2) in \<open>auto simp: matches_operators\<close>)
  show ba: "parses 0 r 1 (at_level 45) (bit_and n postfix)"
    unfolding bit_and_def by (rule parses_level [OF _ sh]) (use assms(2) in \<open>auto simp: matches_operators\<close>)
  show bx: "parses 0 r 1 (at_level 44) (bit_xor n postfix)"
    unfolding bit_xor_def by (rule parses_level [OF _ ba]) (use assms(2) in \<open>auto simp: matches_operators\<close>)
  show "parses 0 r 1 (at_level 43) (bit_or n postfix)"
    unfolding bit_or_def by (rule parses_level [OF _ bx]) (use assms(2) in \<open>auto simp: matches_operators\<close>)
qed

lemma range_level:
  assumes "operand_parser postfix" and "3 * r + 2 \<le> n"
  shows "parses s r 1 (at_level 42) (range_expr n postfix)"
proof -
  have operand: "r' \<le> r \<Longrightarrow> parses s r' 1 (at_level 43) (bit_or n postfix)" for s r'
    using arithmetic_levels(6) [OF assms] by (rule parses_mono) auto
  have test: "parses s r' 0 (\<lambda>_. True) (if inclusive then preturn True else match_operator OpDotDot)" for s r' inclusive
    by (auto simp: parses_def moved_refl moved_forward moved_remaining)
  show ?thesis
    unfolding range_expr_def
    by (intro parses_bind [OF operand] parses_intros parses_bind [OF test] parses_bind [OF operand]) auto
qed

lemma extends_comparison:
  assumes nested: "parses 0 r 1 (at_level 40) nested" and operand: "parses 0 r 1 (at_level 42) operand"
  shows "extends r (at_level 40) (comparison_step nested operand)"
  unfolding extends_def
proof (intro allI impI)
  fix left :: "'a expr" and p assume p: "at_level 40 left \<and> cursor_ok p \<and> remaining p \<le> r"
  let ?R = "\<lambda>longer q. moved p q \<and> (\<forall>e. longer = Some e \<longrightarrow> at_level 40 e \<and> remaining q < remaining p)"
  have plain: "extends r (at_level 40) (infix_step comparison_op scoped_or_binary operand)"
  proof (rule extends_infix [OF picks_comparison operand])
    fix b :: BinaryOp and l x :: "'a expr" and s r
    assume "b \<in> {BinPipeForward, BinPipeBackward, BinEq, BinNotEq, BinLt, BinGt, BinLtEq, BinGtEq, BinIn, BinNotIn, BinIs, BinIsNot}"
      and e: "at_level 40 l" "at_level 42 x"
    then have "binary_precedence b = 40" by auto
    then show "parses s r 0 (at_level 40) (scoped_or_binary b l x)" using parses_scoped_or_binary [of b l x s r] e by auto
  qed
  have glyph: "parses 0 r 1 (\<lambda>o'. \<exists>e. o' = Some e \<and> at_level 40 e)
      (pbind (if surface_family (descriptor a) = BindingLike then nested else operand)
         (\<lambda>right. pget (\<lambda>p. Some (scoped_glyph_binary_from_active p a g left right (merged left right)))))" for a g
  proof (rule parses_bind [where I = "at_level 40"])
    show "parses 0 r 1 (at_level 40) (if surface_family (descriptor a) = BindingLike then nested else operand)"
      using nested by (auto intro: parses_weaken [OF operand])
  qed (use p in \<open>auto simp: parses_def moved_refl scoped_glyph_binary_from_active_def glyph_binding_def\<close>)
  have "wp consume_active_scoped_glyph (\<lambda>_ q. moved p q \<and> remaining q + 0 \<le> remaining p \<and> True) (\<lambda>_ q. moved p q) p"
    using parsesD [OF parses_scoped_glyph] p by blast
  then show "wp (comparison_step nested operand left) ?R (\<lambda>_ q. moved p q) p"
    unfolding comparison_step_def wp_pbind
  proof (rule wp_mono)
    fix owned q assume "moved p q \<and> remaining q + 0 \<le> remaining p \<and> True"
    then have q: "moved p q" "remaining q \<le> remaining p" "cursor_ok q" by (auto simp: moved_def)
    show "wp (case owned of None \<Rightarrow> infix_step comparison_op scoped_or_binary operand left
        | Some (a, g) \<Rightarrow> pbind (if surface_family (descriptor a) = BindingLike then nested else operand)
            (\<lambda>right. pget (\<lambda>p. Some (scoped_glyph_binary_from_active p a g left right (merged left right))))) ?R (\<lambda>_ q. moved p q) q"
    proof (cases owned)
      case None
      have "wp (infix_step comparison_op scoped_or_binary operand left)
          (\<lambda>longer t. moved q t \<and> (\<forall>e. longer = Some e \<longrightarrow> at_level 40 e \<and> remaining t < remaining q)) (\<lambda>_ t. moved q t) q"
        using plain p q by (simp add: extends_def)
      then show ?thesis unfolding None option.case by (rule wp_mono) (use q in \<open>auto intro: moved_trans\<close>)
    next
      case (Some x)
      obtain a g where x: "x = (a, g)" by force
      show ?thesis unfolding Some x option.case prod.case
        by (rule wp_mono [OF parsesD [OF glyph q(3)]]) (use q p in \<open>auto intro: moved_trans\<close>)
    qed
  qed simp
qed

lemma comparison_level:
  "operand_parser postfix \<Longrightarrow> 3 * r + 3 \<le> n \<Longrightarrow> parses s r 1 (at_level 40) (comparison n postfix)"
proof (induction n arbitrary: r s)
  case (Suc n)
  note range = range_level [OF Suc.prems(1)]
  have "extends (r - 1) (at_level 40) (comparison_step (comparison n postfix) (range_expr n postfix))" if "0 < r"
    using Suc.prems that by (intro extends_comparison Suc.IH range) auto
  then show ?case
    unfolding comparison.simps using Suc.prems
    by (auto intro!: parses_bind [OF range] parses_step_loop)
qed simp

lemma not_level:
  "operand_parser postfix \<Longrightarrow> 3 * r + 4 \<le> n \<Longrightarrow> parses s r 1 (at_level 30) (not_expr n postfix)"
proof (induction n arbitrary: r s)
  case (Suc n)
  have nested: "3 * r' + 4 \<le> n \<Longrightarrow> parses s r' 1 (at_level 30) (not_expr n postfix)" for s r'
    using Suc.IH [OF Suc.prems(1)] by simp
  show ?case
    unfolding not_expr.simps using Suc.prems
    by (intro parses_intros parses_weaken [OF parses_prefixed [OF nested, where J = "at_level 30"]]
        parses_weaken [OF comparison_level]) auto
qed simp


text \<open>The operand parser for names: the last case of \<open>primary\<close>.\<close>

definition name_operand :: "rstr expr parse" where
  "name_operand = pbind current_span (\<lambda>s. pbind parser_identifier (\<lambda>name. preturn (Spanned (Operand name) s)))"

lemma operand_parser_name: "operand_parser name_operand"
  unfolding operand_parser_def name_operand_def by (intro allI parses_intros) auto


end
