(* ===== verification/Spec2Isabelle.thy ===== *)
theory Spec2Isabelle
  imports Incan_Prelude Incan_Errors Integer_Arithmetic Numeric_Types Byte_Codec Decimal_Values Numeric_Strings
    Sequences Emitted_Symbol Vocabulary Lexer Lexer_Driver Lexer_Layout Lexer_Roundtrip Resolved_Types Match_Coverage
    Match_Soundness Ordered_Containers Semantic_Facts Checked_Dependencies Authority_Decisions Suite_Partition
    Suite_Reconciliation Parser_Cursor Type_Parser Type_Printing Token_Reading Type_Roundtrip
    Expression_Ladder Expression_Grouping Expression_Roundtrip
begin

text \<open>
  Verification of the Incan compiler's kernel, runtime core and suite tooling.

  Incan is a statically typed, Python-like language compiled to Rust.  Its sources are layered
  (\<open>src/loaves\<close>): the \<^emph>\<open>kernel\<close> holds the language vocabulary and the semantic policy shared by the
  compiler and the generated programs (\<open>incan_lang\<close>), the lexer and parser (\<open>incan_syntax\<close>) and the
  canonical identities of declarations (\<open>incan_semantics_core\<close>); the \<^emph>\<open>compiler\<close> checks, lowers and
  emits; \<^emph>\<open>stdlib\<close> is the runtime that generated programs call; \<^emph>\<open>oven\<close> builds, stores and tests artifacts;
  \<^emph>\<open>toolchain\<close> has the command-line tools and the language server.

  \<^bold>\<open>How the parts meet.\<close>  Source text goes through the lexer, whose spellings come from the vocabulary
  registries, to the parser, which builds the syntax tree; the checker decides types and the exhaustiveness of
  \<open>match\<close>; facts about declarations are kept in the semantic fact store, from which dependencies are read,
  under identities that are also written into the emitted Rust symbols.  Generated programs call the runtime
  for integer, decimal, text, list and range operations and raise its errors.  The test suite of the compiler
  is cut into partitions, and the reports of the partitions are reconciled.

  \<^bold>\<open>Conventions.\<close>  A Rust \<open>char\<close> is its code point, a \<open>str\<close> a list of them (\<open>rstr\<close>), a byte an \<open>8 word\<close>; fixed-width
  integers are \<open>int\<close> or \<open>nat\<close> with their range predicates and wrap-around written out (\<open>in_signed\<close>,
  \<open>wrap_signed\<close>), \<open>usize\<close> is 64 bits wide.  A function that can panic or raise returns \<open>panic + 'a\<close>; other
  fallible code returns \<open>option\<close> or its own error type.  Structs are records, enums datatypes with the source's
  variants.  Mutation is state passing.  Ordered maps and sets are sorted association lists over an injective key
  (\<open>Ordered_Containers\<close>), which is how \<open>#[derive(Ord)]\<close> compares.  Where the sources use code that is not part of
  the repository, it is a parameter: Rust's \<open>f64\<close> parser in the lexer and in \<open>Numeric_Strings\<close>, and its \<open>Debug\<close>
  rendering of a float there.

  \<^bold>\<open>Theories and sources.\<close>
  \<^item> \<open>Incan_Prelude\<close>: scalars, strings, ranges, decimal rendering, results, and the simp collections.
  \<^item> \<open>Incan_Errors\<close> (\<open>incan_lang/src/errors.rs\<close>, \<open>lang/errors.rs\<close>, \<open>stdlib/core/rust/src/errors.rs\<close>): error kinds,
    constructors, their texts, and raising.
  \<^item> \<open>Integer_Arithmetic\<close> (\<open>incan_lang/src/lib.rs\<close>, \<open>stdlib/core/rust/src/num.rs\<close>): numeric promotion, Python
    floor division and modulo at every width, \<open>gcd\<close>, \<open>lcm\<close>, checked and saturating resizes.  The locale
    \<open>python_division\<close> states the contract of \<open>//\<close> and \<open>%\<close>; it is interpreted at 8, 16, 32, 64 and 128 bits.
  \<^item> \<open>Numeric_Types\<close> (\<open>lang/types/numerics.rs\<close>, \<open>numeric_values.rs\<close>): the registry of numeric types and lossless
    widening; widening is inclusion of values, and common types are least upper bounds.
  \<^item> \<open>Byte_Codec\<close>: little- and big-endian integers and UTF-8 of the standard library.
  \<^item> \<open>Decimal_Values\<close> (\<open>numeric_values.rs\<close>, \<open>num.rs\<close>): decimal literals, their checks, comparison and rendering,
    and \<open>Decimal128\<close>; order and hash are those of the rational value, rendering is parsed back.
  \<^item> \<open>Numeric_Strings\<close> (\<open>numeric_strings.rs\<close>): separators, integer and float text.
  \<^item> \<open>Sequences\<close> (\<open>strings.rs\<close>, \<open>indexing.rs\<close>, \<open>collections.rs\<close>, \<open>iter.rs\<close>): Python indices, slices, list and dict
    helpers, ranges and batches, with and without overflow checks.  The locale \<open>python_index\<close> is the contract of
    both index normalisers.
  \<^item> \<open>Emitted_Symbol\<close> (\<open>emitted_symbol.rs\<close>, identities of \<open>facts.rs\<close> and \<open>hir.rs\<close>): the payload codec of symbol
    identities; the locale \<open>payload_codec\<close> is the round trip of one field, interpreted for each field and for the
    whole identity.
  \<^item> \<open>Vocabulary\<close> (\<open>lang/operators.rs\<close>, \<open>punctuation.rs\<close>, \<open>keywords.rs\<close>): the tables entry by entry and every lookup;
    the locale \<open>spelling_registry\<close> states that spellings identify entries.
  \<^item> \<open>Lexer\<close>, \<open>Lexer_Driver\<close>, \<open>Lexer_Layout\<close>, \<open>Lexer_Roundtrip\<close> (\<open>incan_syntax/src/lexer\<close>): the lexer state as a record,
    one function per scanner, the driver; one step as a relation between states with the termination order;
    the invariant and its consequences for blocks, spans and layout tokens; printing and lexing.
  \<^item> \<open>Parser_Cursor\<close> (\<open>parser/helpers.rs\<close>, \<open>parser/util.rs\<close>, \<open>token_helpers.rs\<close>): \<open>Parser\<close> as a record, methods as
    actions with the outcomes of \<open>Result\<close> and of an index out of bounds, every cursor helper, soft keywords,
    error recovery; weakest preconditions and the parsing contract \<open>parses\<close>.
  \<^item> \<open>Type_Parser\<close>, \<open>Type_Printing\<close>, \<open>Type_Roundtrip\<close> (\<open>parser/types.rs\<close>, \<open>ast/types.rs\<close>): the type grammar, type
    parameters, bounds and supertraits, \<open>Display\<close>; the parser is total, and rendered types are read back.
    \<open>Token_Reading\<close> has the rules for what an action makes of a given token sequence.
  \<^item> \<open>Expression_Ladder\<close>, \<open>Expression_Grouping\<close>, \<open>Expression_Roundtrip\<close> (\<open>parser/expr.rs\<close>,
    \<open>parser/prefix_and_power.rs\<close>): the operator levels from \<open>or\<close> to \<open>**\<close> with the glyphs of library vocabularies,
    as a function of the operand parser; every tree is grouped as the operator registry documents, and every
    such tree is read back (locale \<open>operand_syntax\<close>, interpreted for names).
  \<^item> \<open>Resolved_Types\<close>, \<open>Match_Coverage\<close>, \<open>Match_Soundness\<close> (\<open>lang/types/collections.rs\<close>, \<open>surface/constructors.rs\<close>,
    \<open>symbols.rs\<close>, \<open>check_expr/match_coverage.rs\<close>, \<open>match_.rs\<close>): the pattern-matrix walk with its reports, and its
    soundness in both directions against a semantics of values, types and patterns.
  \<^item> \<open>Ordered_Containers\<close>, \<open>Semantic_Facts\<close>, \<open>Checked_Dependencies\<close>, \<open>Authority_Decisions\<close>
    (\<open>incan_semantics_core/src\<close>): fact stores, node identities and their derived order, the dependency graph and
    its closure, the nearest declaring owner, capability decisions.  The locale \<open>ordered_keys\<close> is the theory of
    sorted containers over a key, \<open>authority_source\<close> the contract of a decision source.
  \<^item> \<open>Suite_Partition\<close>, \<open>Suite_Reconciliation\<close> (\<open>oven_rustc/src/native_test/case_slice.rs\<close>,
    \<open>oven-cli/src/commands/oven/case_partition.rs\<close>, \<open>partition_reconciliation.rs\<close>, parts of \<open>oven.rs\<close>): slices of test
    cases, packing into partitions, and the check that reports of partitions jointly cover the suite.

  \<^bold>\<open>What the theorems show.\<close>  Safety: the lexer ends on every input with balanced blocks, ordered spans and no
  pending indentation; the type parser and the operator ladder never index outside the token stream and return;
  accepted matches are exhaustive and refused ones have an unmatched value; a partitioned suite runs every case
  once, and reconciliation accepts exactly complete runs.  Round trips: tokens, types, operator expressions,
  symbol identities, decimals.  Equivalence and refinement: the ladder against the operator registry, widening
  against value inclusion, \<open>Decimal128\<close> against rationals, the fact store against the set of inserted facts, the
  worklist against reachability.  Errors: the exact condition of each raised error in division, \<open>gcd\<close>, slices and
  ranges.  Theorems that state a flaw of the code are named in the manifest's findings.

  \<^bold>\<open>Bounds and fuel.\<close>  \<open>gcd\<close>, slices, ranges, batches and the dependency worklist are \<open>partial_function (option)\<close> or
  terminating recursion, and that they return is proved.  The coverage walk keeps the code's depth limit
  \<open>MAX_COVERAGE_DEPTH\<close>; so acceptance is shown for values of at most 33 constructors.  Durations saturate at \<open>u64\<close> as
  in the code.  The type parser and the ladder take fuel, one unit per call or loop round: \<open>type_fuel\<close> (four per
  remaining token, and four) and \<open>expression_fuel\<close> (three per remaining token, and four) are shown to suffice for
  every stream, since each cycle of calls consumes a token.

  \<^bold>\<open>Not modelled.\<close>  Postfix and primary expressions, statements, declarations and embedded fragments of the parser:
  they are the next step, and need the mutually recursive syntax tree of expressions and statements.  The
  resolver, the type checker apart from \<open>match\<close>, the body IR, and emission, which builds Rust token streams
  through the third-party packages \<open>quote\<close> and \<open>syn\<close>.  The anonymous-union path of \<open>match\<close>.  Floating-point
  division, which rests on IEEE arithmetic.  Generators, which run on threads.  The Oven store and cargo
  compatibility, the driver, the command-line tools and the language server: files, processes and editor
  protocols around the logic above.  The web, async and interop facets of the runtime, which wrap third-party
  packages.  Diagnostic texts of the lexer and parser are kept as kinds with their arguments.
\<close>

end
